(* ===== verification/Prelude.thy ===== *)
theory Prelude
  imports Main
begin

text \<open>
  What the component theories share: the faults a C++ run can end in, results that are a
  fault or a value, the C characters and C strings the parsers work on, the string functions
  of the C library that the sources call, and the lemmas about buffers (lists updated by
  index) that every component proof uses.
\<close>

section \<open>Faults and results\<close>

text \<open>
  A run of the C++ code can leave the defined behaviour of the language or abort. Each way
  is a value here, so that "this never happens" is a statement about the model.
\<close>

datatype fault =
    OutOfBounds      \<comment> \<open>an array is read or written outside its elements\<close>
  | NullDeref        \<comment> \<open>a null pointer (or a pointer computed from one) is dereferenced\<close>
  | Uninitialised    \<comment> \<open>a variable is read that no one has written\<close>
  | Unterminated     \<comment> \<open>a C string function runs off the end of a buffer with no NUL in it\<close>
  | DanglingPtr      \<comment> \<open>a freed object is dereferenced\<close>
  | AssertFail       \<comment> \<open>an \<open>assert\<close> of the source fails and aborts the process\<close>
  | Diverges         \<comment> \<open>an inner loop, or a call that only this process could end, never ends\<close>

type_synonym 'a res = "fault + 'a"

primrec rbind :: "'a res \<Rightarrow> ('a \<Rightarrow> 'b res) \<Rightarrow> 'b res" where
  "rbind (Inl f) g = Inl f"
| "rbind (Inr x) g = g x"

primrec map_res :: "('a \<Rightarrow> 'b) \<Rightarrow> 'a res \<Rightarrow> 'b res" where
  "map_res g (Inl f) = Inl f"
| "map_res g (Inr x) = Inr (g x)"

lemma map_res_eq_simps:
  "map_res g m = Inl f \<longleftrightarrow> m = Inl f" "map_res g m = Inr y \<longleftrightarrow> (\<exists>x. m = Inr x \<and> y = g x)"
  "Inr y = map_res g m \<longleftrightarrow> (\<exists>x. m = Inr x \<and> y = g x)"
  by (cases m; auto)+

lemma map_res_map_res: "map_res g (map_res h m) = map_res (\<lambda>x. g (h x)) m"
  by (cases m) auto

lemma rbind_cong [fundef_cong]:
  "m = m' \<Longrightarrow> (\<And>x. m' = Inr x \<Longrightarrow> g x = g' x) \<Longrightarrow> rbind m g = rbind m' g'"
  by (cases m') auto

lemma rbind_Inr [simp]: "rbind m Inr = m"
  by (cases m) auto

lemma rbind_eq_Inr_iff: "rbind m g = Inr y \<longleftrightarrow> (\<exists>x. m = Inr x \<and> g x = Inr y)"
  by (cases m) auto

lemma rbind_eq_Inl_iff:
  "rbind m g = Inl f \<longleftrightarrow> m = Inl f \<or> (\<exists>x. m = Inr x \<and> g x = Inl f)"
  by (cases m) auto

lemma rbind_assoc: "rbind (rbind m g) h = rbind m (\<lambda>x. rbind (g x) h)"
  by (cases m) auto

lemma rbind_split:
  "P (rbind m g) \<longleftrightarrow> (\<forall>f. m = Inl f \<longrightarrow> P (Inl f)) \<and> (\<forall>x. m = Inr x \<longrightarrow> P (g x))"
  by (cases m) auto

section \<open>Characters and C strings\<close>

abbreviation NUL :: char where "NUL \<equiv> CHR 0x00"
abbreviation TAB :: char where "TAB \<equiv> CHR 0x09"
abbreviation LF :: char where "LF \<equiv> CHR 0x0A"
abbreviation CR :: char where "CR \<equiv> CHR 0x0D"
abbreviation SPACE :: char where "SPACE \<equiv> CHR 0x20"

abbreviation CRLF :: string where "CRLF \<equiv> [CR, LF]"

text \<open>The C string that starts a list of bytes: everything before the first NUL.\<close>

definition cstr :: "char list \<Rightarrow> string" where
  "cstr bs = takeWhile (\<lambda>c. c \<noteq> NUL) bs"

text \<open>The C string at an offset of a buffer; \<open>None\<close> when no NUL ends it inside the buffer.\<close>

definition cstr_at :: "char list \<Rightarrow> nat \<Rightarrow> string option" where
  "cstr_at buf i = (if NUL \<in> set (drop i buf) then Some (cstr (drop i buf)) else None)"

lemma NUL_notin_cstr [simp]: "NUL \<notin> set (cstr bs)"
  by (auto simp: cstr_def dest: set_takeWhileD)

lemma cstr_id: "NUL \<notin> set bs \<Longrightarrow> cstr bs = bs"
  by (auto simp: cstr_def takeWhile_eq_all_conv)

lemma cstr_append_NUL [simp]: "cstr (bs @ NUL # cs) = cstr bs"
  by (simp add: cstr_def takeWhile_tail)

lemma cstr_Nil [simp]: "cstr [] = []"
  by (simp add: cstr_def)

lemma cstr_Cons: "cstr (c # cs) = (if c = NUL then [] else c # cstr cs)"
  by (simp add: cstr_def)

lemma set_cstr_subset: "set (cstr bs) \<subseteq> set bs"
  by (auto simp: cstr_def dest: set_takeWhileD)

text \<open>\<open>strpbrk\<close>: the offset of the first character of \<open>s\<close> that is in \<open>accept\<close>.\<close>

primrec strpbrk :: "string \<Rightarrow> string \<Rightarrow> nat option" where
  "strpbrk [] accept = None"
| "strpbrk (c # cs) accept =
     (if c \<in> set accept then Some 0 else map_option Suc (strpbrk cs accept))"

lemma strpbrk_None_iff: "strpbrk s acc = None \<longleftrightarrow> set s \<inter> set acc = {}"
  by (induction s) auto

lemma strpbrk_SomeD:
  "strpbrk s acc = Some n \<Longrightarrow>
     n < length s \<and> s ! n \<in> set acc \<and> set (take n s) \<inter> set acc = {}"
  by (induction s arbitrary: n) (auto split: if_splits)

lemma strpbrk_append:
  "set u \<inter> set acc = {} \<Longrightarrow> c \<in> set acc \<Longrightarrow> strpbrk (u @ c # v) acc = Some (length u)"
  by (induction u) auto

lemma strpbrk_Some_split:
  assumes "strpbrk s acc = Some n"
  obtains u c v where "s = u @ c # v" "length u = n" "c \<in> set acc" "set u \<inter> set acc = {}"
proof -
  from strpbrk_SomeD [OF assms] have n: "n < length s" "s ! n \<in> set acc"
    "set (take n s) \<inter> set acc = {}" by auto
  have "s = take n s @ s ! n # drop (Suc n) s" using n(1) by (simp add: id_take_nth_drop)
  with n show thesis by (intro that [of "take n s" "s ! n" "drop (Suc n) s"]) auto
qed

text \<open>\<open>tolower\<close> in the C locale.\<close>

definition to_lower :: "char \<Rightarrow> char" where
  "to_lower c =
     (let n = (of_char c :: nat) in if 65 \<le> n \<and> n \<le> 90 then char_of (n + 32) else c)"

text \<open>
  \<open>strcasecmp(a, b) == 0\<close> and \<open>strncasecmp(a, b, n) == 0\<close> on C strings without their NUL:
  the comparison stops at the first difference, after \<open>n\<close> characters, or when both strings
  end. A string that ends first differs from the other one.
\<close>

definition strcasecmp_eq :: "string \<Rightarrow> string \<Rightarrow> bool" where
  "strcasecmp_eq a b = (map to_lower a = map to_lower b)"

fun strncasecmp_eq :: "nat \<Rightarrow> string \<Rightarrow> string \<Rightarrow> bool" where
  "strncasecmp_eq 0 a b = True"
| "strncasecmp_eq (Suc n) [] [] = True"
| "strncasecmp_eq (Suc n) (x # xs) (y # ys) =
     (to_lower x = to_lower y \<and> strncasecmp_eq n xs ys)"
| "strncasecmp_eq (Suc n) _ _ = False"

lemma strncasecmp_eq_take:
  "strncasecmp_eq n a b \<longleftrightarrow> map to_lower (take n a) = map to_lower (take n b)"
  by (induction n a b rule: strncasecmp_eq.induct) auto

lemma strncasecmp_eq_long:
  "length a < n \<Longrightarrow> length b < n \<Longrightarrow> strncasecmp_eq n a b = strcasecmp_eq a b"
  by (simp add: strncasecmp_eq_take strcasecmp_eq_def)

section \<open>Buffers\<close>

text \<open>
  \<open>overwrite buf off d\<close> is the buffer after the bytes \<open>d\<close> have been stored from offset
  \<open>off\<close> on, as \<open>recv\<close>, \<open>memset\<close> and \<open>snprintf\<close> store them.
\<close>

definition overwrite :: "char list \<Rightarrow> nat \<Rightarrow> char list \<Rightarrow> char list" where
  "overwrite buf off d = take off buf @ d @ drop (off + length d) buf"

text \<open>The bytes of a buffer from one index up to (not including) another.\<close>

definition segment :: "nat \<Rightarrow> nat \<Rightarrow> 'a list \<Rightarrow> 'a list" where
  "segment i j xs = take (j - i) (drop i xs)"

named_theorems buffer_simps \<open>lengths and contents of updated buffers\<close>

lemma length_overwrite [buffer_simps]:
  "off + length d \<le> length buf \<Longrightarrow> length (overwrite buf off d) = length buf"
  by (simp add: overwrite_def)

lemma length_segment [buffer_simps]: "length (segment i j xs) = min (j - i) (length xs - i)"
  by (auto simp: segment_def)

lemma segment_nth: "i + n < j \<Longrightarrow> j \<le> length xs \<Longrightarrow> segment i j xs ! n = xs ! (i + n)"
  by (simp add: segment_def)

lemma segment_self [simp]: "segment i i xs = []"
  by (simp add: segment_def)

lemma segment_empty: "j \<le> i \<Longrightarrow> segment i j xs = []"
  by (simp add: segment_def)

lemma segment_Cons: "i < j \<Longrightarrow> j \<le> length xs \<Longrightarrow> segment i j xs = xs ! i # segment (Suc i) j xs"
  by (simp add: segment_def Suc_diff_Suc Cons_nth_drop_Suc [symmetric] take_Cons')

lemma segment_append:
  "i \<le> j \<Longrightarrow> j \<le> k \<Longrightarrow> k \<le> length xs \<Longrightarrow> segment i k xs = segment i j xs @ segment j k xs"
proof -
  assume a: "i \<le> j" "j \<le> k" "k \<le> length xs"
  then have "segment i k xs = take (j - i + (k - j)) (drop i xs)" by (simp add: segment_def)
  also have "\<dots> = segment i j xs @ segment j k xs"
    unfolding take_add using a by (simp add: segment_def)
  finally show ?thesis .
qed

lemma segment_snoc: "i \<le> j \<Longrightarrow> j < length xs \<Longrightarrow> segment i (Suc j) xs = segment i j xs @ [xs ! j]"
  using segment_append [of i j "Suc j" xs] segment_Cons [of j "Suc j" xs] by simp

lemma segment_update_before: "k < i \<Longrightarrow> segment i j (xs[k := c]) = segment i j xs"
  by (simp add: segment_def)

lemma segment_update_after: "j \<le> k \<Longrightarrow> segment i j (xs[k := c]) = segment i j xs"
  by (cases "k < length xs")
    (auto simp: segment_def list_eq_iff_nth_eq nth_list_update list_update_beyond)

lemma segment_overwrite_before:
  "j \<le> off \<Longrightarrow> off \<le> length buf \<Longrightarrow> segment i j (overwrite buf off d) = segment i j buf"
  by (simp add: segment_def overwrite_def drop_take)

lemma segment_overwrite_self:
  "off \<le> length buf \<Longrightarrow> segment off (off + length d) (overwrite buf off d) = d"
  by (simp add: segment_def overwrite_def)

lemmas segment_update = segment_update_before segment_update_after
lemmas segment_overwrite = segment_overwrite_before segment_overwrite_self

end
