(* ===== verification/Posix.thy ===== *)
theory Posix
  imports Prelude "HOL-Library.Word"
begin

unbundle bit_operations_syntax

text \<open>
  The operating system, seen from one process of the program. The kernel is not code of the
  repository, so it is a parameter: a record of functions that answer a system call, each from
  the calls the process has made before it (its trace) and the arguments of this one. Any
  behaviour of the environment is some such record. What the program does to the world is its
  trace: the calls it makes, in order, with their arguments. Calls whose answer the source
  ignores (or only prints) have an entry in the trace and no answer function.
\<close>

section \<open>Descriptors, numbers, addresses\<close>

type_synonym fd = int
type_synonym pid = int
type_synonym errno = int

text \<open>The values of the Linux headers the sources include (EWOULDBLOCK is EAGAIN there).\<close>

abbreviation (input) EINTR :: errno where "EINTR \<equiv> 4"
abbreviation (input) EBADF :: errno where "EBADF \<equiv> 9"
abbreviation (input) EAGAIN :: errno where "EAGAIN \<equiv> 11"
abbreviation (input) EWOULDBLOCK :: errno where "EWOULDBLOCK \<equiv> 11"

abbreviation (input) SIGINT :: int where "SIGINT \<equiv> 2"
abbreviation (input) SIGALRM :: int where "SIGALRM \<equiv> 14"
abbreviation (input) SIGTERM :: int where "SIGTERM \<equiv> 15"
abbreviation (input) SIGCHLD :: int where "SIGCHLD \<equiv> 17"
abbreviation (input) SIGURG :: int where "SIGURG \<equiv> 23"

abbreviation (input) EPOLLIN :: "32 word" where "EPOLLIN \<equiv> 0x001"
abbreviation (input) EPOLLET :: "32 word" where "EPOLLET \<equiv> 0x80000000"

abbreviation (input) POLLIN :: "16 word" where "POLLIN \<equiv> 0x001"
abbreviation (input) POLLOUT :: "16 word" where "POLLOUT \<equiv> 0x004"
abbreviation (input) POLLERR :: "16 word" where "POLLERR \<equiv> 0x008"
abbreviation (input) POLLRDHUP :: "16 word" where "POLLRDHUP \<equiv> 0x2000"

abbreviation (input) O_NONBLOCK :: int where "O_NONBLOCK \<equiv> 0x800"

record sockaddr_in =
  sin_addr :: "32 word"
  sin_port :: "16 word"

record epoll_event =
  events :: "32 word"
  data_fd :: fd

section \<open>System calls and their trace\<close>

datatype syscall =
    Recv fd nat                   \<comment> \<open>\<open>recv(fd, buf, n, 0)\<close>\<close>
  | Send fd "char list"           \<comment> \<open>\<open>send(fd, bytes, n, 0)\<close>\<close>
  | Writev fd "char list list"    \<comment> \<open>\<open>writev(fd, iov, iovcnt)\<close>\<close>
  | Accept fd
  | Close fd
  | FcntlGetFl fd
  | FcntlSetFl fd int
  | EpollCreate int
  | EpollCtlAdd fd fd "32 word"   \<comment> \<open>epoll descriptor, added descriptor, event mask\<close>
  | EpollCtlDel fd fd             \<comment> \<open>epoll descriptor, removed descriptor\<close>
  | EpollWait fd nat
  | SocketPair
  | Sigaction int                 \<comment> \<open>signal number; the handler is always the pipe writer\<close>
  | Fork
  | Getpid
  | Kill pid int
  | SocketCreate
  | Bind fd sockaddr_in
  | Listen fd int
  | Poll "fd list"
  | TimeNow
  | Alarm nat
  | Sleep nat
  | PipeCreate
  | Splice fd fd nat              \<comment> \<open>\<open>splice(from, NULL, to, NULL, n, ...)\<close>\<close>
  | Sendfile fd fd nat            \<comment> \<open>\<open>sendfile(to, from, NULL, n)\<close>\<close>
  | Open string int               \<comment> \<open>name and flags\<close>
  | Fstat fd
  | Dup fd
  | Setsid
  | Print "char list"             \<comment> \<open>\<open>printf\<close>, where standard output is a connection\<close>

type_synonym trace = "syscall list"

datatype recv_ret = RecvErr errno | RecvData "char list"

datatype accept_ret = AcceptErr errno | Accepted fd sockaddr_in

datatype epoll_ret = EpollErr errno | EpollEvents "epoll_event list"

record kernel =
  k_recv :: "trace \<Rightarrow> fd \<Rightarrow> nat \<Rightarrow> recv_ret"
  k_accept :: "trace \<Rightarrow> fd \<Rightarrow> accept_ret"
  k_epoll_create :: "trace \<Rightarrow> fd"
  k_epoll_wait :: "trace \<Rightarrow> fd \<Rightarrow> nat \<Rightarrow> epoll_ret"
  k_getfl :: "trace \<Rightarrow> fd \<Rightarrow> int"
  k_socketpair :: "trace \<Rightarrow> (fd \<times> fd) option"
  k_sigaction :: "trace \<Rightarrow> int \<Rightarrow> int"
  k_fork :: "trace \<Rightarrow> pid"
  k_getpid :: "trace \<Rightarrow> pid"
  k_socket :: "trace \<Rightarrow> fd"
  k_bind :: "trace \<Rightarrow> fd \<Rightarrow> int"
  k_listen :: "trace \<Rightarrow> fd \<Rightarrow> int"
  k_close :: "trace \<Rightarrow> fd \<Rightarrow> int"
  k_poll :: "trace \<Rightarrow> (fd \<times> 16 word) list \<Rightarrow> errno option \<times> (nat \<Rightarrow> 16 word)"
  k_time :: "trace \<Rightarrow> int"
  k_new :: "trace \<Rightarrow> nat"
  k_sigterm :: "trace \<Rightarrow> bool"
  k_pipe :: "trace \<Rightarrow> (fd \<times> fd) option"
  k_splice_in :: "trace \<Rightarrow> fd \<Rightarrow> nat \<Rightarrow> recv_ret"
  k_splice_out :: "trace \<Rightarrow> fd \<Rightarrow> nat \<Rightarrow> int"
  k_open :: "trace \<Rightarrow> string \<Rightarrow> fd"
  k_fstat :: "trace \<Rightarrow> fd \<Rightarrow> nat option"
  k_sendfile :: "trace \<Rightarrow> fd \<Rightarrow> nat \<Rightarrow> int"
  k_setsid :: "trace \<Rightarrow> int"

text \<open>
  \<open>k_poll\<close> answers \<open>poll\<close> on the watched descriptors and event masks: the error, if it fails, and
  what the call leaves in \<open>revents\<close> at each position, also when it fails. \<open>k_new\<close> is the address
  the allocator of the C++ library returns, and \<open>k_sigterm\<close> says whether a SIGTERM has been
  delivered by then to a process that handles it in place. \<open>k_splice_in\<close> answers \<open>splice\<close> from a
  socket into a pipe by the bytes it moves, \<open>k_splice_out\<close> from a pipe to a socket by their number
  (or -1), and \<open>k_fstat\<close> gives the size of a file.
\<close>

section \<open>Documented behaviour used as hypotheses\<close>

text \<open>
  \<open>recv\<close> never delivers more bytes than it was asked for (recv(2)).
\<close>

definition recv_bounded :: "kernel \<Rightarrow> bool" where
  "recv_bounded k \<longleftrightarrow> (\<forall>h fd n d. k_recv k h fd n = RecvData d \<longrightarrow> length d \<le> n)"

text \<open>\<open>epoll_wait\<close> reports at most as many events as the array has room for.\<close>

definition epoll_bounded :: "kernel \<Rightarrow> bool" where
  "epoll_bounded k \<longleftrightarrow> (\<forall>h fd n evs. k_epoll_wait k h fd n = EpollEvents evs \<longrightarrow> length evs \<le> n)"

text \<open>A call on the descriptor -1 fails with EBADF (recv(2): the argument is invalid).\<close>

definition recv_rejects_minus1 :: "kernel \<Rightarrow> bool" where
  "recv_rejects_minus1 k \<longleftrightarrow> (\<forall>h n. k_recv k h (-1) n = RecvErr EBADF)"

text \<open>
  The calls in a trace that write response bytes to a descriptor, and those that close one.
\<close>

definition writes_to :: "fd \<Rightarrow> syscall \<Rightarrow> bool" where
  "writes_to fd c = (case c of Writev f _ \<Rightarrow> f = fd | Send f _ \<Rightarrow> f = fd | _ \<Rightarrow> False)"

definition is_send :: "syscall \<Rightarrow> bool" where
  "is_send c = (case c of Send _ _ \<Rightarrow> True | _ \<Rightarrow> False)"

definition closes :: "fd \<Rightarrow> syscall \<Rightarrow> bool" where
  "closes fd c = (c = Close fd)"

lemma writes_to_simps [simp]:
  "writes_to fd (Writev f d) = (f = fd)" "writes_to fd (Send f e) = (f = fd)"
  "\<not> writes_to fd (Recv f n)" "\<not> writes_to fd (Close f)" "\<not> writes_to fd (EpollCtlDel p f)"
  "\<not> writes_to fd (EpollCtlAdd p f m)" "\<not> writes_to fd (FcntlGetFl f)"
  "\<not> writes_to fd (FcntlSetFl f v)" "\<not> writes_to fd (Accept f)"
  "\<not> writes_to fd (EpollWait f n)"
  by (auto simp: writes_to_def)

lemma is_send_simps [simp]:
  "is_send (Send fd d)" "\<not> is_send (Recv fd n)" "\<not> is_send (Kill p s)" "\<not> is_send (EpollWait fd n)"
  "\<not> is_send (EpollCreate m)" "\<not> is_send (EpollCtlAdd e fd ev)" "\<not> is_send SocketPair"
  "\<not> is_send (Sigaction s)" "\<not> is_send (Close fd)" "\<not> is_send Fork" "\<not> is_send Getpid"
  "\<not> is_send (FcntlGetFl fd)" "\<not> is_send (FcntlSetFl fd v)" "\<not> is_send SocketCreate"
  "\<not> is_send (Bind fd a)" "\<not> is_send (Listen fd i)"
  by (simp_all add: is_send_def)

lemma closes_simps [simp]:
  "closes fd (Close f) = (f = fd)" "\<not> closes fd (Recv f n)" "\<not> closes fd (Writev f d)"
  "\<not> closes fd (EpollCtlDel p f)" "\<not> closes fd (EpollCtlAdd p f m)" "\<not> closes fd (FcntlGetFl f)"
  "\<not> closes fd (FcntlSetFl f v)" "\<not> closes fd (Accept f)" "\<not> closes fd (Send f e)"
  "\<not> closes fd (EpollWait f n)"
  by (auto simp: closes_def)

text \<open>A descriptor that \<open>accept\<close> returns is not negative (accept(2)).\<close>

definition accept_valid :: "kernel \<Rightarrow> bool" where
  "accept_valid k \<longleftrightarrow> (\<forall>h fd p a. k_accept k h fd = Accepted p a \<longrightarrow> 0 \<le> p)"

section \<open>Scripted kernels\<close>

text \<open>
  Concrete kernels, at which a statement with a hypothesis about the kernel is applied:
  every call fails; or the batches of a script arrive on any valid descriptor, one with each
  \<open>recv\<close> (no longer than asked for), and then there is no more data.
\<close>

definition idle_kernel :: kernel where
  "idle_kernel =
     \<lparr>k_recv = (\<lambda>h fd n. RecvErr (if fd = -1 then EBADF else EAGAIN)),
      k_accept = (\<lambda>h fd. AcceptErr EAGAIN), k_epoll_create = (\<lambda>h. -1),
      k_epoll_wait = (\<lambda>h fd n. EpollErr EINTR), k_getfl = (\<lambda>h fd. 0),
      k_socketpair = (\<lambda>h. None), k_sigaction = (\<lambda>h s. 0), k_fork = (\<lambda>h. -1),
      k_getpid = (\<lambda>h. 1), k_socket = (\<lambda>h. -1), k_bind = (\<lambda>h fd. -1),
      k_listen = (\<lambda>h fd. -1), k_close = (\<lambda>h fd. 0),
      k_poll = (\<lambda>h fds. (Some EBADF, \<lambda>i. 0)), k_time = (\<lambda>h. 0), k_new = (\<lambda>h. length h),
      k_sigterm = (\<lambda>h. False), k_pipe = (\<lambda>h. None), k_splice_in = (\<lambda>h fd n. RecvErr EBADF),
      k_splice_out = (\<lambda>h fd n. -1), k_open = (\<lambda>h f. -1), k_fstat = (\<lambda>h fd. None),
      k_sendfile = (\<lambda>h fd n. -1), k_setsid = (\<lambda>h. -1)\<rparr>"

definition is_recv :: "syscall \<Rightarrow> bool" where
  "is_recv c = (case c of Recv _ _ \<Rightarrow> True | _ \<Rightarrow> False)"

definition is_accept :: "syscall \<Rightarrow> bool" where
  "is_accept c = (case c of Accept _ \<Rightarrow> True | _ \<Rightarrow> False)"

definition recv_script :: "char list list \<Rightarrow> kernel" where
  "recv_script ds = idle_kernel\<lparr>k_recv := (\<lambda>h fd n.
     let i = length (filter is_recv h) in
     if fd = -1 then RecvErr EBADF
     else if i < length ds then RecvData (take n (ds ! i)) else RecvErr EAGAIN)\<rparr>"

definition a_peer :: sockaddr_in where
  "a_peer = \<lparr>sin_addr = 1, sin_port = 80\<rparr>"

lemma recv_script_bounded: "recv_bounded (recv_script ds)"
  by (simp add: recv_bounded_def recv_script_def Let_def)

lemma recv_script_minus1: "recv_rejects_minus1 (recv_script ds)"
  by (simp add: recv_rejects_minus1_def recv_script_def)

lemma recv_script_recv:
  "fd \<noteq> -1 \<Longrightarrow> k_recv (recv_script ds) h fd n =
     (let i = length (filter is_recv h) in
      if i < length ds then RecvData (take n (ds ! i)) else RecvErr EAGAIN)"
  by (simp add: recv_script_def)

lemma is_recv_simps [simp]: "is_recv (Recv fd n)" "\<not> is_recv (Send fd d)" "\<not> is_recv (Close fd)"
  by (simp_all add: is_recv_def)

end
