(* ===== verification/LineScan.thy ===== *)
theory LineScan
  imports ReqStatMach
begin

text \<open>
  The specification of the line scanner on plain byte lists, and the exact behaviour of
  \<open>check_one_line\<close> in its terms: which bytes it overwrites, where it leaves the checked index
  and what it returns, for every buffer content.
\<close>

section \<open>Scanning a byte list for the end of a line\<close>

datatype scan_out =
    Found nat   \<comment> \<open>the first line ends with the CR LF at this offset\<close>
  | Open        \<comment> \<open>no line end, and the bytes do not stop after a CR\<close>
  | Wait nat    \<comment> \<open>no line end, but the last byte, at this offset, is a CR\<close>
  | Bad nat     \<comment> \<open>a LF at this offset has no CR before it\<close>

primrec shift :: "nat \<Rightarrow> scan_out \<Rightarrow> scan_out" where
  "shift k (Found n) = Found (k + n)"
| "shift k Open = Open"
| "shift k (Wait n) = Wait (k + n)"
| "shift k (Bad n) = Bad (k + n)"

fun scan :: "char list \<Rightarrow> scan_out" where
  "scan [] = Open"
| "scan [c] = (if c = CR then Wait 0 else if c = LF then Bad 0 else Open)"
| "scan (c # d # cs) =
     (if c = CR then if d = LF then Found 0 else shift 1 (scan (d # cs))
      else if c = LF then Bad 0 else shift 1 (scan (d # cs)))"

lemma shift_0 [simp]: "shift 0 r = r"
  by (cases r) auto

lemma shift_shift [simp]: "shift i (shift j r) = shift (i + j) r"
  by (cases r) auto

lemma shift_eq_simps:
  "shift k r = Found n \<longleftrightarrow> (\<exists>m. r = Found m \<and> n = k + m)"
  "shift k r = Open \<longleftrightarrow> r = Open"
  "shift k r = Wait n \<longleftrightarrow> (\<exists>m. r = Wait m \<and> n = k + m)"
  "shift k r = Bad n \<longleftrightarrow> (\<exists>m. r = Bad m \<and> n = k + m)"
  by (cases r; auto)+

lemma scan_other: "c \<noteq> CR \<Longrightarrow> c \<noteq> LF \<Longrightarrow> scan (c # cs) = shift 1 (scan cs)"
  by (cases cs) auto

lemma scan_FoundD:
  "scan u = Found n \<Longrightarrow>
     Suc n < length u \<and> u ! n = CR \<and> u ! Suc n = LF \<and> LF \<notin> set (take n u)"
  by (induction u arbitrary: n rule: scan.induct)
     (auto simp: shift_eq_simps split: if_splits)

lemma scan_WaitD:
  "scan u = Wait n \<Longrightarrow> Suc n = length u \<and> u ! n = CR \<and> LF \<notin> set u"
  by (induction u arbitrary: n rule: scan.induct)
     (auto simp: shift_eq_simps split: if_splits)

lemma scan_BadD:
  "scan u = Bad n \<Longrightarrow>
     n < length u \<and> u ! n = LF \<and> LF \<notin> set (take n u) \<and> (0 < n \<longrightarrow> u ! (n - 1) \<noteq> CR)"
  by (induction u arbitrary: n rule: scan.induct)
     (auto simp: shift_eq_simps nth_Cons' split: if_splits)

lemma scan_OpenD: "scan u = Open \<Longrightarrow> LF \<notin> set u \<and> (u \<noteq> [] \<longrightarrow> last u \<noteq> CR)"
  by (induction u rule: scan.induct) (auto simp: shift_eq_simps split: if_splits)

text \<open>The scan of a whole line, of an unfinished line, and the skipping of a clean prefix.\<close>

lemma scan_skip:
  assumes "LF \<notin> set w" and "w \<noteq> [] \<Longrightarrow> last w = CR \<Longrightarrow> v \<noteq> [] \<and> hd v \<noteq> LF"
  shows "scan (w @ v) = shift (length w) (scan v)"
  using assms
proof (induction w)
  case (Cons c w)
  have IH: "scan (w @ v) = shift (length w) (scan v)"
    using Cons.prems by (intro Cons.IH) (auto split: if_splits)
  show ?case
  proof (cases "w @ v")
    case Nil
    then show ?thesis using Cons.prems by auto
  next
    case (Cons d ds)
    then have "c = CR \<longrightarrow> d \<noteq> LF"
      using Cons.prems by (cases w) auto
    then show ?thesis using Cons IH Cons.prems(1) by auto
  qed
qed simp

lemma scan_line: "CR \<notin> set w \<Longrightarrow> LF \<notin> set w \<Longrightarrow> scan (w @ CRLF @ v) = Found (length w)"
  by (subst scan_skip) (auto dest: last_in_set)

lemma scan_no_line:
  assumes "CR \<notin> set w" "LF \<notin> set w"
  shows "scan w = Open"
proof -
  have "last w \<noteq> CR" if "w \<noteq> []"
    using last_in_set [OF that] assms(1) by metis
  then show ?thesis using scan_skip [of w "[]"] assms(2) by auto
qed

text \<open>A decided scan does not change when more bytes arrive.\<close>

lemma scan_append_Found: "scan u = Found n \<Longrightarrow> scan (u @ v) = Found n"
  by (induction u arbitrary: n rule: scan.induct)
     (auto simp: shift_eq_simps split: if_splits)

lemma scan_append_Bad: "scan u = Bad n \<Longrightarrow> scan (u @ v) = Bad n"
proof (induction u arbitrary: n rule: scan.induct)
  case (2 c)
  then show ?case by (cases v) (auto split: if_splits)
qed (auto simp: shift_eq_simps split: if_splits)

section \<open>What \<open>check_one_line\<close> does\<close>

definition line_ended :: "nat \<Rightarrow> req_stat_mach \<Rightarrow> req_stat_mach" where
  "line_ended i s = s\<lparr>recvbuf := (recvbuf s)[i := NUL, Suc i := NUL], m_checked_idx := i + 2\<rparr>"

definition scanned :: "nat \<Rightarrow> scan_out \<Rightarrow> req_stat_mach \<Rightarrow> (line_stat \<times> req_stat_mach) res" where
  "scanned ci r s =
     (case r of
        Found n \<Rightarrow> Inr (LINE_STAT_OK, line_ended (ci + n) s)
      | Open \<Rightarrow> Inr (LINE_STAT_OPEN, s\<lparr>m_checked_idx := m_read_idx s\<rparr>)
      | Wait n \<Rightarrow> Inr (LINE_STAT_WAITING_N, s\<lparr>m_checked_idx := ci + n\<rparr>)
      | Bad n \<Rightarrow>
          if m_lastline_stat s \<noteq> LINE_STAT_WAITING_N
          then Inr (LINE_STAT_BAD, s\<lparr>m_checked_idx := ci + n\<rparr>)
          else if ci + n = 0 then Inl OutOfBounds
          else Inr (LINE_STAT_OK, line_ended (ci + n - 1) s))"

lemma scanned_step:
  "scanned (Suc ci) r (s\<lparr>m_checked_idx := Suc ci\<rparr>) = scanned ci (shift (Suc 0) r) s"
  by (cases r) (auto simp: scanned_def line_ended_def)

lemma check_one_line_scan:
  assumes "m_checked_idx s \<le> m_read_idx s" "m_read_idx s \<le> length (recvbuf s)"
  shows "check_one_line s =
    scanned (m_checked_idx s) (scan (segment (m_checked_idx s) (m_read_idx s) (recvbuf s))) s"
  using assms
proof (induction s rule: check_one_line.induct)
  case (1 s)
  define ci ri buf where d: "ci = m_checked_idx s" "ri = m_read_idx s" "buf = recvbuf s"
  note b = "1.prems" [folded d]
  show ?case
  proof (cases "ci < ri")
    case False
    then show ?thesis using b
      by (subst check_one_line.simps) (simp add: d scanned_def)
  next
    case True
    then have u: "segment ci ri buf = buf ! ci # segment (Suc ci) ri buf"
      using b by (simp add: segment_Cons)
    let ?s = "s\<lparr>m_checked_idx := Suc ci\<rparr>"
    have step: "check_one_line ?s = scanned ci (shift 1 (scan (segment (Suc ci) ri buf))) s"
      if "buf ! ci = CR \<Longrightarrow> Suc ci \<noteq> ri \<and> buf ! Suc ci \<noteq> LF" "buf ! ci \<noteq> LF"
    proof (cases "buf ! ci = CR")
      case True
      then show ?thesis
        using "1.IH"(1) [OF refl refl refl] that \<open>ci < ri\<close> b
        by (simp add: d scanned_step)
    next
      case False
      then show ?thesis
        using "1.IH"(2) [OF refl refl refl] that \<open>ci < ri\<close> b
        by (simp add: d scanned_step)
    qed
    show ?thesis
    proof (cases "Suc ci = ri")
      case last: True
      then have "segment ci ri buf = [buf ! ci]" using u by simp
      then show ?thesis using last b True step
        by (subst check_one_line.simps)
           (auto simp: d [symmetric] scanned_def Let_def line_ended_def)
    next
      case False
      then have "segment ci ri buf = buf ! ci # buf ! Suc ci # segment (Suc (Suc ci)) ri buf"
        using u True b segment_Cons [of "Suc ci" ri buf] by simp
      then show ?thesis using False b True step segment_Cons [of "Suc ci" ri buf]
        by (subst check_one_line.simps)
           (auto simp: d [symmetric] scanned_def Let_def line_ended_def)
    qed
  qed
qed

end
