(* ===== verification/BatchSpec.thy ===== *)
theory BatchSpec
  imports LineScan
begin

text \<open>
  What a batch of received bytes means: \<open>spec_batch\<close> cuts the pending bytes into lines and
  hands them to the request-line and header parsers, on plain lists, with no buffer and no
  index. \<open>parse_batch\<close> is shown to be a functional refinement of it, and to keep the
  invariant of the parser's indices.
\<close>

section \<open>The specification\<close>

datatype line_out = Line string "char list" | NoLine line_stat

text \<open>
  The first line of the pending bytes. The argument is the status the previous batch ended
  with: after LINE_STAT_WAITING_N a lone LF is taken for a line end, and the byte before it
  is lost.
\<close>

definition first_line :: "line_stat \<Rightarrow> char list \<Rightarrow> line_out" where
  "first_line ls p =
     (case scan p of
        Found n \<Rightarrow> Line (cstr (take n p)) (drop (n + 2) p)
      | Open \<Rightarrow> NoLine LINE_STAT_OPEN
      | Wait n \<Rightarrow> NoLine LINE_STAT_WAITING_N
      | Bad n \<Rightarrow>
          if ls = LINE_STAT_WAITING_N \<and> 0 < n
          then Line (cstr (take (n - 1) p)) (drop (n + 1) p)
          else NoLine LINE_STAT_BAD)"

definition line_result :: "check_stat \<Rightarrow> string \<Rightarrow> (result_code \<times> check_stat) res" where
  "line_result cs line =
     (case cs of
        CHECK_STAT_REQLINE \<Rightarrow>
          rbind (parse_requesturi line) (\<lambda>r.
            Inr (r, if r = RES_NO_REQUEST then CHECK_STAT_HEADER else CHECK_STAT_REQLINE))
      | CHECK_STAT_HEADER \<Rightarrow> Inr (parse_headers (Some line), CHECK_STAT_HEADER)
      | CHECK_STAT_ENTITY \<Rightarrow> Inl AssertFail)"

lemma first_line_shorter: "first_line ls p = Line l rest \<Longrightarrow> length rest < length p"
  by (auto simp: first_line_def split: scan_out.splits if_splits
           dest!: scan_FoundD scan_BadD)

type_synonym view = "result_code \<times> line_stat \<times> check_stat \<times> char list"

function spec_batch :: "line_stat \<Rightarrow> check_stat \<Rightarrow> char list \<Rightarrow> view res" where
  "spec_batch ls cs p =
     (case first_line ls p of
        Line line rest \<Rightarrow>
          (case line_result cs line of
             Inl f \<Rightarrow> Inl f
           | Inr (res, cs') \<Rightarrow>
               if res = RES_NO_REQUEST then spec_batch LINE_STAT_OK cs' rest
               else Inr (res, LINE_STAT_OK, cs', rest))
      | NoLine st \<Rightarrow>
          Inr (if st = LINE_STAT_BAD then RES_BAD_REQUEST else RES_NO_REQUEST, st, cs, p))"
  by pat_completeness auto
termination
  by (relation "measure (\<lambda>(ls, cs, p). length p)") (auto dest: first_line_shorter)

declare spec_batch.simps [simp del]

section \<open>The invariant of the parser\<close>

text \<open>
  Between two operations: the buffer has its size; line start, checked and read index are
  ordered; the bytes already checked hold no line end; and after LINE_STAT_WAITING_N the
  checked index points at the CR that ended the batch.
\<close>

definition pending_bytes :: "req_stat_mach \<Rightarrow> char list" where
  "pending_bytes s = segment (m_linest_idx s) (m_read_idx s) (recvbuf s)"

definition checked_bytes :: "req_stat_mach \<Rightarrow> char list" where
  "checked_bytes s = segment (m_linest_idx s) (m_checked_idx s) (recvbuf s)"

definition unchecked_bytes :: "req_stat_mach \<Rightarrow> char list" where
  "unchecked_bytes s = segment (m_checked_idx s) (m_read_idx s) (recvbuf s)"

definition idx_ok :: "req_stat_mach \<Rightarrow> bool" where
  "idx_ok s \<longleftrightarrow> length (recvbuf s) = k_recvbuf_size \<and> m_linest_idx s \<le> m_checked_idx s \<and>
     m_checked_idx s \<le> m_read_idx s \<and> m_read_idx s \<le> k_recvbuf_size"

definition rsm_inv :: "req_stat_mach \<Rightarrow> bool" where
  "rsm_inv s \<longleftrightarrow> idx_ok s \<and> m_check_stat s \<noteq> CHECK_STAT_ENTITY \<and> LF \<notin> set (checked_bytes s) \<and>
     (checked_bytes s \<noteq> [] \<and> last (checked_bytes s) = CR \<longrightarrow> unchecked_bytes s \<noteq> [] \<and> hd (unchecked_bytes s) \<noteq> LF) \<and>
     (m_lastline_stat s = LINE_STAT_WAITING_N \<longrightarrow> unchecked_bytes s \<noteq> [] \<and> hd (unchecked_bytes s) = CR)"

definition batch_view :: "req_stat_mach \<Rightarrow> view" where
  "batch_view s = (m_result s, m_lastline_stat s, m_check_stat s, pending_bytes s)"

lemma pending_split: "idx_ok s \<Longrightarrow> pending_bytes s = checked_bytes s @ unchecked_bytes s"
  unfolding pending_bytes_def checked_bytes_def unchecked_bytes_def idx_ok_def
  by (intro segment_append) auto

lemma length_checked_bytes: "idx_ok s \<Longrightarrow> length (checked_bytes s) = m_checked_idx s - m_linest_idx s"
  by (auto simp: checked_bytes_def idx_ok_def buffer_simps)

lemma length_unchecked_bytes: "idx_ok s \<Longrightarrow> length (unchecked_bytes s) = m_read_idx s - m_checked_idx s"
  by (auto simp: unchecked_bytes_def idx_ok_def buffer_simps)

lemma rsm_inv_scan:
  "rsm_inv s \<Longrightarrow> scan (pending_bytes s) = shift (length (checked_bytes s)) (scan (unchecked_bytes s))"
  by (auto simp: rsm_inv_def pending_split intro!: scan_skip)

lemma check_one_line_unchecked:
  "idx_ok s \<Longrightarrow> check_one_line s = scanned (m_checked_idx s) (scan (unchecked_bytes s)) s"
  by (auto simp: idx_ok_def unchecked_bytes_def intro: check_one_line_scan)


section \<open>One line of a batch\<close>

lemma line_ended_bytes:
  assumes ok: "idx_ok s" and i: "m_linest_idx s \<le> i" "i + 2 \<le> m_read_idx s"
  shows "cstr_at (recvbuf (line_ended i s)) (m_linest_idx s) =
           Some (cstr (take (i - m_linest_idx s) (pending_bytes s)))"
    and "unchecked_bytes (line_ended i s) = drop (i - m_linest_idx s + 2) (pending_bytes s)"
proof -
  define D m where d: "D = drop (m_linest_idx s) (recvbuf s)" "m = i - m_linest_idx s"
  have len: "m + 2 \<le> length D" using ok i by (auto simp: d idx_ok_def)
  have "drop (m_linest_idx s) (recvbuf (line_ended i s)) = D[m := NUL, Suc m := NUL]"
    using i by (simp add: line_ended_def d drop_update_swap Suc_diff_le)
  also have "\<dots> = take m D @ NUL # NUL # drop (m + 2) D"
    using len by (simp add: upd_conv_take_nth_drop take_Suc_conv_app_nth)
  finally have D: "drop (m_linest_idx s) (recvbuf (line_ended i s)) = \<dots>" .
  have "take m (pending_bytes s) = take m D"
    using i by (auto simp: pending_bytes_def segment_def d min_def)
  with D show "cstr_at (recvbuf (line_ended i s)) (m_linest_idx s) =
      Some (cstr (take (i - m_linest_idx s) (pending_bytes s)))"
    by (simp add: cstr_at_def d)
  show "unchecked_bytes (line_ended i s) = drop (i - m_linest_idx s + 2) (pending_bytes s)"
    using i by (simp add: unchecked_bytes_def pending_bytes_def line_ended_def segment_update
        segment_def drop_take add.commute add.left_commute)
qed

lemma line_ended_fields [simp]:
  "m_linest_idx (line_ended i s) = m_linest_idx s" "m_read_idx (line_ended i s) = m_read_idx s"
  "m_checked_idx (line_ended i s) = i + 2" "length (recvbuf (line_ended i s)) = length (recvbuf s)"
  "m_check_stat (line_ended i s) = m_check_stat s" "m_result (line_ended i s) = m_result s"
  "m_sockfd (line_ended i s) = m_sockfd s" "m_epollfd (line_ended i s) = m_epollfd s"
  "m_addr (line_ended i s) = m_addr s"
  by (simp_all add: line_ended_def)

lemma advance_bytes:
  assumes ok: "idx_ok s" and n: "n \<le> length (unchecked_bytes s)"
  shows "checked_bytes (s\<lparr>m_checked_idx := m_checked_idx s + n, m_lastline_stat := st\<rparr>) =
           checked_bytes s @ take n (unchecked_bytes s)"
    and "unchecked_bytes (s\<lparr>m_checked_idx := m_checked_idx s + n, m_lastline_stat := st\<rparr>) =
           drop n (unchecked_bytes s)"
    and "idx_ok (s\<lparr>m_checked_idx := m_checked_idx s + n, m_lastline_stat := st\<rparr>)"
proof -
  have i: "m_linest_idx s \<le> m_checked_idx s" "m_checked_idx s + n \<le> m_read_idx s"
    "m_read_idx s \<le> length (recvbuf s)"
    using ok n length_unchecked_bytes [OF ok] by (auto simp: idx_ok_def)
  then show "checked_bytes (s\<lparr>m_checked_idx := m_checked_idx s + n, m_lastline_stat := st\<rparr>) =
      checked_bytes s @ take n (unchecked_bytes s)"
    using segment_append [of "m_linest_idx s" "m_checked_idx s" "m_checked_idx s + n" "recvbuf s"]
    by (simp add: checked_bytes_def unchecked_bytes_def segment_def min_def)
  show "unchecked_bytes (s\<lparr>m_checked_idx := m_checked_idx s + n, m_lastline_stat := st\<rparr>) =
      drop n (unchecked_bytes s)"
    by (simp add: unchecked_bytes_def segment_def drop_take add.commute)
  show "idx_ok (s\<lparr>m_checked_idx := m_checked_idx s + n, m_lastline_stat := st\<rparr>)"
    using ok i by (simp add: idx_ok_def)
qed

text \<open>When the scan finds no line, the index moves on and the invariant stays.\<close>

lemma rsm_inv_moved:
  assumes inv: "rsm_inv s"
  shows "scan (unchecked_bytes s) = Open \<Longrightarrow>
      rsm_inv (s\<lparr>m_checked_idx := m_read_idx s, m_lastline_stat := LINE_STAT_OPEN\<rparr>)"
    and "scan (unchecked_bytes s) = Wait n \<Longrightarrow>
      rsm_inv (s\<lparr>m_checked_idx := m_checked_idx s + n, m_lastline_stat := LINE_STAT_WAITING_N\<rparr>)"
    and "scan (unchecked_bytes s) = Bad n \<Longrightarrow>
      rsm_inv (s\<lparr>m_checked_idx := m_checked_idx s + n, m_lastline_stat := LINE_STAT_BAD\<rparr>)"
proof -
  have ok: "idx_ok s" using inv by (simp add: rsm_inv_def)
  note adv = advance_bytes [OF ok]
  note len = length_checked_bytes [OF ok] length_unchecked_bytes [OF ok]
  have ord: "m_linest_idx s \<le> m_checked_idx s" "m_checked_idx s \<le> m_read_idx s"
    using ok by (auto simp: idx_ok_def)
  show "rsm_inv (s\<lparr>m_checked_idx := m_read_idx s, m_lastline_stat := LINE_STAT_OPEN\<rparr>)"
    if "scan (unchecked_bytes s) = Open"
    using scan_OpenD [OF that] adv [OF order_refl, of LINE_STAT_OPEN] inv ord len
    by (cases "unchecked_bytes s = []") (simp_all add: rsm_inv_def)
  show "rsm_inv (s\<lparr>m_checked_idx := m_checked_idx s + n, m_lastline_stat := LINE_STAT_WAITING_N\<rparr>)"
    if "scan (unchecked_bytes s) = Wait n"
    using scan_WaitD [OF that] adv [of n LINE_STAT_WAITING_N] inv
    by (simp add: rsm_inv_def hd_drop_conv_nth) (auto dest: in_set_takeD)
  show "rsm_inv (s\<lparr>m_checked_idx := m_checked_idx s + n, m_lastline_stat := LINE_STAT_BAD\<rparr>)"
    if "scan (unchecked_bytes s) = Bad n"
    using scan_BadD [OF that] adv [of n LINE_STAT_BAD] inv
    by (cases n) (auto simp: rsm_inv_def hd_drop_conv_nth hd_conv_nth last_conv_nth min_def
          dest: in_set_takeD)
qed

lemma check_one_line_first_line:
  assumes inv: "rsm_inv s"
  shows "case first_line (m_lastline_stat s) (pending_bytes s) of
      Line l rest \<Rightarrow> \<exists>i. check_one_line s = Inr (LINE_STAT_OK, line_ended i s) \<and>
        m_linest_idx s \<le> i \<and> i + 2 \<le> m_read_idx s \<and>
        cstr_at (recvbuf (line_ended i s)) (m_linest_idx s) = Some l \<and>
        unchecked_bytes (line_ended i s) = rest
    | NoLine st \<Rightarrow> \<exists>ci. check_one_line s = Inr (st, s\<lparr>m_checked_idx := ci\<rparr>) \<and>
        rsm_inv (s\<lparr>m_checked_idx := ci, m_lastline_stat := st\<rparr>)"
proof -
  have ok: "idx_ok s" using inv by (simp add: rsm_inv_def)
  note len = length_checked_bytes [OF ok] length_unchecked_bytes [OF ok]
  note defs = first_line_def rsm_inv_scan [OF inv] check_one_line_unchecked [OF ok] scanned_def
  have ord: "m_linest_idx s \<le> m_checked_idx s" "m_checked_idx s \<le> m_read_idx s"
    using ok by (auto simp: idx_ok_def)
  show ?thesis
  proof (cases "scan (unchecked_bytes s)")
    case (Found n)
    with scan_FoundD [OF Found] show ?thesis
      using line_ended_bytes [OF ok, of "m_checked_idx s + n"] ord len
      by (auto simp: defs intro!: exI [of _ "m_checked_idx s + n"])
  next
    case Open
    with rsm_inv_moved(1) [OF inv] show ?thesis by (auto simp: defs)
  next
    case (Wait n)
    with rsm_inv_moved(2) [OF inv] show ?thesis by (auto simp: defs)
  next
    case (Bad n)
    note B = scan_BadD [OF Bad]
    show ?thesis
    proof (cases "m_lastline_stat s = LINE_STAT_WAITING_N")
      case True
      then obtain m where m: "n = Suc m" using B inv by (cases n) (auto simp: rsm_inv_def hd_conv_nth)
      then show ?thesis
        using B Bad True line_ended_bytes [OF ok, of "m_checked_idx s + m"] ord len
        by (auto simp: defs intro!: exI [of _ "m_checked_idx s + m"])
    next
      case False
      with Bad rsm_inv_moved(3) [OF inv] show ?thesis by (auto simp: defs)
    qed
  qed
qed

section \<open>\<open>parse_batch\<close> refines the specification\<close>

text \<open>After a line: the parsers see the same line, and the invariant holds again.\<close>

lemma parse_line_result:
  "map_res (\<lambda>t. (m_result t, m_check_stat t)) (parse_line l s) = line_result (m_check_stat s) l"
  by (auto simp: parse_line.simps line_result_def Let_def split: check_stat.splits rbind_split)

lemma next_line_inv:
  assumes inv: "rsm_inv s" and i: "m_linest_idx s \<le> i" "i + 2 \<le> m_read_idx s"
    and t: "parse_line l ((line_ended i s)\<lparr>m_lastline_stat := LINE_STAT_OK,
                                             m_linest_idx := i + 2\<rparr>) = Inr t"
  shows "rsm_inv t" and "pending_bytes t = unchecked_bytes (line_ended i s)"
    and "m_lastline_stat t = LINE_STAT_OK"
proof -
  note fr = parse_line_frame [OF t]
  have cs: "m_check_stat t \<noteq> CHECK_STAT_ENTITY"
    using t inv by (auto simp: parse_line.simps rsm_inv_def rbind_eq_Inr_iff Let_def
        split: check_stat.splits if_splits)
  have "idx_ok t" using inv i fr by (auto simp: rsm_inv_def idx_ok_def)
  moreover have "checked_bytes t = []" using fr by (simp add: checked_bytes_def)
  ultimately show "rsm_inv t" using cs fr by (simp add: rsm_inv_def)
  show "pending_bytes t = unchecked_bytes (line_ended i s)"
    using fr by (simp add: pending_bytes_def unchecked_bytes_def)
  show "m_lastline_stat t = LINE_STAT_OK" using fr by simp
qed

text \<open>One round of the loop, from the invariant: the line taken, or the way the loop ends.\<close>

lemma parse_batch_round:
  assumes inv: "rsm_inv s"
  shows "case first_line (m_lastline_stat s) (pending_bytes s) of
      Line l rest \<Rightarrow> \<exists>s'. parse_batch s =
          (case parse_line l s' of
             Inl f \<Rightarrow> Inl f
           | Inr t \<Rightarrow> if m_result t = RES_NO_REQUEST then parse_batch t else Inr t) \<and>
        m_check_stat s' = m_check_stat s \<and>
        (\<forall>t. parse_line l s' = Inr t \<longrightarrow>
           rsm_inv t \<and> pending_bytes t = rest \<and> m_lastline_stat t = LINE_STAT_OK)
    | NoLine st \<Rightarrow> \<exists>t. parse_batch s = Inr t \<and> rsm_inv t \<and> pending_bytes t = pending_bytes s \<and>
        m_lastline_stat t = st \<and> m_check_stat t = m_check_stat s \<and>
        m_result t = (if st = LINE_STAT_BAD then RES_BAD_REQUEST else m_result s)"
proof (cases "first_line (m_lastline_stat s) (pending_bytes s)")
  case (Line l rest)
  with check_one_line_first_line [OF inv] obtain i where
    c: "check_one_line s = Inr (LINE_STAT_OK, line_ended i s)"
      "m_linest_idx s \<le> i" "i + 2 \<le> m_read_idx s"
      "cstr_at (recvbuf (line_ended i s)) (m_linest_idx s) = Some l"
      "unchecked_bytes (line_ended i s) = rest" by auto
  let ?s = "(line_ended i s)\<lparr>m_lastline_stat := LINE_STAT_OK, m_linest_idx := i + 2\<rparr>"
  have "parse_batch s = (case parse_line l ?s of
             Inl f \<Rightarrow> Inl f
           | Inr t \<Rightarrow> if m_result t = RES_NO_REQUEST then parse_batch t else Inr t)"
    using c by (subst parse_batch.simps) (simp add: Let_def)
  with Line c next_line_inv [OF inv c(2,3)] show ?thesis
    by (auto intro!: exI [of _ ?s])
next
  case (NoLine st)
  with check_one_line_first_line [OF inv] obtain ci where
    c: "check_one_line s = Inr (st, s\<lparr>m_checked_idx := ci\<rparr>)"
       "rsm_inv (s\<lparr>m_checked_idx := ci, m_lastline_stat := st\<rparr>)" by auto
  have "st \<noteq> LINE_STAT_OK"
    using NoLine by (auto simp: first_line_def split: scan_out.splits if_splits)
  then show ?thesis using NoLine c
    by (subst parse_batch.simps)
       (cases st; auto simp: rsm_inv_def idx_ok_def pending_bytes_def checked_bytes_def
          unchecked_bytes_def)
qed

lemma parse_batch_spec:
  assumes "rsm_inv s" "m_result s = RES_NO_REQUEST"
  shows "map_res batch_view (parse_batch s) =
           spec_batch (m_lastline_stat s) (m_check_stat s) (pending_bytes s)"
  using assms
proof (induction "m_lastline_stat s" "m_check_stat s" "pending_bytes s" arbitrary: s
       rule: spec_batch.induct)
  case 1
  note IH = "1.hyps" and inv = "1.prems"(1) and res = "1.prems"(2)
  note round = parse_batch_round [OF inv]
  show ?case
  proof (cases "first_line (m_lastline_stat s) (pending_bytes s)")
    case (NoLine st)
    with round res show ?thesis
      by (subst spec_batch.simps) (auto simp: batch_view_def)
  next
    case (Line l rest)
    with round obtain s' where
      pb: "parse_batch s = (case parse_line l s' of Inl f \<Rightarrow> Inl f
             | Inr t \<Rightarrow> if m_result t = RES_NO_REQUEST then parse_batch t else Inr t)"
      and cs: "m_check_stat s' = m_check_stat s"
      and t: "\<And>t. parse_line l s' = Inr t \<Longrightarrow>
           rsm_inv t \<and> pending_bytes t = rest \<and> m_lastline_stat t = LINE_STAT_OK"
      by auto
    show ?thesis
    proof (cases "parse_line l s'")
      case (Inl f)
      then have "line_result (m_check_stat s) l = Inl f"
        using cs parse_line_result [of l s'] by simp
      then show ?thesis using Line pb Inl
        by (subst spec_batch.simps) simp
    next
      case (Inr t')
      then have lr: "line_result (m_check_stat s) l = Inr (m_result t', m_check_stat t')"
        using cs parse_line_result [of l s'] by simp
      show ?thesis
      proof (cases "m_result t' = RES_NO_REQUEST")
        case True
        have "map_res batch_view (parse_batch t') =
            spec_batch (m_lastline_stat t') (m_check_stat t') (pending_bytes t')"
          by (rule IH) (use Line lr True t [OF Inr] in auto)
        then have "map_res batch_view (parse_batch t') = spec_batch LINE_STAT_OK (m_check_stat t') rest"
          using t [OF Inr] by simp
        then show ?thesis using Line pb Inr lr True
          by (subst spec_batch.simps) simp
      next
        case False
        then show ?thesis using Line pb Inr lr t [OF Inr]
          by (subst spec_batch.simps) (simp add: batch_view_def)
      qed
    qed
  qed
qed

lemma parse_batch_inv:
  assumes "rsm_inv s" "parse_batch s = Inr t"
  shows "rsm_inv t"
  using assms
proof (induction s rule: measure_induct_rule [where f = "\<lambda>s. length (pending_bytes s)"])
  case (less s)
  note round = parse_batch_round [OF less.prems(1)]
  show ?case
  proof (cases "first_line (m_lastline_stat s) (pending_bytes s)")
    case (NoLine st)
    with round less.prems(2) show ?thesis by auto
  next
    case (Line l rest)
    with round obtain s' where
      pb: "parse_batch s = (case parse_line l s' of Inl f \<Rightarrow> Inl f
             | Inr t \<Rightarrow> if m_result t = RES_NO_REQUEST then parse_batch t else Inr t)"
      and t: "\<And>t. parse_line l s' = Inr t \<Longrightarrow> rsm_inv t \<and> pending_bytes t = rest"
      by auto
    with less.prems(2) obtain t' where t': "parse_line l s' = Inr t'"
      by (auto split: sum.splits)
    with pb less t [OF t'] first_line_shorter [OF Line] show ?thesis
      by (auto split: if_splits)
  qed
qed

text \<open>
  The fields no batch writes, the read index, which only \<open>recv\<close> moves, and the part of the
  buffer that is not yet filled.
\<close>

lemma check_one_line_frame:
  "check_one_line s = Inr (st, t) \<Longrightarrow>
     m_read_idx t = m_read_idx s \<and> m_linest_idx t = m_linest_idx s \<and>
     m_sockfd t = m_sockfd s \<and> m_epollfd t = m_epollfd s \<and> m_addr t = m_addr s \<and>
     drop (m_read_idx s) (recvbuf t) = drop (m_read_idx s) (recvbuf s)"
proof (induction s rule: check_one_line.induct)
  case (1 s)
  show ?case
    using "1.prems" "1.IH"
    by (subst (asm) check_one_line.simps)
       (fastforce simp: Let_def split: if_splits)
qed

lemma parse_batch_fault: "check_one_line s = Inl f \<Longrightarrow> parse_batch s = Inl f"
  by (subst parse_batch.simps) simp

lemma parse_batch_end:
  "check_one_line s = Inr (st, s1) \<Longrightarrow> st \<noteq> LINE_STAT_OK \<Longrightarrow>
     parse_batch s = Inr (if st = LINE_STAT_BAD
       then s1\<lparr>m_lastline_stat := st, m_result := RES_BAD_REQUEST\<rparr>
       else s1\<lparr>m_lastline_stat := st\<rparr>)"
  by (subst parse_batch.simps) (simp add: Let_def split: line_stat.split)

lemma parse_batch_line:
  "check_one_line s = Inr (LINE_STAT_OK, s1) \<Longrightarrow>
     parse_batch s =
       (case cstr_at (recvbuf s1) (m_linest_idx s1) of
          None \<Rightarrow> Inl Unterminated
        | Some l \<Rightarrow>
            (case parse_line l (s1\<lparr>m_lastline_stat := LINE_STAT_OK,
                                    m_linest_idx := m_checked_idx s1\<rparr>) of
               Inl f \<Rightarrow> Inl f
             | Inr t \<Rightarrow> if m_result t = RES_NO_REQUEST then parse_batch t else Inr t))"
  by (subst parse_batch.simps) (simp add: Let_def split: option.split)

lemma parse_batch_frame:
  "parse_batch s = Inr t \<Longrightarrow>
     m_read_idx t = m_read_idx s \<and> m_sockfd t = m_sockfd s \<and>
     m_epollfd t = m_epollfd s \<and> m_addr t = m_addr s \<and>
     drop (m_read_idx s) (recvbuf t) = drop (m_read_idx s) (recvbuf s)"
proof (induction s rule: parse_batch.induct)
  case (1 s)
  obtain st s1 where c: "check_one_line s = Inr (st, s1)"
    using "1.prems" parse_batch_fault by (cases "check_one_line s") auto
  note s1 = check_one_line_frame [OF c]
  show ?case
  proof (cases "st = LINE_STAT_OK")
    case False
    then show ?thesis using "1.prems" parse_batch_end [OF c] s1 by auto
  next
    case True
    let ?s = "s1\<lparr>m_lastline_stat := LINE_STAT_OK, m_linest_idx := m_checked_idx s1\<rparr>"
    note pb = parse_batch_line [OF c [unfolded True]]
    obtain l where l: "cstr_at (recvbuf s1) (m_linest_idx s1) = Some l"
      using "1.prems" pb by (cases "cstr_at (recvbuf s1) (m_linest_idx s1)") auto
    obtain t' where t': "parse_line l ?s = Inr t'"
      using "1.prems" pb l by (cases "parse_line l ?s") auto
    note fr = parse_line_frame [OF t']
    show ?thesis
    proof (cases "m_result t' = RES_NO_REQUEST")
      case False
      then show ?thesis using "1.prems" pb l t' fr s1 by simp
    next
      case nr: True
      then have "parse_batch t' = Inr t" using "1.prems" pb l t' by simp
      then have "m_read_idx t = m_read_idx t' \<and> m_sockfd t = m_sockfd t' \<and>
          m_epollfd t = m_epollfd t' \<and> m_addr t = m_addr t' \<and>
          drop (m_read_idx t') (recvbuf t) = drop (m_read_idx t') (recvbuf t')"
        by (rule "1.IH" [OF c refl refl True, rotated 3]) (use l t' True nr in simp_all)
      with fr s1 show ?thesis by simp
    qed
  qed
qed

end
