(* ===== verification/RequestLine.thy ===== *)
theory RequestLine
  imports ReqStatMach
begin

text \<open>
  What the request-line parser accepts, refuses and crashes on, stated without pointers:
  \<open>request_line_ok\<close> is the grammar it implements, and \<open>parse_requesturi_cases\<close> says that
  \<open>parse_requesturi\<close> accepts exactly that grammar and faults exactly on a line that is
  the bare word GET.
\<close>

definition blanks :: string where "blanks = [SPACE, TAB]"

text \<open>
  A method that is a (possibly empty) prefix of GET in any case, one blank, a URI of at least
  one character with no blank in it, one blank, and a rest that starts with HTTP/1.1 or
  HTTP/1.0 in any case.
\<close>

definition method_ok :: "string \<Rightarrow> bool" where
  "method_ok m \<longleftrightarrow> length m \<le> 3 \<and> strcasecmp_eq m (take (length m) ''GET'')"

definition version_ok :: "string \<Rightarrow> bool" where
  "version_ok v \<longleftrightarrow>
     strcasecmp_eq (take 8 v) ''HTTP/1.1'' \<or> strcasecmp_eq (take 8 v) ''HTTP/1.0''"

definition request_line_ok :: "string \<Rightarrow> bool" where
  "request_line_ok line \<longleftrightarrow>
     (\<exists>m b u b' v. line = m @ b # u @ b' # v \<and> b \<in> set blanks \<and> b' \<in> set blanks \<and>
        set m \<inter> set blanks = {} \<and> set u \<inter> set blanks = {} \<and>
        method_ok m \<and> u \<noteq> [] \<and> version_ok v)"

lemma to_lower_GET:
  "to_lower CHR ''G'' = CHR ''g''" "to_lower CHR ''E'' = CHR ''e''" "to_lower CHR ''T'' = CHR ''t''"
  "to_lower SPACE = SPACE" "to_lower TAB = TAB"
  by code_simp+

lemma GET_no_blank:
  assumes "strcasecmp_eq line ''GET''"
  shows "set line \<inter> set blanks = {}"
proof -
  have *: "to_lower c \<in> {CHR ''g'', CHR ''e'', CHR ''t''}" if "c \<in> set line" for c
  proof -
    have "to_lower c \<in> set (map to_lower line)" using that by simp
    also have "set (map to_lower line) = {CHR ''g'', CHR ''e'', CHR ''t''}"
      using assms unfolding strcasecmp_eq_def by (simp add: to_lower_GET)
    finally show ?thesis .
  qed
  have "SPACE \<notin> set line" "TAB \<notin> set line"
    using * [of SPACE] * [of TAB] by (auto simp only: to_lower_GET)
  then show ?thesis by (simp add: blanks_def)
qed

lemma strncasecmp_method:
  "strncasecmp_eq (length m) (m @ b # r) ''GET'' \<longleftrightarrow> method_ok m"
proof (cases "length m \<le> 3")
  case True
  then show ?thesis by (simp add: strncasecmp_eq_take method_ok_def strcasecmp_eq_def)
next
  case False
  then have "length (map to_lower m) \<noteq> length (map to_lower (take (length m) ''GET''))"
    by simp
  then have "map to_lower m \<noteq> map to_lower (take (length m) ''GET'')" by metis
  with False show ?thesis by (simp add: strncasecmp_eq_take method_ok_def)
qed

lemma strncasecmp_version:
  "strncasecmp_eq 8 v ''HTTP/1.1'' \<or> strncasecmp_eq 8 v ''HTTP/1.0'' \<longleftrightarrow> version_ok v"
  by (simp add: strncasecmp_eq_take version_ok_def strcasecmp_eq_def)

lemma parse_requesturi_no_blank:
  assumes "set line \<inter> set blanks = {}"
  shows "parse_requesturi line =
           (if strcasecmp_eq line ''GET'' then Inl NullDeref else Inr RES_BAD_REQUEST)"
proof -
  have "strpbrk line [SPACE, TAB] = None"
    using assms by (simp add: strpbrk_None_iff blanks_def)
  then show ?thesis by (simp add: parse_requesturi_def)
qed

lemma parse_requesturi_one_blank:
  assumes "set m \<inter> set blanks = {}" "b \<in> set blanks" "set r \<inter> set blanks = {}"
  shows "parse_requesturi (m @ b # r) = Inr RES_BAD_REQUEST"
proof -
  have "strpbrk (m @ b # r) [SPACE, TAB] = Some (length m)"
    using assms by (intro strpbrk_append) (auto simp: blanks_def)
  moreover have "strpbrk r [SPACE, TAB] = None"
    using assms by (simp add: strpbrk_None_iff blanks_def)
  ultimately show ?thesis by (simp add: parse_requesturi_def Let_def)
qed

lemma parse_requesturi_two_blanks:
  assumes "set m \<inter> set blanks = {}" "b \<in> set blanks" "set u \<inter> set blanks = {}" "b' \<in> set blanks"
  shows "parse_requesturi (m @ b # u @ b' # v) =
           Inr (if method_ok m \<and> u \<noteq> [] \<and> version_ok v then RES_NO_REQUEST else RES_BAD_REQUEST)"
proof -
  have "strpbrk (m @ b # u @ b' # v) [SPACE, TAB] = Some (length m)"
       "strpbrk (u @ b' # v) [SPACE, TAB] = Some (length u)"
    using assms by (intro strpbrk_append; auto simp: blanks_def)+
  then show ?thesis
    using strncasecmp_version [of v] strncasecmp_method [of m b "u @ b' # v"]
    by (auto simp: parse_requesturi_def Let_def)
qed

text \<open>Every line has one of the three shapes of the lemmas above.\<close>

lemma line_shapes:
  obtains (none) "set line \<inter> set blanks = {}"
  | (one) m b r where "line = m @ b # r" "b \<in> set blanks"
      "set m \<inter> set blanks = {}" "set r \<inter> set blanks = {}"
  | (two) m b u b' v where "line = m @ b # u @ b' # v" "b \<in> set blanks" "b' \<in> set blanks"
      "set m \<inter> set blanks = {}" "set u \<inter> set blanks = {}"
proof (cases "strpbrk line blanks")
  case None
  then show thesis by (intro none) (simp add: strpbrk_None_iff)
next
  case (Some n)
  then obtain m b r where m: "line = m @ b # r" "b \<in> set blanks" "set m \<inter> set blanks = {}"
    by (auto elim: strpbrk_Some_split)
  show thesis
  proof (cases "strpbrk r blanks")
    case None
    with m show thesis by (intro one [of m b r]) (auto simp: strpbrk_None_iff)
  next
    case (Some k)
    then obtain u b' v where "r = u @ b' # v" "b' \<in> set blanks" "set u \<inter> set blanks = {}"
      by (auto elim: strpbrk_Some_split)
    with m show thesis by (intro two [of m b u b' v]) auto
  qed
qed

lemma request_line_two_blanks:
  assumes "set m \<inter> set blanks = {}" "b \<in> set blanks" "set u \<inter> set blanks = {}" "b' \<in> set blanks"
  shows "request_line_ok (m @ b # u @ b' # v) \<longleftrightarrow> method_ok m \<and> u \<noteq> [] \<and> version_ok v"
proof
  assume "request_line_ok (m @ b # u @ b' # v)"
  then obtain m1 b1 u1 b1' v1 where e: "m @ b # u @ b' # v = m1 @ b1 # u1 @ b1' # v1"
    and p: "b1 \<in> set blanks" "b1' \<in> set blanks" "set m1 \<inter> set blanks = {}"
      "set u1 \<inter> set blanks = {}" "method_ok m1" "u1 \<noteq> []" "version_ok v1"
    by (auto simp: request_line_ok_def)
  have "strpbrk (m @ b # u @ b' # v) blanks = Some (length m)"
    using assms by (intro strpbrk_append) auto
  moreover have "strpbrk (m1 @ b1 # u1 @ b1' # v1) blanks = Some (length m1)"
    using p by (intro strpbrk_append) auto
  ultimately have m: "m = m1" "u @ b' # v = u1 @ b1' # v1" using e by auto
  have "strpbrk (u @ b' # v) blanks = Some (length u)"
    using assms by (intro strpbrk_append) auto
  moreover have "strpbrk (u1 @ b1' # v1) blanks = Some (length u1)"
    using p by (intro strpbrk_append) auto
  ultimately have "u = u1" "v = v1" using m by auto
  with m p show "method_ok m \<and> u \<noteq> [] \<and> version_ok v" by simp
next
  assume "method_ok m \<and> u \<noteq> [] \<and> version_ok v"
  with assms show "request_line_ok (m @ b # u @ b' # v)"
    unfolding request_line_ok_def
    by (intro exI [of _ m] exI [of _ b] exI [of _ u] exI [of _ b'] exI [of _ v]) simp
qed

lemma request_line_ok_blank: "request_line_ok line \<Longrightarrow> set line \<inter> set blanks \<noteq> {}"
  by (auto simp: request_line_ok_def)

lemma request_line_one_blank:
  assumes "set m \<inter> set blanks = {}" "b \<in> set blanks" "set r \<inter> set blanks = {}"
  shows "\<not> request_line_ok (m @ b # r)"
proof
  assume "request_line_ok (m @ b # r)"
  then obtain m1 b1 u1 b1' v1 where e: "m @ b # r = m1 @ b1 # u1 @ b1' # v1"
    and p: "b1 \<in> set blanks" "b1' \<in> set blanks" "set m1 \<inter> set blanks = {}"
    by (auto simp: request_line_ok_def)
  have "strpbrk (m @ b # r) blanks = Some (length m)"
    using assms by (intro strpbrk_append) auto
  moreover have "strpbrk (m1 @ b1 # u1 @ b1' # v1) blanks = Some (length m1)"
    using p by (intro strpbrk_append) auto
  ultimately have "r = u1 @ b1' # v1" using e by auto
  with p assms show False by auto
qed

section \<open>The parser decides the grammar\<close>

lemma parse_requesturi_cases:
  "parse_requesturi line =
     (if request_line_ok line then Inr RES_NO_REQUEST
      else if strcasecmp_eq line ''GET'' then Inl NullDeref
      else Inr RES_BAD_REQUEST)"
proof (cases rule: line_shapes [of line])
  case none
  then have "\<not> request_line_ok line" using request_line_ok_blank by blast
  with none show ?thesis by (simp add: parse_requesturi_no_blank)
next
  case (one m b r)
  then have "\<not> strcasecmp_eq line ''GET''" using GET_no_blank [of line] by auto
  then show ?thesis
    using one by (simp add: parse_requesturi_one_blank request_line_one_blank)
next
  case (two m b u b' v)
  then have "\<not> strcasecmp_eq line ''GET''" using GET_no_blank [of line] by auto
  then show ?thesis
    using two by (simp add: parse_requesturi_two_blanks request_line_two_blanks)
qed

lemma parse_requesturi_fault: "parse_requesturi line = Inl f \<Longrightarrow> f = NullDeref"
  by (auto simp: parse_requesturi_cases split: if_splits)

end
