(* ===== verification/Chunks.thy ===== *)
theory Chunks
  imports Prelude
begin

text \<open>
  The interface between a receive loop and a parser: the loop hands over what each \<open>recv\<close>
  returned and stops when the parser has a result. Inside the locale it is proved once that
  the way the stream is cut into batches does not matter.
\<close>

text \<open>The receive loop's use of a parser: feed batches until the parser wants no more.\<close>

fun feed_seq :: "('s \<Rightarrow> char list \<Rightarrow> 's res) \<Rightarrow> ('s \<Rightarrow> bool) \<Rightarrow> 's \<Rightarrow> char list list \<Rightarrow> 's res" where
  "feed_seq feed more s [] = Inr s"
| "feed_seq feed more s (d # ds) =
     rbind (feed s d) (\<lambda>t. if more t then feed_seq feed more t ds else Inr t)"

text \<open>
  What the parser promises. \<open>ok s e\<close> says that the bytes \<open>e\<close> may still come after state \<open>s\<close>;
  \<open>more\<close> that it has no result yet; \<open>outcome\<close> is its result.
\<close>

locale batch_parser =
  fixes feed :: "'s \<Rightarrow> char list \<Rightarrow> 's res"
    and more :: "'s \<Rightarrow> bool"
    and outcome :: "'s \<Rightarrow> 'r"
    and ok :: "'s \<Rightarrow> char list \<Rightarrow> bool"
  assumes feed_fault: "ok s (d @ e) \<Longrightarrow> more s \<Longrightarrow> feed s d = Inl f \<Longrightarrow> feed s (d @ e) = Inl f"
    and feed_done: "ok s (d @ e) \<Longrightarrow> more s \<Longrightarrow> feed s d = Inr t \<Longrightarrow> \<not> more t \<Longrightarrow>
          map_res outcome (feed s (d @ e)) = Inr (outcome t)"
    and feed_more: "ok s (d @ e) \<Longrightarrow> more s \<Longrightarrow> feed s d = Inr t \<Longrightarrow> more t \<Longrightarrow>
          map_res outcome (feed s (d @ e)) = map_res outcome (feed t e)"
    and feed_ok: "ok s (d @ e) \<Longrightarrow> more s \<Longrightarrow> feed s d = Inr t \<Longrightarrow> more t \<Longrightarrow> ok t e"
begin

text \<open>Batches fed one by one give the outcome of the whole stream fed at once.\<close>

lemma feed_seq_concat:
  "ok s (concat (d # ds)) \<Longrightarrow> more s \<Longrightarrow>
     map_res outcome (feed_seq feed more s (d # ds)) =
     map_res outcome (feed s (concat (d # ds)))"
proof (induction ds arbitrary: s d)
  case Nil
  then show ?case by (cases "feed s d") auto
next
  case (Cons e ds)
  let ?e = "concat (e # ds)"
  have ok: "ok s (d @ ?e)" using Cons.prems by simp
  show ?case
  proof (cases "feed s d")
    case (Inl f)
    with feed_fault [OF ok Cons.prems(2)] show ?thesis by simp
  next
    case (Inr t)
    show ?thesis
    proof (cases "more t")
      case True
      have "map_res outcome (feed_seq feed more s (d # e # ds)) =
            map_res outcome (feed_seq feed more t (e # ds))"
        using Inr True by simp
      also have "\<dots> = map_res outcome (feed t ?e)"
        by (rule Cons.IH) (use feed_ok [OF ok Cons.prems(2) Inr True] True in auto)
      also have "\<dots> = map_res outcome (feed s (d @ ?e))"
        using feed_more [OF ok Cons.prems(2) Inr True] by simp
      finally show ?thesis by (simp only: concat.simps)
    next
      case False
      with feed_done [OF ok Cons.prems(2) Inr] Inr show ?thesis by simp
    qed
  qed
qed

text \<open>Hence two ways of cutting the same stream give the same outcome.\<close>

lemma feed_seq_cut_irrelevant:
  assumes "ok s (concat (d # ds))" "more s" "concat (d # ds) = concat (e # es)"
  shows "map_res outcome (feed_seq feed more s (d # ds)) =
         map_res outcome (feed_seq feed more s (e # es))"
proof -
  have "ok s (concat (e # es))" using assms(1) unfolding assms(3) .
  from feed_seq_concat [OF assms(1,2)] feed_seq_concat [OF this assms(2)] show ?thesis
    using assms(3) by simp
qed

end

end
