(* ===== verification/StreamParse.thy ===== *)
theory StreamParse
  imports BatchSpec RequestLine Chunks
begin

text \<open>
  The parser over a whole stream: storing a received batch in the buffer, the specification
  of a stream, and the proof that \<open>parse_batch\<close> is a \<open>batch_parser\<close>: how the network cuts a
  request into batches does not change its result, provided no CR stands alone.
\<close>

section \<open>Receiving a batch\<close>

text \<open>
  What \<open>process\<close> does with the bytes of one \<open>recv\<close>: they are in the buffer from the read index
  on, the read index moves behind them, and \<open>parse_batch\<close> runs.
\<close>

definition received :: "req_stat_mach \<Rightarrow> char list \<Rightarrow> req_stat_mach" where
  "received s d = s\<lparr>recvbuf := overwrite (recvbuf s) (m_read_idx s) d,
                    m_read_idx := m_read_idx s + length d\<rparr>"

definition feed :: "req_stat_mach \<Rightarrow> char list \<Rightarrow> req_stat_mach res" where
  "feed s d = parse_batch (received s d)"

definition wants_more :: "req_stat_mach \<Rightarrow> bool" where
  "wants_more s \<longleftrightarrow> m_result s = RES_NO_REQUEST"

definition room :: "req_stat_mach \<Rightarrow> nat" where
  "room s = k_recvbuf_size - m_read_idx s"

lemma received_bytes:
  assumes "rsm_inv s" "length d \<le> room s"
  shows "pending_bytes (received s d) = pending_bytes s @ d"
    and "checked_bytes (received s d) = checked_bytes s"
    and "unchecked_bytes (received s d) = unchecked_bytes s @ d"
    and "idx_ok (received s d)"
proof -
  have i: "m_linest_idx s \<le> m_checked_idx s" "m_checked_idx s \<le> m_read_idx s"
    "m_read_idx s + length d \<le> length (recvbuf s)" "length (recvbuf s) = k_recvbuf_size"
    using assms by (auto simp: rsm_inv_def idx_ok_def room_def)
  let ?b = "overwrite (recvbuf s) (m_read_idx s) d"
  have len: "length ?b = length (recvbuf s)" using i by (simp add: buffer_simps)
  have *: "segment k (m_read_idx s + length d) ?b = segment k (m_read_idx s) (recvbuf s) @ d"
    if "k \<le> m_read_idx s" for k
    using segment_append [of k "m_read_idx s" "m_read_idx s + length d" ?b] that i len
    by (simp add: segment_overwrite)
  show "pending_bytes (received s d) = pending_bytes s @ d"
    using i * [of "m_linest_idx s"] by (simp add: pending_bytes_def received_def)
  show "unchecked_bytes (received s d) = unchecked_bytes s @ d"
    using i * [of "m_checked_idx s"] by (simp add: unchecked_bytes_def received_def)
  show "checked_bytes (received s d) = checked_bytes s"
    using i by (simp add: checked_bytes_def received_def segment_overwrite)
  show "idx_ok (received s d)"
    using i len by (simp add: idx_ok_def received_def)
qed

lemma received_fields [simp]:
  "m_lastline_stat (received s d) = m_lastline_stat s" "m_result (received s d) = m_result s"
  "m_check_stat (received s d) = m_check_stat s" "m_sockfd (received s d) = m_sockfd s"
  "m_epollfd (received s d) = m_epollfd s" "m_addr (received s d) = m_addr s"
  "m_read_idx (received s d) = m_read_idx s + length d"
  by (simp_all add: received_def)

lemma received_inv: "rsm_inv s \<Longrightarrow> length d \<le> room s \<Longrightarrow> rsm_inv (received s d)"
  using received_bytes [of s d] by (auto simp: rsm_inv_def)

lemma feed_inv:
  "rsm_inv s \<Longrightarrow> length d \<le> room s \<Longrightarrow> feed s d = Inr t \<Longrightarrow> rsm_inv t"
  unfolding feed_def by (rule parse_batch_inv [OF received_inv])

lemma feed_spec:
  assumes "rsm_inv s" "length d \<le> room s" "wants_more s"
  shows "map_res batch_view (feed s d) =
           spec_batch (m_lastline_stat s) (m_check_stat s) (pending_bytes s @ d)"
  using parse_batch_spec [OF received_inv [OF assms(1,2)]] assms received_bytes [OF assms(1,2)]
  by (simp add: feed_def wants_more_def)

section \<open>Streams in which every CR belongs to a line end\<close>

text \<open>\<open>bare_cr p\<close>: some CR of \<open>p\<close> is followed by a byte other than LF.\<close>

fun bare_cr :: "char list \<Rightarrow> bool" where
  "bare_cr (c # d # cs) \<longleftrightarrow> (c = CR \<and> d \<noteq> LF) \<or> bare_cr (d # cs)"
| "bare_cr _ \<longleftrightarrow> False"

lemma bare_cr_Cons: "bare_cr cs \<Longrightarrow> bare_cr (c # cs)"
  by (cases cs) auto

lemma bare_cr_append2: "bare_cr v \<Longrightarrow> bare_cr (u @ v)"
  by (induction u) (auto intro: bare_cr_Cons)

lemma bare_cr_drop: "bare_cr (drop n p) \<Longrightarrow> bare_cr p"
  using bare_cr_append2 [of "drop n p" "take n p"] by simp

lemma bare_cr_append1: "bare_cr u \<Longrightarrow> bare_cr (u @ v)"
  by (induction u rule: bare_cr.induct) auto

lemma no_CR_not_bare: "CR \<notin> set p \<Longrightarrow> \<not> bare_cr p"
  by (induction p rule: bare_cr.induct) auto

lemma bare_cr_join:
  "CR \<notin> set u \<Longrightarrow> bare_cr (u @ v) \<longleftrightarrow> bare_cr v"
proof (induction u)
  case (Cons c u)
  then show ?case by (cases "u @ v") auto
qed simp

lemma bare_cr_CRLF: "bare_cr (CR # LF # v) \<longleftrightarrow> bare_cr v"
  by (cases v) auto

text \<open>In such a stream, the batch status does not matter to the next line.\<close>

lemma first_line_waiting:
  assumes "p = w @ CR # u" "LF \<notin> set w" "\<not> bare_cr p"
  shows "first_line LINE_STAT_WAITING_N p = first_line LINE_STAT_OK p"
proof -
  have scan: "scan p = shift (length w) (scan (CR # u))"
    unfolding assms(1) by (rule scan_skip) (use assms(2) in auto)
  have "\<not> bare_cr (CR # u)" using bare_cr_append2 [of "CR # u" w] assms by auto
  then have "\<exists>n. scan p = Found n \<or> scan p = Wait n"
    using scan by (cases u) auto
  then show ?thesis by (auto simp: first_line_def)
qed

lemma spec_batch_waiting:
  assumes "p = w @ CR # u" "LF \<notin> set w" "\<not> bare_cr p"
  shows "spec_batch LINE_STAT_WAITING_N cs p = spec_batch LINE_STAT_OK cs p"
  using first_line_waiting [OF assms] by (subst (1 2) spec_batch.simps) simp

lemma spec_batch_status:
  "ls \<noteq> LINE_STAT_WAITING_N \<Longrightarrow> spec_batch ls cs p = spec_batch LINE_STAT_OK cs p"
proof -
  assume "ls \<noteq> LINE_STAT_WAITING_N"
  then have "first_line ls p = first_line LINE_STAT_OK p"
    by (auto simp: first_line_def split: scan_out.splits)
  then show ?thesis by (subst (1 2) spec_batch.simps) simp
qed


section \<open>The specification of a stream\<close>

text \<open>More bytes behind the pending ones do not undo what was decided.\<close>

lemma first_line_append:
  "first_line LINE_STAT_OK p = Line l rest \<Longrightarrow> first_line LINE_STAT_OK (p @ e) = Line l (rest @ e)"
  "first_line LINE_STAT_OK p = NoLine LINE_STAT_BAD \<Longrightarrow>
     first_line LINE_STAT_OK (p @ e) = NoLine LINE_STAT_BAD"
  by (auto simp: first_line_def scan_append_Found scan_append_Bad
           split: scan_out.splits if_splits dest: scan_FoundD)

lemma first_line_rest: "first_line ls p = Line l rest \<Longrightarrow> \<exists>n. rest = drop n p"
  by (auto simp: first_line_def split: scan_out.splits if_splits)

lemma spec_batch_append:
  "case spec_batch LINE_STAT_OK cs p of
     Inl f \<Rightarrow> spec_batch LINE_STAT_OK cs (p @ e) = Inl f
   | Inr (r, st, cs', rest) \<Rightarrow>
       if r = RES_NO_REQUEST
       then spec_batch LINE_STAT_OK cs (p @ e) = spec_batch LINE_STAT_OK cs' (rest @ e)
       else spec_batch LINE_STAT_OK cs (p @ e) = Inr (r, st, cs', rest @ e)"
proof (induction "LINE_STAT_OK" cs p rule: spec_batch.induct)
  case (1 cs p)
  note unf = spec_batch.simps [of LINE_STAT_OK cs]
  show ?case
  proof (cases "first_line LINE_STAT_OK p")
    case (NoLine st)
    show ?thesis
    proof (cases "st = LINE_STAT_BAD")
      case True
      with NoLine first_line_append(2) [of p e] show ?thesis by (simp add: unf)
    next
      case False
      then show ?thesis using NoLine by (simp add: unf [of p])
    qed
  next
    case (Line l rest)
    note L = Line first_line_append(1) [OF Line, of e]
    show ?thesis
    proof (cases "line_result cs l")
      case (Inl f)
      with L show ?thesis by (simp add: unf)
    next
      case (Inr q)
      obtain r cs' where q: "q = (r, cs')" by (cases q)
      show ?thesis
      proof (cases "r = RES_NO_REQUEST")
        case True
        have p: "spec_batch LINE_STAT_OK cs p = spec_batch LINE_STAT_OK cs' rest"
          using L(1) Inr q True by (simp add: unf [of p])
        have pe: "spec_batch LINE_STAT_OK cs (p @ e) = spec_batch LINE_STAT_OK cs' (rest @ e)"
          using L(2) Inr q True by (simp add: unf [of "p @ e"])
        show ?thesis unfolding p pe by (rule "1" [OF Line Inr q [symmetric] True])
      next
        case False
        with L Inr q show ?thesis by (simp add: unf)
      qed
    qed
  qed
qed

lemma spec_batch_rest:
  "spec_batch ls cs p = Inr (r, st, cs', rest) \<Longrightarrow> \<exists>n. rest = drop n p"
proof (induction ls cs p rule: spec_batch.induct)
  case (1 ls cs p)
  show ?case
  proof (cases "first_line ls p")
    case (NoLine x)
    with "1.prems" show ?thesis by (subst (asm) spec_batch.simps) (auto intro: exI [of _ 0])
  next
    case (Line l rest')
    then obtain n where "rest' = drop n p" using first_line_rest by blast
    moreover have "\<exists>n. rest = drop n rest'"
    proof (cases "line_result cs l")
      case (Inl f)
      with Line "1.prems" show ?thesis by (subst (asm) spec_batch.simps) simp
    next
      case (Inr q)
      with Line "1.prems" "1.IH" [OF Line Inr] show ?thesis
        by (subst (asm) spec_batch.simps) (cases q, auto split: if_splits intro: exI [of _ 0])
    qed
    ultimately show ?thesis by auto
  qed
qed

section \<open>\<open>feed\<close> is a batch parser\<close>

definition feed_ok :: "req_stat_mach \<Rightarrow> char list \<Rightarrow> bool" where
  "feed_ok s e \<longleftrightarrow> rsm_inv s \<and> length e \<le> room s \<and> \<not> bare_cr (pending_bytes s @ e)"

text \<open>Under \<open>feed_ok\<close>, a batch means what the specification says of the pending stream.\<close>

lemma feed_ok_spec:
  assumes ok: "feed_ok s e" and more: "wants_more s"
  shows "map_res batch_view (feed s e) =
         spec_batch LINE_STAT_OK (m_check_stat s) (pending_bytes s @ e)"
proof -
  have inv: "rsm_inv s" and len: "length e \<le> room s" using ok by (auto simp: feed_ok_def)
  have "spec_batch (m_lastline_stat s) (m_check_stat s) (pending_bytes s @ e) =
        spec_batch LINE_STAT_OK (m_check_stat s) (pending_bytes s @ e)"
  proof (cases "m_lastline_stat s = LINE_STAT_WAITING_N")
    case False
    then show ?thesis by (rule spec_batch_status)
  next
    case True
    then obtain u where "unchecked_bytes s = CR # u"
      using inv by (cases "unchecked_bytes s") (auto simp: rsm_inv_def)
    then have p: "pending_bytes s @ e = checked_bytes s @ CR # u @ e"
      using inv pending_split [of s] by (simp add: rsm_inv_def)
    show ?thesis unfolding True
      by (rule spec_batch_waiting [OF p]) (use ok inv in \<open>auto simp: feed_ok_def rsm_inv_def\<close>)
  qed
  then show ?thesis using feed_spec [OF inv len more] by simp
qed

lemma feed_outcome:
  assumes "feed_ok s e" "wants_more s"
  shows "map_res m_result (feed s e) =
         map_res fst (spec_batch LINE_STAT_OK (m_check_stat s) (pending_bytes s @ e))"
  using arg_cong [OF feed_ok_spec [OF assms], of "map_res fst"]
  by (simp add: map_res_map_res batch_view_def)

lemma feed_read_idx: "feed s d = Inr t \<Longrightarrow> m_read_idx t = m_read_idx s + length d"
  using parse_batch_frame [of "received s d" t] by (simp add: feed_def)

lemma feed_ok_prefix: "feed_ok s (d @ e) \<Longrightarrow> feed_ok s d"
  using bare_cr_append1 [of "pending_bytes s @ d" e] by (auto simp: feed_ok_def)

lemma feed_ok_next:
  assumes ok: "feed_ok s (d @ e)" and more: "wants_more s" and t: "feed s d = Inr t"
  shows "feed_ok t e"
proof -
  have inv: "rsm_inv t" by (rule feed_inv [OF _ _ t]) (use ok in \<open>auto simp: feed_ok_def\<close>)
  have len: "length e \<le> room t" using feed_read_idx [OF t] ok by (auto simp: feed_ok_def room_def)
  have "spec_batch LINE_STAT_OK (m_check_stat s) (pending_bytes s @ d) = Inr (batch_view t)"
    using feed_ok_spec [OF feed_ok_prefix [OF ok] more] t by simp
  then obtain n where n: "pending_bytes t = drop n (pending_bytes s @ d)"
    using spec_batch_rest by (fastforce simp: batch_view_def)
  have "pending_bytes t @ e =
      drop (min n (length (pending_bytes s @ d))) (pending_bytes s @ d @ e)"
    unfolding n by (simp add: min_def)
  moreover have "\<not> bare_cr (pending_bytes s @ d @ e)" using ok by (simp add: feed_ok_def)
  ultimately have "\<not> bare_cr (pending_bytes t @ e)" using bare_cr_drop by metis
  with inv len show ?thesis by (simp add: feed_ok_def)
qed

interpretation rsm: batch_parser feed wants_more m_result feed_ok
proof unfold_locales
  fix s d e f
  assume ok: "feed_ok s (d @ e)" and more: "wants_more s" and f: "feed s d = Inl f"
  have "spec_batch LINE_STAT_OK (m_check_stat s) (pending_bytes s @ d) = Inl f"
    using feed_ok_spec [OF feed_ok_prefix [OF ok] more] f by simp
  then show "feed s (d @ e) = Inl f"
    using feed_ok_spec [OF ok more] spec_batch_append [of "m_check_stat s" "pending_bytes s @ d" e]
    by (simp add: map_res_eq_simps)
next
  fix s d e t
  assume ok: "feed_ok s (d @ e)" and more: "wants_more s" and t: "feed s d = Inr t"
  have sp: "spec_batch LINE_STAT_OK (m_check_stat s) (pending_bytes s @ d) = Inr (batch_view t)"
    using feed_ok_spec [OF feed_ok_prefix [OF ok] more] t by simp
  note ap = spec_batch_append [of "m_check_stat s" "pending_bytes s @ d" e]
  show "map_res m_result (feed s (d @ e)) = Inr (m_result t)" if "\<not> wants_more t"
    using feed_outcome [OF ok more] sp ap that by (simp add: batch_view_def wants_more_def)
  show "map_res m_result (feed s (d @ e)) = map_res m_result (feed t e)" if "wants_more t"
    using feed_outcome [OF ok more] feed_outcome [OF feed_ok_next [OF ok more t] that] sp ap that
    by (simp add: batch_view_def wants_more_def)
  show "feed_ok t e" by (rule feed_ok_next [OF ok more t])
qed

end
