(* ===== verification/HttpResponse.thy ===== *)
theory HttpResponse
  imports ReqStatMach
begin

text \<open>
  The response: \<open>respond_http\<close> of \<^verbatim>\<open>src/ReqStatMach.h\<close>. The two local buffers start with no defined
  content, are filled by four calls of \<open>snprintf\<close> and handed to \<open>writev\<close> with the lengths the
  calls returned. An undefined byte is \<open>None\<close>; writing one to the socket is a fault.
\<close>

section \<open>The C library calls used\<close>

text \<open>
  \<open>snprintf\<close> of an already formatted string, at an offset of a buffer: at most \<open>n - 1\<close>
  characters and a NUL are stored; the length of the whole string is returned.
\<close>

definition snprintf ::
  "char option list \<Rightarrow> nat \<Rightarrow> nat \<Rightarrow> string \<Rightarrow> (char option list \<times> nat) res" where
  "snprintf buf off n str =
     (let out = (if n = 0 then [] else take (n - 1) str @ [NUL]) in
      if length buf < off + length out then Inl OutOfBounds
      else Inr (take off buf @ map Some out @ drop (off + length out) buf, length str))"

text \<open>The conversion \<open>%d\<close> of a number that is not negative.\<close>

fun dec_string :: "nat \<Rightarrow> string" where
  "dec_string n =
     (if n < 10 then [char_of (48 + n)]
      else dec_string (n div 10) @ [char_of (48 + n mod 10)])"

declare dec_string.simps [simp del]

text \<open>What \<open>writev\<close> reads from a buffer of an I/O vector.\<close>

definition iov_bytes :: "char option list \<Rightarrow> nat \<Rightarrow> string res" where
  "iov_bytes buf len =
     (if length buf < len then Inl OutOfBounds
      else if None \<in> set (take len buf) then Inl Uninitialised
      else Inr (map the (take len buf)))"

section \<open>\<open>respond_http\<close>\<close>

datatype status = STATUS_OK | STATUS_INTERNAL_ERROR

fun k_status_line :: "status \<Rightarrow> string" where
  "k_status_line STATUS_OK = ''200 OK''"
| "k_status_line STATUS_INTERNAL_ERROR = ''500 Internal server error''"

text \<open>The four \<open>snprintf\<close> calls: the header and the data handed to \<open>writev\<close>.\<close>

definition hello_iov :: "nat \<Rightarrow> nat \<Rightarrow> (string \<times> string) res" where
  "hello_iov headerbuf_size databuf_size =
     (let head_buf = replicate headerbuf_size None; data_buf = replicate databuf_size None in
      rbind (snprintf data_buf 0 databuf_size (''Hello from Tom HTTP Server'' @ [LF]))
        (\<lambda>(data_buf, databuf_used_len).
      rbind (snprintf head_buf 0 headerbuf_size
               (''HTTP/1.1'' @ '' '' @ k_status_line STATUS_OK @ CRLF))
        (\<lambda>(head_buf, headbuf_used_len).
      rbind (snprintf head_buf headbuf_used_len (headerbuf_size - headbuf_used_len)
               (''Content-Length: '' @ dec_string databuf_used_len @ CRLF))
        (\<lambda>(head_buf, ret). let headbuf_used_len = headbuf_used_len + ret in
      rbind (snprintf head_buf headbuf_used_len (headerbuf_size - headbuf_used_len) CRLF)
        (\<lambda>(head_buf, ret). let headbuf_used_len = headbuf_used_len + ret in
      rbind (iov_bytes head_buf headbuf_used_len) (\<lambda>head.
      rbind (iov_bytes data_buf databuf_used_len) (\<lambda>data.
      Inr (head, data))))))))"

definition respond_http :: "req_stat_mach \<Rightarrow> trace \<Rightarrow> trace res" where
  "respond_http s h =
     (let peer_sockfd = m_sockfd s in
      rbind (hello_iov k_headerbuf_size k_databuf_size) (\<lambda>(head, data).
        Inr (h @ [FcntlGetFl peer_sockfd, Writev peer_sockfd [head, data]])))"

section \<open>What is written\<close>

text \<open>A buffer that starts with a written string, and \<open>snprintf\<close> behind it.\<close>

definition holds :: "char option list \<Rightarrow> string \<Rightarrow> bool" where
  "holds buf s \<longleftrightarrow> length s \<le> length buf \<and> take (length s) buf = map Some s"

lemma holds_Nil: "holds buf []"
  by (simp add: holds_def)

lemma snprintf_holds:
  assumes "holds buf s" "length s + length str < length buf"
    and "off = length s" "n = length buf - length s" "m = length str"
  shows "\<exists>buf'. snprintf buf off n str = Inr (buf', m) \<and>
           holds buf' (s @ str) \<and> length buf' = length buf"
proof (intro exI conjI)
  let ?buf = "take (length s) buf @ map Some (str @ [NUL]) @ drop (length s + length str + 1) buf"
  show "snprintf buf off n str = Inr (?buf, m)"
    using assms by (simp add: snprintf_def Let_def)
  show "holds ?buf (s @ str)" using assms by (simp add: holds_def)
  show "length ?buf = length buf" using assms by (simp add: min_def)
qed

lemma iov_bytes_holds: "holds buf s \<Longrightarrow> iov_bytes buf (length s) = Inr s"
  by (auto simp: holds_def iov_bytes_def comp_def)

definition hello_body :: string where
  "hello_body = ''Hello from Tom HTTP Server'' @ [LF]"

definition hello_head :: string where
  "hello_head = ''HTTP/1.1 200 OK'' @ CRLF @
     ''Content-Length: '' @ dec_string (length hello_body) @ CRLF @ CRLF"

lemma dec_string_27: "dec_string 27 = ''27''"
  by (simp add: dec_string.simps) code_simp

lemma length_hello_body: "length hello_body = 27"
  by (simp add: hello_body_def)

lemma length_hello_head: "length hello_head = 39"
  by (simp add: hello_head_def length_hello_body dec_string_27)

lemma hello_iov_eq:
  assumes "39 < hs" "27 < ds"
  shows "hello_iov hs ds = Inr (hello_head, hello_body)"
proof -
  define l1 where "l1 = ''HTTP/1.1'' @ '' '' @ k_status_line STATUS_OK @ CRLF"
  define l2 where "l2 = ''Content-Length: '' @ dec_string 27 @ CRLF"
  have len: "length l1 = 17" "length l2 = 20" by (simp_all add: l1_def l2_def dec_string_27)
  have head: "l1 @ l2 @ CRLF = hello_head"
    by (simp add: l1_def l2_def hello_head_def length_hello_body)
  have "\<exists>db. snprintf (replicate ds None) 0 ds hello_body = Inr (db, 27) \<and>
      holds db ([] @ hello_body) \<and> length db = length (replicate ds (None :: char option))"
    by (rule snprintf_holds [OF holds_Nil]) (use assms in \<open>simp_all add: length_hello_body\<close>)
  then obtain db where db: "snprintf (replicate ds None) 0 ds hello_body = Inr (db, 27)"
      "holds db hello_body" by (metis append_Nil)
  have "\<exists>b1. snprintf (replicate hs None) 0 hs l1 = Inr (b1, 17) \<and>
      holds b1 ([] @ l1) \<and> length b1 = length (replicate hs (None :: char option))"
    by (rule snprintf_holds [OF holds_Nil]) (use assms len in simp_all)
  then obtain b1 where b1: "snprintf (replicate hs None) 0 hs l1 = Inr (b1, 17)"
      "holds b1 l1" "length b1 = hs" by (metis append_Nil length_replicate)
  have "\<exists>b2. snprintf b1 17 (hs - 17) l2 = Inr (b2, 20) \<and> holds b2 (l1 @ l2) \<and> length b2 = length b1"
    by (rule snprintf_holds [OF b1(2)]) (use assms b1(3) len in simp_all)
  then obtain b2 where b2: "snprintf b1 17 (hs - 17) l2 = Inr (b2, 20)" "holds b2 (l1 @ l2)"
      "length b2 = hs" by (metis b1(3))
  have "\<exists>b3. snprintf b2 37 (hs - 37) CRLF = Inr (b3, 2) \<and> holds b3 ((l1 @ l2) @ CRLF) \<and>
      length b3 = length b2"
    by (rule snprintf_holds [OF b2(2)]) (use assms b2(3) len in simp_all)
  then obtain b3 where b3: "snprintf b2 37 (hs - 37) CRLF = Inr (b3, 2)" "holds b3 hello_head"
    by (metis append_assoc head)
  have iov: "iov_bytes b3 39 = Inr hello_head" "iov_bytes db 27 = Inr hello_body"
    using iov_bytes_holds [OF b3(2)] iov_bytes_holds [OF db(2)]
    by (simp_all add: length_hello_head length_hello_body)
  show ?thesis
    unfolding hello_iov_def Let_def l1_def [symmetric] hello_body_def [symmetric]
    using db(1) b1(1) b2(1) b3(1) iov by (simp add: l2_def)
qed

lemma respond_http_trace:
  "respond_http s h =
     Inr (h @ [FcntlGetFl (m_sockfd s), Writev (m_sockfd s) [hello_head, hello_body]])"
  using hello_iov_eq [of k_headerbuf_size k_databuf_size]
  by (simp add: respond_http_def Let_def k_headerbuf_size_def k_databuf_size_def)

end
