(* ===== verification/Processes.thy ===== *)
theory Processes
  imports Posix
begin

text \<open>
  \<^verbatim>\<open>src/Process.h\<close> and \<^verbatim>\<open>src/Process.cc\<close>: the record of one process of the pool, its epoll descriptor
  and signal pipe, the signal handler that turns a signal into a byte on that pipe, and the
  helpers that add a descriptor to epoll and remove it. The asserts of the source enclose the
  calls themselves; they are modelled as compiled with assertions on. The members of the class
  end in an underscore, which Isabelle does not allow in a name: \<open>pid_\<close> is \<open>pr_pid\<close> here.
\<close>

record Process =
  pr_pid :: pid
  pr_listenfd :: fd
  pr_epollfd :: fd
  pr_pool_id :: int
  pr_fa_pipefd :: "(fd \<times> fd) option"   \<comment> \<open>not set by the constructor: \<open>None\<close>; ends kChRfdIdx and kPaWfdIdx\<close>

definition Process_new :: Process where
  "Process_new = \<lparr>pr_pid = -1, pr_listenfd = -1, pr_epollfd = -1, pr_pool_id = -1, pr_fa_pipefd = None\<rparr>"

text \<open>Reading one end of the pipe to or from the parent.\<close>

definition kPaWfd :: "Process \<Rightarrow> fd res" where
  "kPaWfd p = (case pr_fa_pipefd p of None \<Rightarrow> Inl Uninitialised | Some (r, w) \<Rightarrow> Inr w)"

definition kChRfd :: "Process \<Rightarrow> fd res" where
  "kChRfd p = (case pr_fa_pipefd p of None \<Rightarrow> Inl Uninitialised | Some (r, w) \<Rightarrow> Inr r)"

section \<open>Epoll\<close>

definition SetupEpoll :: "kernel \<Rightarrow> Process \<Rightarrow> trace \<Rightarrow> (Process \<times> trace) res" where
  "SetupEpoll k p h =
     (let epollfd = k_epoll_create k h in
      if epollfd = -1 then Inl AssertFail
      else Inr (p\<lparr>pr_epollfd := epollfd\<rparr>, h @ [EpollCreate 5]))"

definition EpollAddFd :: "fd \<Rightarrow> fd \<Rightarrow> trace \<Rightarrow> trace" where
  "EpollAddFd epollfd fd h = h @ [EpollCtlAdd epollfd fd (EPOLLIN OR EPOLLET)]"

definition TestEpollAddFdLT :: "fd \<Rightarrow> fd \<Rightarrow> trace \<Rightarrow> trace" where
  "TestEpollAddFdLT epollfd fd h = h @ [EpollCtlAdd epollfd fd EPOLLIN]"

text \<open>The answers of both calls are only printed.\<close>

definition EpollDelFd :: "fd \<Rightarrow> fd \<Rightarrow> trace \<Rightarrow> trace" where
  "EpollDelFd epollfd fd h = h @ [EpollCtlDel epollfd fd, Close fd]"

section \<open>Signals as I/O\<close>

type_synonym sig_pipe = "fd \<times> fd"   \<comment> \<open>the global \<open>sig_pipefd\<close>: ends kSigRfdIdx and kSigWfdIdx\<close>

text \<open>The handler: the signal number as one byte on the write end.\<close>

definition SioHandler :: "sig_pipe \<Rightarrow> int \<Rightarrow> trace \<Rightarrow> trace" where
  "SioHandler sig_pipefd signum h = h @ [Send (snd sig_pipefd) [char_of (nat signum)]]"

definition AddSigaction :: "kernel \<Rightarrow> int \<Rightarrow> trace \<Rightarrow> trace res" where
  "AddSigaction k signum h =
     (if k_sigaction k h signum = -1 then Inl AssertFail else Inr (h @ [Sigaction signum]))"

definition SetupSigPipe :: "kernel \<Rightarrow> Process \<Rightarrow> trace \<Rightarrow> (sig_pipe \<times> trace) res" where
  "SetupSigPipe k p h =
     (if pr_epollfd p = -1 then Inl AssertFail
      else case k_socketpair k h of
        None \<Rightarrow> Inl AssertFail
      | Some sig_pipefd \<Rightarrow>
          rbind (AddSigaction k SIGTERM (h @ [SocketPair])) (\<lambda>h.
          rbind (AddSigaction k SIGINT h) (\<lambda>h.
          rbind (AddSigaction k SIGCHLD h) (\<lambda>h.
          Inr (sig_pipefd, EpollAddFd (pr_epollfd p) (fst sig_pipefd) h)))))"

text \<open>
  The bytes the event loops read from the pipe: the switch over \<open>sigs[i]\<close> knows two cases.
\<close>

definition is_sigchld :: "char \<Rightarrow> bool" where
  "is_sigchld c \<longleftrightarrow> of_char c = SIGCHLD"

definition is_stop_signal :: "char \<Rightarrow> bool" where
  "is_stop_signal c \<longleftrightarrow> of_char c = SIGINT \<or> of_char c = SIGTERM"

lemma handler_byte:
  "is_stop_signal (char_of (nat SIGTERM))" "is_stop_signal (char_of (nat SIGINT))"
  "\<not> is_stop_signal (char_of (nat SIGCHLD))"
  by code_simp+

section \<open>What the set-up does\<close>

lemma SetupEpoll_Inr:
  "SetupEpoll k p h = Inr (q, h') \<longleftrightarrow>
     k_epoll_create k h \<noteq> -1 \<and> q = p\<lparr>pr_epollfd := k_epoll_create k h\<rparr> \<and> h' = h @ [EpollCreate 5]"
  by (auto simp: SetupEpoll_def Let_def)

lemma SetupSigPipe_Inr:
  "SetupSigPipe k p h = Inr (sp, h') \<Longrightarrow>
     k_socketpair k h = Some sp \<and>
     h' = h @ [SocketPair, Sigaction SIGTERM, Sigaction SIGINT, Sigaction SIGCHLD,
               EpollCtlAdd (pr_epollfd p) (fst sp) (EPOLLIN OR EPOLLET)]"
  by (auto simp: SetupSigPipe_def AddSigaction_def EpollAddFd_def rbind_eq_Inr_iff
      split: if_splits option.splits)

lemma setup_fault:
  "SetupEpoll k p h = Inl f \<Longrightarrow> f = AssertFail"
  "SetupSigPipe k p h = Inl f \<Longrightarrow> f = AssertFail"
  by (auto simp: SetupEpoll_def SetupSigPipe_def AddSigaction_def Let_def rbind_eq_Inl_iff
      split: if_splits option.splits)

end
