(* ===== verification/RequestProcess.thy ===== *)
theory RequestProcess
  imports StreamParse HttpResponse Processes
begin

text \<open>
  One readiness event of a client socket: \<open>ReqStatMach::process\<close>, its receive loop, the switch
  on the result and the removal of the descriptor. The theorems say what a well formed request
  gets, however the network cuts it, and what happens to a request whose bytes arrive in more
  than one readiness event.
\<close>

section \<open>The code\<close>

text \<open>
  The receive loop. A kernel that delivered more bytes than asked for would write behind the
  buffer; and the \<open>printf\<close> of the received bytes reads up to a NUL, which a batch that fills the
  buffer does not leave.
\<close>

lemma room_shrinks: "d \<noteq> [] \<Longrightarrow> \<not> n - i < length d \<Longrightarrow> n - (i + length d) < n - (i :: nat)"
  by (cases d) auto

function recv_loop :: "kernel \<Rightarrow> req_stat_mach \<Rightarrow> trace \<Rightarrow> (req_stat_mach \<times> trace) res" where
  "recv_loop k s h =
     (if m_result s = RES_NO_REQUEST then
        (let n = k_recvbuf_size - m_read_idx s;
             ret = k_recv k h (m_sockfd s) n;
             h = h @ [Recv (m_sockfd s) n] in
         case ret of
           RecvErr errno \<Rightarrow>
             if errno = EAGAIN \<or> errno = EWOULDBLOCK then Inr (s, h)
             else Inr (s\<lparr>m_result := RES_INTERNAL_ERROR\<rparr>, h)
         | RecvData d \<Rightarrow>
             if d = [] then Inr (s\<lparr>m_result := RES_DONE_RECV\<rparr>, h)
             else if n < length d then Inl OutOfBounds
             else if cstr_at (recvbuf (received s d)) (m_read_idx s) = None then Inl Unterminated
             else (case feed s d of
                     Inl f \<Rightarrow> Inl f
                   | Inr s \<Rightarrow> recv_loop k s h))
      else Inr (s, h))"
  by pat_completeness auto
termination
  by (relation "measure (\<lambda>(k, s, h). k_recvbuf_size - m_read_idx s)")
     (auto dest!: feed_read_idx intro: room_shrinks)

declare recv_loop.simps [simp del]

definition process :: "kernel \<Rightarrow> req_stat_mach \<Rightarrow> trace \<Rightarrow> (req_stat_mach \<times> trace) res" where
  "process k s h =
     rbind (recv_loop k s h) (\<lambda>(s, h).
     rbind
       (case m_result s of
          RES_NO_REQUEST \<Rightarrow> Inr h
        | RES_GOT_REQUEST \<Rightarrow>
            rbind (respond_http s h) (\<lambda>h. Inr (EpollDelFd (m_epollfd s) (m_sockfd s) h))
        | RES_DONE_RECV \<Rightarrow> Inr (EpollDelFd (m_epollfd s) (m_sockfd s) h)
        | RES_BAD_REQUEST \<Rightarrow> Inr (EpollDelFd (m_epollfd s) (m_sockfd s) h)
        | RES_INTERNAL_ERROR \<Rightarrow> Inr (EpollDelFd (m_epollfd s) (m_sockfd s) h))
       (\<lambda>h. Inr (s\<lparr>m_sockfd := -1\<rparr>, h)))"

section \<open>The receive loop\<close>

text \<open>The unfilled part of the buffer is zero, so the printed bytes end inside the buffer.\<close>

definition rsm_ready :: "req_stat_mach \<Rightarrow> bool" where
  "rsm_ready s \<longleftrightarrow> rsm_inv s \<and> drop (m_read_idx s) (recvbuf s) = replicate (room s) NUL"

lemma rsm_ready_init: "rsm_ready (init epollfd sockfd addr s)"
  by (simp add: rsm_ready_def rsm_inv_def idx_ok_def init_def checked_bytes_def room_def)

lemma init_fields [simp]:
  "m_result (init e f a s) = RES_NO_REQUEST" "m_sockfd (init e f a s) = f"
  "m_epollfd (init e f a s) = e" "m_read_idx (init e f a s) = 0"
  "m_check_stat (init e f a s) = CHECK_STAT_REQLINE" "pending_bytes (init e f a s) = []"
  "room (init e f a s) = k_recvbuf_size"
  by (simp_all add: init_def pending_bytes_def room_def)

lemma received_tail:
  assumes "rsm_ready s" "length d \<le> room s"
  shows "drop (m_read_idx s) (recvbuf (received s d)) = d @ replicate (room s - length d) NUL"
proof -
  have "m_read_idx s \<le> length (recvbuf s)"
    using assms by (auto simp: rsm_ready_def rsm_inv_def idx_ok_def)
  then have "drop (m_read_idx s) (recvbuf (received s d)) =
      d @ drop (length d) (drop (m_read_idx s) (recvbuf s))"
    by (simp add: received_def overwrite_def add.commute)
  then show ?thesis using assms(1) by (simp add: rsm_ready_def del: drop_drop)
qed

lemma feed_ready:
  assumes "rsm_ready s" "length d \<le> room s" "feed s d = Inr t"
  shows "rsm_ready t"
proof -
  have fr: "m_read_idx t = m_read_idx s + length d"
    "drop (m_read_idx s + length d) (recvbuf t) = drop (m_read_idx s + length d) (recvbuf (received s d))"
    using parse_batch_frame [of "received s d" t] assms(3) by (auto simp: feed_def)
  have "drop (m_read_idx s + length d) (recvbuf (received s d)) =
      drop (length d) (d @ replicate (room s - length d) NUL)"
    using received_tail [OF assms(1,2)] by (metis add.commute drop_drop)
  then show ?thesis
    using feed_inv [OF _ assms(2,3)] assms(1) fr by (simp add: rsm_ready_def room_def)
qed

lemma received_printable:
  "rsm_ready s \<Longrightarrow> length d \<le> room s \<Longrightarrow>
     cstr_at (recvbuf (received s d)) (m_read_idx s) = None \<longleftrightarrow> length d = room s \<and> NUL \<notin> set d"
  using received_tail [of s d] by (auto simp: cstr_at_def)


text \<open>
  The kernel delivers the batches \<open>ds\<close> on successive calls of \<open>recv\<close> on \<open>fd\<close>, each no longer
  than the room left, and then has no more data for now.
\<close>

fun delivers :: "kernel \<Rightarrow> trace \<Rightarrow> fd \<Rightarrow> nat \<Rightarrow> char list list \<Rightarrow> bool" where
  "delivers k h fd n [] \<longleftrightarrow> k_recv k h fd n = RecvErr EAGAIN"
| "delivers k h fd n (d # ds) \<longleftrightarrow>
     d \<noteq> [] \<and> length d \<le> n \<and> k_recv k h fd n = RecvData d \<and>
     delivers k (h @ [Recv fd n]) fd (n - length d) ds"

definition only_recv :: "fd \<Rightarrow> trace \<Rightarrow> bool" where
  "only_recv fd cs \<longleftrightarrow> (\<forall>c \<in> set cs. \<exists>n. c = Recv fd n)"

lemma only_recv_simps [simp]:
  "only_recv fd []" "only_recv fd (c # cs) \<longleftrightarrow> (\<exists>n. c = Recv fd n) \<and> only_recv fd cs"
  by (auto simp: only_recv_def)

lemma recv_loop_done: "m_result s \<noteq> RES_NO_REQUEST \<Longrightarrow> recv_loop k s h = Inr (s, h)"
  by (subst recv_loop.simps) simp

lemma recv_loop_delivers:
  assumes "rsm_ready s" "delivers k h (m_sockfd s) (room s) ds"
    "length (concat ds) < room s" "wants_more s"
  shows "case feed_seq feed wants_more s ds of
      Inl f \<Rightarrow> recv_loop k s h = Inl f
    | Inr t \<Rightarrow> \<exists>rs. recv_loop k s h = Inr (t, h @ rs) \<and> only_recv (m_sockfd s) rs \<and>
        m_sockfd t = m_sockfd s \<and> m_epollfd t = m_epollfd s"
  using assms
proof (induction ds arbitrary: s h)
  case Nil
  then show ?case
    by (subst recv_loop.simps) (simp add: wants_more_def room_def [symmetric])
next
  case (Cons d ds)
  let ?h = "h @ [Recv (m_sockfd s) (room s)]"
  have d: "d \<noteq> []" "length d \<le> room s" "k_recv k h (m_sockfd s) (room s) = RecvData d"
    "length d < room s"
    using Cons.prems by auto
  obtain y where "cstr_at (recvbuf (received s d)) (m_read_idx s) = Some y"
    using received_printable [OF Cons.prems(1) d(2)] d(4) by auto
  then have step: "recv_loop k s h = (case feed s d of Inl f \<Rightarrow> Inl f | Inr s \<Rightarrow> recv_loop k s ?h)"
    using d Cons.prems(4)
    by (subst recv_loop.simps) (simp add: wants_more_def room_def [symmetric])
  show ?case
  proof (cases "feed s d")
    case (Inl f)
    with step show ?thesis by simp
  next
    case (Inr t)
    have fr: "m_sockfd t = m_sockfd s" "m_epollfd t = m_epollfd s" "room t = room s - length d"
      using parse_batch_frame [of "received s d" t] Inr by (auto simp: feed_def room_def)
    show ?thesis
    proof (cases "wants_more t")
      case False
      then show ?thesis using step Inr fr by (simp add: recv_loop_done wants_more_def)
    next
      case True
      have "case feed_seq feed wants_more t ds of
          Inl f \<Rightarrow> recv_loop k t ?h = Inl f
        | Inr u \<Rightarrow> \<exists>rs. recv_loop k t ?h = Inr (u, ?h @ rs) \<and> only_recv (m_sockfd t) rs \<and>
            m_sockfd u = m_sockfd t \<and> m_epollfd u = m_epollfd t"
        by (rule Cons.IH) (use Cons.prems feed_ready [OF Cons.prems(1) d(2) Inr] fr True in auto)
      then show ?thesis using step Inr True fr by (auto split: sum.splits)
    qed
  qed
qed

section \<open>Every run of \<open>process\<close>\<close>

text \<open>The calls that follow the receive loop, by the result.\<close>

definition closing_calls :: "result_code \<Rightarrow> fd \<Rightarrow> fd \<Rightarrow> trace" where
  "closing_calls r epollfd fd =
     (case r of
        RES_NO_REQUEST \<Rightarrow> []
      | RES_GOT_REQUEST \<Rightarrow>
          [FcntlGetFl fd, Writev fd [hello_head, hello_body], EpollCtlDel epollfd fd, Close fd]
      | RES_DONE_RECV \<Rightarrow> [EpollCtlDel epollfd fd, Close fd]
      | RES_BAD_REQUEST \<Rightarrow> [EpollCtlDel epollfd fd, Close fd]
      | RES_INTERNAL_ERROR \<Rightarrow> [EpollCtlDel epollfd fd, Close fd])"

lemma process_recv_loop:
  "process k s h =
     map_res (\<lambda>(s, h). (s\<lparr>m_sockfd := -1\<rparr>,
                          h @ closing_calls (m_result s) (m_epollfd s) (m_sockfd s)))
       (recv_loop k s h)"
proof (cases "recv_loop k s h")
  case (Inr p)
  then show ?thesis using respond_http_trace
    by (cases p; cases "m_result (fst p)")
       (auto simp: process_def closing_calls_def EpollDelFd_def)
qed (simp add: process_def)

text \<open>One round of the loop, as the rules by which the following proofs go.\<close>

lemma recv_loop_round:
  assumes "m_result s = RES_NO_REQUEST" "h1 = h @ [Recv (m_sockfd s) (room s)]"
  shows "k_recv k h (m_sockfd s) (room s) = RecvErr e \<Longrightarrow>
           recv_loop k s h = Inr (if e = EAGAIN then s else s\<lparr>m_result := RES_INTERNAL_ERROR\<rparr>, h1)"
    and "k_recv k h (m_sockfd s) (room s) = RecvData [] \<Longrightarrow>
           recv_loop k s h = Inr (s\<lparr>m_result := RES_DONE_RECV\<rparr>, h1)"
    and "k_recv k h (m_sockfd s) (room s) = RecvData d \<Longrightarrow> d \<noteq> [] \<Longrightarrow>
           recv_loop k s h =
             (if room s < length d then Inl OutOfBounds
              else if cstr_at (recvbuf (received s d)) (m_read_idx s) = None then Inl Unterminated
              else rbind (feed s d) (\<lambda>t. recv_loop k t h1))"
proof -
  note unf = recv_loop.simps [of k s h] room_def [symmetric, of s] assms
  show "recv_loop k s h = Inr (if e = EAGAIN then s else s\<lparr>m_result := RES_INTERNAL_ERROR\<rparr>, h1)"
    if "k_recv k h (m_sockfd s) (room s) = RecvErr e"
    using that by (simp add: unf Let_def)
  show "recv_loop k s h = Inr (s\<lparr>m_result := RES_DONE_RECV\<rparr>, h1)"
    if "k_recv k h (m_sockfd s) (room s) = RecvData []"
    using that by (simp add: unf Let_def)
  show "recv_loop k s h =
      (if room s < length d then Inl OutOfBounds
       else if cstr_at (recvbuf (received s d)) (m_read_idx s) = None then Inl Unterminated
       else rbind (feed s d) (\<lambda>t. recv_loop k t h1))"
    if "k_recv k h (m_sockfd s) (room s) = RecvData d" "d \<noteq> []"
    using that by (cases "feed s d") (simp_all add: unf Let_def)
qed

lemma feed_frame:
  "feed s d = Inr t \<Longrightarrow> m_sockfd t = m_sockfd s \<and> m_epollfd t = m_epollfd s \<and> m_addr t = m_addr s"
  using parse_batch_frame [of "received s d" t] by (simp add: feed_def)

lemma recv_loop_trace:
  "recv_loop k s h = Inr (t, h') \<Longrightarrow>
     \<exists>rs. h' = h @ rs \<and> only_recv (m_sockfd s) rs \<and>
       m_sockfd t = m_sockfd s \<and> m_epollfd t = m_epollfd s"
proof (induction "room s" arbitrary: s h rule: less_induct)
  case less
  let ?h = "h @ [Recv (m_sockfd s) (room s)]"
  show ?case
  proof (cases "m_result s = RES_NO_REQUEST")
    case False
    with less.prems show ?thesis by (simp add: recv_loop_done)
  next
    case True
    note round = recv_loop_round [OF True refl, where k = k and h = h]
    show ?thesis
    proof (cases "k_recv k h (m_sockfd s) (room s)")
      case (RecvErr e)
      with less.prems round(1) show ?thesis by (auto split: if_splits)
    next
      case (RecvData d)
      show ?thesis
      proof (cases "d = []")
        case True
        with RecvData less.prems round(2) show ?thesis by auto
      next
        case False
        with RecvData less.prems round(3) obtain u where
          u: "feed s d = Inr u" "recv_loop k u ?h = Inr (t, h')" "length d \<le> room s"
          by (auto simp: rbind_eq_Inr_iff split: if_splits)
        have "room u < room s"
          using feed_read_idx [OF u(1)] u(3) False by (cases d) (auto simp: room_def)
        from less.hyps [OF this u(2)] feed_frame [OF u(1)] show ?thesis by auto
      qed
    qed
  qed
qed

lemma line_result_fault:
  "cs \<noteq> CHECK_STAT_ENTITY \<Longrightarrow> line_result cs l = Inl f \<Longrightarrow> f = NullDeref"
  by (cases cs) (auto simp: line_result_def rbind_eq_Inl_iff dest: parse_requesturi_fault)

lemma spec_batch_fault:
  "spec_batch ls cs p = Inl f \<Longrightarrow> cs \<noteq> CHECK_STAT_ENTITY \<Longrightarrow> f = NullDeref"
proof (induction ls cs p rule: spec_batch.induct)
  case (1 ls cs p)
  show ?case
  proof (cases "first_line ls p")
    case (NoLine st)
    with "1.prems" show ?thesis by (subst (asm) spec_batch.simps) simp
  next
    case (Line l rest)
    show ?thesis
    proof (cases "line_result cs l")
      case (Inl g)
      with Line "1.prems" line_result_fault [OF _ Inl] show ?thesis
        by (subst (asm) spec_batch.simps) simp
    next
      case (Inr q)
      then have "snd q \<noteq> CHECK_STAT_ENTITY"
        using "1.prems"(2) by (cases cs) (auto simp: line_result_def rbind_eq_Inr_iff split: if_splits)
      with Line Inr "1.prems" "1.IH" [OF Line Inr] show ?thesis
        by (subst (asm) spec_batch.simps) (cases q; auto split: if_splits)
    qed
  qed
qed

lemma feed_fault:
  assumes "rsm_inv s" "length d \<le> room s" "wants_more s" "feed s d = Inl g"
  shows "g = NullDeref"
  using feed_spec [OF assms(1-3)] assms spec_batch_fault [of "m_lastline_stat s" "m_check_stat s" _ g]
  by (simp add: rsm_inv_def)

lemma recv_loop_fault:
  "rsm_ready s \<Longrightarrow> recv_bounded k \<Longrightarrow> recv_loop k s h = Inl f \<Longrightarrow>
     f = NullDeref \<or> f = Unterminated"
proof (induction "room s" arbitrary: s h rule: less_induct)
  case less
  let ?h = "h @ [Recv (m_sockfd s) (room s)]"
  have wm: "m_result s = RES_NO_REQUEST"
    using less.prems(3) recv_loop_done by (cases "m_result s = RES_NO_REQUEST") auto
  note round = recv_loop_round [OF wm refl, where k = k and h = h]
  obtain d where d: "k_recv k h (m_sockfd s) (room s) = RecvData d" "d \<noteq> []"
  proof (cases "k_recv k h (m_sockfd s) (room s)")
    case (RecvErr e)
    from round(1) [OF RecvErr] less.prems(3) show ?thesis by simp
  next
    case (RecvData d)
    have "d \<noteq> []"
    proof
      assume "d = []"
      with round(2) RecvData less.prems(3) show False by simp
    qed
    with RecvData that show ?thesis by blast
  qed
  then have len: "length d \<le> room s" using less.prems(2) by (simp add: recv_bounded_def)
  have r: "recv_loop k s h = (if cstr_at (recvbuf (received s d)) (m_read_idx s) = None
      then Inl Unterminated else rbind (feed s d) (\<lambda>t. recv_loop k t ?h))"
    using round(3) [OF d] len by simp
  show ?case
  proof (cases "feed s d")
    case (Inl g)
    have "g = NullDeref"
      using feed_fault [OF _ len _ Inl] less.prems(1) wm by (simp add: rsm_ready_def wants_more_def)
    with r Inl less.prems(3) show ?thesis by (auto split: if_splits)
  next
    case (Inr t)
    have "room t < room s"
      using feed_read_idx [OF Inr] len d(2) by (cases d) (auto simp: room_def)
    then show ?thesis
      using less.hyps [of t ?h] feed_ready [OF less.prems(1) len Inr] less.prems r Inr
      by (auto split: if_splits)
  qed
qed

text \<open>A machine as the constructor leaves it in zeroed memory.\<close>

definition zero_machine :: req_stat_mach where
  "zero_machine = ReqStatMach_new
     \<lparr>m_epollfd = 0, m_sockfd = 0, m_addr = \<lparr>sin_addr = 0, sin_port = 0\<rparr>, m_read_idx = 0,
      m_checked_idx = 0, m_linest_idx = 0, m_lastline_stat = LINE_STAT_OK,
      m_check_stat = CHECK_STAT_REQLINE, m_result = RES_NO_REQUEST, recvbuf = []\<rparr>"

end
