(* ===== verification/HttpProps.thy ===== *)
theory HttpProps
  imports RequestProcess
begin

text \<open>
  The properties of the HTTP handler: what a client that sends a request gets, and the runs in
  which the code does something else than its comments and names promise.
\<close>

section \<open>Well formed requests\<close>

definition text_line :: "string \<Rightarrow> bool" where
  "text_line l \<longleftrightarrow> CR \<notin> set l \<and> LF \<notin> set l \<and> NUL \<notin> set l"

definition http_request :: "string \<Rightarrow> string list \<Rightarrow> string" where
  "http_request request_line headers =
     request_line @ CRLF @ concat (map (\<lambda>h. h @ CRLF) headers) @ CRLF"

definition good_request :: "string \<Rightarrow> string list \<Rightarrow> bool" where
  "good_request request_line headers \<longleftrightarrow>
     request_line_ok request_line \<and> text_line request_line \<and>
     list_all (\<lambda>h. text_line h \<and> h \<noteq> []) headers"

lemma first_line_text: "text_line l \<Longrightarrow> first_line LINE_STAT_OK (l @ CR # LF # rest) = Line l rest"
  using scan_line [of l rest] by (simp add: first_line_def text_line_def cstr_id)

lemma spec_batch_headers:
  "list_all (\<lambda>h. text_line h \<and> h \<noteq> []) hs \<Longrightarrow>
     spec_batch LINE_STAT_OK CHECK_STAT_HEADER (concat (map (\<lambda>h. h @ CRLF) hs) @ CRLF @ rest) =
       Inr (RES_GOT_REQUEST, LINE_STAT_OK, CHECK_STAT_HEADER, rest)"
proof (induction hs)
  case Nil
  have "first_line LINE_STAT_OK (CRLF @ rest) = Line [] rest"
    using first_line_text [of "[]" rest] by (simp add: text_line_def)
  then show ?case by (subst spec_batch.simps) (simp add: line_result_def)
next
  case (Cons h hs)
  then obtain c cs where h: "h = c # cs" "text_line h" by (cases h) auto
  have "line_result CHECK_STAT_HEADER h = Inr (RES_NO_REQUEST, CHECK_STAT_HEADER)"
    by (simp add: line_result_def h)
  with Cons first_line_text [OF h(2)] show ?case by (subst spec_batch.simps) simp
qed

lemma spec_batch_request:
  assumes "good_request rl hs"
  shows "spec_batch LINE_STAT_OK CHECK_STAT_REQLINE (http_request rl hs @ rest) =
           Inr (RES_GOT_REQUEST, LINE_STAT_OK, CHECK_STAT_HEADER, rest)"
proof -
  have "line_result CHECK_STAT_REQLINE rl = Inr (RES_NO_REQUEST, CHECK_STAT_HEADER)"
    using assms by (simp add: line_result_def good_request_def parse_requesturi_cases)
  with assms first_line_text [of rl] spec_batch_headers [of hs rest] show ?thesis
    by (subst spec_batch.simps) (simp add: http_request_def good_request_def)
qed

lemma bare_cr_LF: "bare_cr (LF # v) \<longleftrightarrow> bare_cr v"
  by (cases v) auto

lemma bare_cr_line: "text_line l \<Longrightarrow> bare_cr (l @ CR # LF # v) \<longleftrightarrow> bare_cr v"
  by (simp add: bare_cr_join bare_cr_LF text_line_def)

lemma good_request_no_bare_cr: "good_request rl hs \<Longrightarrow> \<not> bare_cr (http_request rl hs)"
proof -
  have "list_all text_line hs \<Longrightarrow> \<not> bare_cr (concat (map (\<lambda>h. h @ CRLF) hs) @ CRLF)"
    by (induction hs) (auto simp: bare_cr_line)
  moreover assume "good_request rl hs"
  ultimately show ?thesis
    by (auto simp: http_request_def good_request_def bare_cr_line list_all_iff)
qed

section \<open>One readiness event\<close>

lemma feed_ok_init: "length p \<le> k_recvbuf_size \<Longrightarrow> \<not> bare_cr p \<Longrightarrow> feed_ok (init ep fd a s) p"
  using rsm_ready_init [of ep fd a s] by (simp add: feed_ok_def rsm_ready_def)

lemma feed_seq_outcome:
  assumes "length (concat ds) \<le> k_recvbuf_size" "\<not> bare_cr (concat ds)"
  shows "map_res m_result (feed_seq feed wants_more (init epollfd sockfd addr s) ds) =
           map_res fst (spec_batch LINE_STAT_OK CHECK_STAT_REQLINE (concat ds))"
proof (cases ds)
  case Nil
  then show ?thesis by (subst spec_batch.simps) (simp add: first_line_def)
next
  case (Cons d es)
  have ok: "feed_ok (init epollfd sockfd addr s) (concat (d # es))"
    using feed_ok_init assms Cons by blast
  from rsm.feed_seq_concat [OF ok] feed_outcome [OF ok] Cons show ?thesis
    by (simp add: wants_more_def)
qed

text \<open>
  One readiness event on a fresh machine, for a stream that fits: the calls and the result are
  the ones of the specification of the whole stream.
\<close>

lemma process_delivered:
  assumes "length (concat ds) < k_recvbuf_size" "\<not> bare_cr (concat ds)"
    "delivers k h sockfd k_recvbuf_size ds"
  shows "case spec_batch LINE_STAT_OK CHECK_STAT_REQLINE (concat ds) of
      Inl f \<Rightarrow> process k (init epollfd sockfd addr s) h = Inl f
    | Inr (r, _) \<Rightarrow> \<exists>t rs. process k (init epollfd sockfd addr s) h =
          Inr (t, h @ rs @ closing_calls r epollfd sockfd) \<and>
        only_recv sockfd rs \<and> m_result t = r \<and> m_sockfd t = -1"
proof -
  let ?s = "init epollfd sockfd addr s"
  note out = feed_seq_outcome [of ds epollfd sockfd addr s] assms
  have "delivers k h (m_sockfd ?s) (room ?s) ds" "length (concat ds) < room ?s" "wants_more ?s"
    using assms by (simp_all add: wants_more_def)
  note rl = recv_loop_delivers [OF rsm_ready_init this, unfolded init_fields]
  show ?thesis
  proof (cases "feed_seq feed wants_more ?s ds")
    case (Inl f)
    with rl out show ?thesis by (auto simp: process_recv_loop map_res_eq_simps split: sum.split)
  next
    case (Inr t)
    then have "map_res fst (spec_batch LINE_STAT_OK CHECK_STAT_REQLINE (concat ds)) = Inr (m_result t)"
      using out by simp
    then obtain rest where "spec_batch LINE_STAT_OK CHECK_STAT_REQLINE (concat ds) = Inr (m_result t, rest)"
      by (auto simp: map_res_eq_simps)
    moreover obtain rs where "recv_loop k ?s h = Inr (t, h @ rs)" "only_recv sockfd rs"
        "m_sockfd t = sockfd" "m_epollfd t = epollfd"
      using rl Inr by auto
    ultimately show ?thesis by (auto simp: process_recv_loop)
  qed
qed

text \<open>Scripts of batches, for the concrete runs below.\<close>

lemma delivers_script:
  assumes "fd \<noteq> -1" "filter is_recv h = []" "\<forall>d \<in> set ds. d \<noteq> []" "length (concat ds) \<le> n"
  shows "delivers (recv_script ds) h fd n ds"
proof -
  have "delivers (recv_script (cs @ ds)) h fd n ds" if "length (filter is_recv h) = length cs" for cs
    using assms(3,4) that
  proof (induction ds arbitrary: cs h n)
    case Nil
    then show ?case using assms(1) by (simp add: recv_script_recv)
  next
    case (Cons d ds)
    have "delivers (recv_script ((cs @ [d]) @ ds)) (h @ [Recv fd n]) fd (n - length d) ds"
      by (rule Cons.IH) (use Cons.prems in auto)
    then show ?case using Cons.prems assms(1) by (simp add: recv_script_recv)
  qed
  from this [of "[]"] show ?thesis using assms(2) by simp
qed

section \<open>Properties: the answer to a request\<close>

text \<open>
  C3. A well formed request that arrives during one readiness event, cut into batches in any
  way, is answered: after the receives, \<open>process\<close> writes the response to the client's socket,
  removes the socket from epoll and closes it; and it makes no other call.
\<close>

theorem process_answers_request:
  assumes "good_request rl hs" "concat ds = http_request rl hs"
    "length (http_request rl hs) < k_recvbuf_size"
    "delivers k h sockfd k_recvbuf_size ds"
  shows "\<exists>t rs. process k (init epollfd sockfd addr s) h =
      Inr (t, h @ rs @ [FcntlGetFl sockfd, Writev sockfd [hello_head, hello_body],
                        EpollCtlDel epollfd sockfd, Close sockfd]) \<and>
      only_recv sockfd rs \<and> m_result t = RES_GOT_REQUEST \<and> m_sockfd t = -1"
  using process_delivered [of ds k h sockfd epollfd addr s] assms
    good_request_no_bare_cr [OF assms(1)] spec_batch_request [OF assms(1), of "[]"]
  by (auto simp: closing_calls_def)

lemma process_answers_request_witness:
  "let ds = [''GET / HT'', ''TP/1.1'' @ [CR], LF # ''Host: x'' @ CRLF @ CRLF] in
   \<exists>t rs. process (recv_script ds) (init 3 7 a_peer zero_machine) [Accept 4] =
      Inr (t, [Accept 4] @ rs @ [FcntlGetFl 7, Writev 7 [hello_head, hello_body],
                        EpollCtlDel 3 7, Close 7]) \<and>
      only_recv 7 rs \<and> m_result t = RES_GOT_REQUEST \<and> m_sockfd t = -1"
proof -
  let ?ds = "[''GET / HT'', ''TP/1.1'' @ [CR], LF # ''Host: x'' @ CRLF @ CRLF]"
  have ok: "request_line_ok ''GET / HTTP/1.1''"
    unfolding request_line_ok_def
    by (intro exI [of _ "''GET''"] exI [of _ SPACE] exI [of _ "''/''"] exI [of _ "''HTTP/1.1''"])
       (simp add: blanks_def method_ok_def version_ok_def strcasecmp_eq_def)
  have del: "delivers (recv_script ?ds) [Accept 4] 7 k_recvbuf_size ?ds"
    by (rule delivers_script) (simp_all add: is_recv_def k_recvbuf_size_eq)
  show ?thesis
    unfolding Let_def
    by (rule process_answers_request [where rl = "''GET / HTTP/1.1''" and hs = "[''Host: x'']", OF _ _ _ del])
       (simp_all add: good_request_def ok text_line_def http_request_def k_recvbuf_size_eq)
qed



text \<open>
  The response: whatever the uninitialised stack buffers hold, no truncation and no read of
  an undefined byte is possible; the header is the status line 200, a Content-Length equal to
  the number of body bytes and an empty line; header and body are 66 bytes.
\<close>

theorem respond_http_writes:
  "respond_http s h =
     Inr (h @ [FcntlGetFl (m_sockfd s), Writev (m_sockfd s) [hello_head, hello_body]]) \<and>
   hello_head = ''HTTP/1.1 200 OK'' @ CRLF @
     ''Content-Length: '' @ dec_string (length hello_body) @ CRLF @ CRLF \<and>
   length (hello_head @ hello_body) = 66"
  by (simp add: respond_http_trace length_hello_head length_hello_body)
     (simp add: hello_head_def length_hello_body)

text \<open>A batch that fills the buffer.\<close>

lemma process_full_buffer:
  assumes "k_recv k h sockfd k_recvbuf_size = RecvData d" "length d = k_recvbuf_size" "NUL \<notin> set d"
  shows "process k (init epollfd sockfd addr s) h = Inl Unterminated"
proof -
  let ?s = "init epollfd sockfd addr s"
  have "cstr_at (recvbuf (received ?s d)) (m_read_idx ?s) = None"
    using received_printable [OF rsm_ready_init] assms by simp
  moreover have "d \<noteq> []" using assms(2) by (auto simp: k_recvbuf_size_eq)
  ultimately show ?thesis
    using recv_loop_round(3) [OF _ refl, of ?s k h d] assms by (simp add: process_recv_loop)
qed

section \<open>Properties: every run\<close>

text \<open>
  C18. For every kernel, every state and every history: the calls of \<open>process\<close> are receives on
  the machine's own socket, followed by exactly the calls that belong to the result (a response
  only for a complete request); and the machine always ends without a socket.
\<close>

theorem process_trace:
  assumes "process k s h = Inr (t, h')"
  shows "m_sockfd t = -1 \<and>
    (\<exists>rs. h' = h @ rs @ closing_calls (m_result t) (m_epollfd s) (m_sockfd s) \<and>
      only_recv (m_sockfd s) rs)"
proof -
  from assms obtain u hu where "recv_loop k s h = Inr (u, hu)"
      "t = u\<lparr>m_sockfd := -1\<rparr>" "h' = hu @ closing_calls (m_result u) (m_epollfd u) (m_sockfd u)"
    by (auto simp: process_recv_loop map_res_eq_simps)
  with recv_loop_trace [of k s h u hu] show ?thesis by auto
qed

lemma process_trace_witness:
  "let u = zero_machine\<lparr>m_sockfd := 7, m_result := RES_DONE_RECV\<rparr> in
   process idle_kernel u [Accept 4] =
     Inr (u\<lparr>m_sockfd := -1\<rparr>, [Accept 4] @ [EpollCtlDel 0 7, Close 7]) \<and>
   m_sockfd (u\<lparr>m_sockfd := -1\<rparr>) = -1 \<and>
   (\<exists>rs. [Accept 4] @ [EpollCtlDel 0 7, Close 7] =
           [Accept 4] @ rs @ closing_calls RES_DONE_RECV 0 7 \<and> only_recv 7 rs)"
proof -
  let ?u = "zero_machine\<lparr>m_sockfd := 7, m_result := RES_DONE_RECV\<rparr>"
  have p: "process idle_kernel ?u [Accept 4] =
      Inr (?u\<lparr>m_sockfd := -1\<rparr>, [Accept 4] @ [EpollCtlDel 0 7, Close 7])"
    by (simp add: process_recv_loop recv_loop_done closing_calls_def zero_machine_def
        ReqStatMach_new_def)
  show ?thesis unfolding Let_def
    using p process_trace [OF p] by (simp add: zero_machine_def ReqStatMach_new_def)
qed



text \<open>
  A request line that is the bare word GET, the first bytes of a connection, crashes the
  process that serves it.
\<close>

theorem bare_GET_crashes:
  assumes "delivers k h sockfd k_recvbuf_size [''GET'' @ CRLF]"
  shows "process k (init epollfd sockfd addr s) h = Inl NullDeref"
proof -
  have "parse_requesturi ''GET'' = Inl NullDeref" by code_simp
  then have "spec_batch LINE_STAT_OK CHECK_STAT_REQLINE (''GET'' @ CRLF) = Inl NullDeref"
    using first_line_text [of "''GET''" "[]"]
    by (subst spec_batch.simps) (simp add: text_line_def line_result_def)
  then show ?thesis
    using process_delivered [of "[''GET'' @ CRLF]" k h sockfd epollfd addr s] assms
    by (simp add: k_recvbuf_size_eq)
qed

lemma bare_GET_crashes_witness:
  "process (recv_script [''GET'' @ CRLF])
     (init 3 7 a_peer zero_machine) [] = Inl NullDeref"
  by (rule bare_GET_crashes, rule delivers_script) (simp_all add: k_recvbuf_size_eq)

text \<open>
  A batch that fills the receive buffer and holds no NUL makes the diagnostic \<open>printf\<close> read
  behind the buffer.
\<close>

theorem full_buffer_overreads:
  assumes "k_recv k h sockfd k_recvbuf_size = RecvData d" "length d = k_recvbuf_size" "NUL \<notin> set d"
  shows "process k (init epollfd sockfd addr s) h = Inl Unterminated"
  by (rule process_full_buffer [OF assms])

lemma full_buffer_overreads_witness:
  "process (recv_script [replicate k_recvbuf_size CR])
     (init 3 7 a_peer zero_machine) [] = Inl Unterminated"
  by (rule full_buffer_overreads [where d = "replicate k_recvbuf_size CR"])
     (auto simp: recv_script_recv)

text \<open>
  C20. A request that needs a second readiness event is never answered: \<open>process\<close> forgets the
  socket although the request is incomplete, so the next event receives from -1, fails and
  removes descriptor -1 from epoll; the client's descriptor is neither written nor closed.
\<close>

theorem partial_request_abandoned:
  assumes "recv_rejects_minus1 k"
    and "process k s h = Inr (t, h1)" "m_result t = RES_NO_REQUEST"
  shows "\<exists>u. process k t h2 =
      Inr (u, h2 @ [Recv (-1) (room t), EpollCtlDel (m_epollfd t) (-1), Close (-1)]) \<and>
    m_result u = RES_INTERNAL_ERROR \<and> (\<exists>rs. h1 = h @ rs \<and> only_recv (m_sockfd s) rs) \<and>
    (0 \<le> m_sockfd s \<longrightarrow> \<not> is_init t (m_sockfd s))"
proof -
  obtain v where v: "recv_loop k s h = Inr (v, h1)" "t = v\<lparr>m_sockfd := -1\<rparr>"
    using assms(2,3) by (auto simp: process_recv_loop map_res_eq_simps closing_calls_def)
  then have t: "m_sockfd t = -1" "m_epollfd t = m_epollfd v" by simp_all
  have "recv_loop k t h2 =
      Inr (t\<lparr>m_result := RES_INTERNAL_ERROR\<rparr>, h2 @ [Recv (-1) (room t)])"
    using recv_loop_round(1) [OF assms(3) refl, of k h2 EBADF] assms(1) t
    by (simp add: recv_rejects_minus1_def)
  then show ?thesis
    using recv_loop_trace [OF v(1)] t
    by (auto simp: process_recv_loop closing_calls_def is_init_def)
qed

lemma partial_request_abandoned_witness:
  "let k = recv_script [''GET / HT''];
       s = init 3 7 a_peer zero_machine in
   \<exists>t rs u. process k s [] = Inr (t, rs) \<and> m_result t = RES_NO_REQUEST \<and>
     process k t rs = Inr (u, rs @ [Recv (-1) (room t), EpollCtlDel (m_epollfd t) (-1), Close (-1)]) \<and>
     \<not> is_init t 7"
proof -
  let ?k = "recv_script [''GET / HT'']"
  let ?s = "init 3 7 a_peer zero_machine"
  have "spec_batch LINE_STAT_OK CHECK_STAT_REQLINE (concat [''GET / HT'']) =
      Inr (RES_NO_REQUEST, LINE_STAT_OPEN, CHECK_STAT_REQLINE, ''GET / HT'')"
    by (subst spec_batch.simps) (simp add: first_line_def)
  moreover have "delivers ?k [] 7 k_recvbuf_size [''GET / HT'']"
    by (rule delivers_script) (simp_all add: k_recvbuf_size_eq)
  moreover have "length (concat [''GET / HT'']) < k_recvbuf_size" "\<not> bare_cr (concat [''GET / HT''])"
    by (simp_all add: k_recvbuf_size_eq)
  ultimately obtain t rs where t: "process ?k ?s [] = Inr (t, rs)" "m_result t = RES_NO_REQUEST"
    using process_delivered [of "[''GET / HT'']" ?k "[]" 7 3
        "a_peer" zero_machine]
    by (auto simp: closing_calls_def)
  show ?thesis unfolding Let_def
    using partial_request_abandoned [OF recv_script_minus1 t, of rs] t by auto
qed

section \<open>Properties: the parser\<close>

text \<open>
  C11. The parser of a batch refines the specification: on every state that satisfies the
  invariant, with its buffer, indices and saved statuses, \<open>parse_batch\<close> gives the result, the
  statuses and the bytes still pending (or the fault) that \<open>spec_batch\<close> computes from the
  pending bytes alone.
\<close>

theorem parse_batch_refines_spec:
  assumes "rsm_inv s" "m_result s = RES_NO_REQUEST"
  shows "map_res batch_view (parse_batch s) =
           spec_batch (m_lastline_stat s) (m_check_stat s) (pending_bytes s)"
  by (rule parse_batch_spec [OF assms])

lemma parse_batch_refines_spec_witness:
  "map_res batch_view (parse_batch (init 3 7 a_peer zero_machine)) =
     spec_batch LINE_STAT_OK CHECK_STAT_REQLINE []"
  using parse_batch_refines_spec [of "init 3 7 a_peer zero_machine"]
    rsm_ready_init [of 3 7 a_peer zero_machine]
  by (simp add: rsm_ready_def init_def pending_bytes_def)

text \<open>
  C29. The invariant of the parser (the buffer keeps its size, line start, checked and read index
  are ordered and inside it, the checked bytes hold no line end, after a batch that ended in CR
  the checked index points at that CR) holds after \<open>init\<close> and is kept by every received batch.
\<close>

theorem parser_invariant:
  "rsm_inv (init epollfd sockfd addr s) \<and>
   (rsm_inv u \<and> length d \<le> room u \<and> feed u d = Inr t \<longrightarrow> rsm_inv t \<and> m_read_idx t = m_read_idx u + length d)"
  using rsm_ready_init [of epollfd sockfd addr s] feed_inv [of u d t] feed_read_idx [of u d t]
  by (auto simp: rsm_ready_def)

lemma parser_invariant_witness:
  "let u = init 3 7 a_peer zero_machine in
   \<exists>t. feed u ''GET'' = Inr t \<and> rsm_inv t \<and> m_read_idx t = 3"
proof -
  let ?u = "init 3 7 a_peer zero_machine"
  have ok: "feed_ok ?u ''GET''" by (rule feed_ok_init) (simp_all add: k_recvbuf_size_eq)
  have "spec_batch LINE_STAT_OK CHECK_STAT_REQLINE ''GET'' =
      Inr (RES_NO_REQUEST, LINE_STAT_OPEN, CHECK_STAT_REQLINE, ''GET'')"
    by (subst spec_batch.simps) (simp add: first_line_def)
  with feed_outcome [OF ok] have "map_res m_result (feed ?u ''GET'') = Inr RES_NO_REQUEST"
    by (simp add: wants_more_def)
  then obtain t where t: "feed ?u ''GET'' = Inr t" by (auto simp: map_res_eq_simps)
  have "rsm_inv ?u" "length ''GET'' \<le> room ?u"
    using rsm_ready_init [of 3 7 a_peer zero_machine] by (simp_all add: rsm_ready_def k_recvbuf_size_eq)
  with t parser_invariant [of 3 7 a_peer zero_machine ?u "''GET''" t] show ?thesis by simp
qed

text \<open>
  The line scanner, exactly, on every buffer: its result, the checked index it leaves and
  the bytes it overwrites are those of the first line end (or stray LF, or CR at the end) of the
  unchecked bytes; it reads and writes nothing outside the buffer unless a stray LF stands at
  index 0.
\<close>

theorem check_one_line_exact:
  assumes "m_checked_idx s \<le> m_read_idx s" "m_read_idx s \<le> length (recvbuf s)"
  shows "check_one_line s =
    scanned (m_checked_idx s) (scan (segment (m_checked_idx s) (m_read_idx s) (recvbuf s))) s"
  by (rule check_one_line_scan [OF assms])

lemma check_one_line_exact_witness:
  "let s = zero_machine\<lparr>recvbuf := ''Hi'' @ CRLF @ ''x'', m_read_idx := 5\<rparr> in
   check_one_line s = Inr (LINE_STAT_OK, s\<lparr>recvbuf := ''Hi'' @ [NUL, NUL] @ ''x'', m_checked_idx := 4\<rparr>)"
  using check_one_line_exact [of "zero_machine\<lparr>recvbuf := ''Hi'' @ CRLF @ ''x'', m_read_idx := 5\<rparr>"]
  by (simp add: zero_machine_def ReqStatMach_new_def segment_def scanned_def line_ended_def)

text \<open>
  The request-line parser accepts a line exactly when it is in its grammar: a (possibly
  empty) prefix of GET in any case, a URI, and a version whose first eight characters are
  HTTP/1.0 or HTTP/1.1 in any case, separated by single blanks.
\<close>

theorem parse_requesturi_accepts:
  "parse_requesturi line = Inr RES_NO_REQUEST \<longleftrightarrow> request_line_ok line"
  by (simp add: parse_requesturi_cases)

text \<open>
  The request-line parser dereferences a null pointer on a line that is the bare word GET
  (in any case), and on no other line; no other fault is possible.
\<close>

theorem parse_requesturi_faults:
  "parse_requesturi line = Inl f \<longleftrightarrow> f = NullDeref \<and> strcasecmp_eq line ''GET''"
  using GET_no_blank [of line] request_line_ok_blank [of line]
  by (auto simp: parse_requesturi_cases)

text \<open>
  How a stream is cut into batches does not matter to its result, if every CR of it
  precedes a LF.
\<close>

theorem cut_irrelevant:
  assumes "length (concat ds) \<le> k_recvbuf_size" "\<not> bare_cr (concat ds)" "concat es = concat ds"
  shows "map_res m_result (feed_seq feed wants_more (init epollfd sockfd addr s) ds) =
         map_res m_result (feed_seq feed wants_more (init epollfd sockfd addr s) es)"
  using feed_seq_outcome [of ds] feed_seq_outcome [of es] assms by simp

lemma cut_irrelevant_witness:
  "map_res m_result (feed_seq feed wants_more (init 3 7 a_peer zero_machine) [''GE'', ''T'' @ [CR], [LF]]) =
   map_res m_result (feed_seq feed wants_more (init 3 7 a_peer zero_machine) [''GET'' @ CRLF])"
  by (rule cut_irrelevant) (simp_all add: k_recvbuf_size_eq)

text \<open>
  Without that proviso it does matter: after a batch that ends in CR, a stray LF later in
  the stream is taken for a line end (and the byte before it is lost), so a stream that is
  refused in one piece is accepted in two.
\<close>

theorem stray_LF_cut_dependent:
  "let s = init epollfd sockfd addr s0; d = ''GET / HTTP/1.1'' @ [CR]; e = ''A'' @ [LF] @ CRLF in
   map_res m_result (feed_seq feed wants_more s [d @ e]) = Inr RES_BAD_REQUEST \<and>
   map_res m_result (feed_seq feed wants_more s [d, e]) = Inr RES_GOT_REQUEST"
proof -
  let ?s = "init epollfd sockfd addr s0"
  let ?d = "''GET / HTTP/1.1'' @ [CR]"
  let ?e = "''A'' @ [LF] @ CRLF"
  have inv: "rsm_inv ?s" using rsm_ready_init [of epollfd sockfd addr s0] by (simp add: rsm_ready_def)
  have len: "length (?d @ ?e) \<le> room ?s" "length ?d \<le> room ?s" "wants_more ?s"
    by (simp_all add: k_recvbuf_size_eq wants_more_def)
  have st: "m_lastline_stat ?s = LINE_STAT_OK" by (simp add: init_def)
  have "spec_batch LINE_STAT_OK CHECK_STAT_REQLINE (?d @ ?e) =
      Inr (RES_BAD_REQUEST, LINE_STAT_BAD, CHECK_STAT_REQLINE, ?d @ ?e)"
    by (subst spec_batch.simps) (simp add: first_line_def)
  then have "map_res batch_view (feed ?s (?d @ ?e)) = \<dots>"
    using feed_spec [OF inv len(1,3)] st by simp
  then have one: "map_res m_result (feed_seq feed wants_more ?s [?d @ ?e]) = Inr RES_BAD_REQUEST"
    by (auto simp: map_res_eq_simps batch_view_def)
  have "spec_batch LINE_STAT_OK CHECK_STAT_REQLINE ?d =
      Inr (RES_NO_REQUEST, LINE_STAT_WAITING_N, CHECK_STAT_REQLINE, ?d)"
    by (subst spec_batch.simps) (simp add: first_line_def)
  then have "map_res batch_view (feed ?s ?d) = \<dots>"
    using feed_spec [OF inv len(2,3)] st by simp
  then obtain t where t: "feed ?s ?d = Inr t" "m_result t = RES_NO_REQUEST"
      "m_lastline_stat t = LINE_STAT_WAITING_N" "m_check_stat t = CHECK_STAT_REQLINE"
      "pending_bytes t = ?d"
    by (auto simp: map_res_eq_simps batch_view_def)
  have tlen: "length ?e \<le> room t" "wants_more t"
    using feed_read_idx [OF t(1)] t(2) by (simp_all add: room_def k_recvbuf_size_eq wants_more_def)
  have "parse_requesturi ?d = Inr RES_NO_REQUEST" by code_simp
  moreover have "spec_batch LINE_STAT_OK CHECK_STAT_HEADER CRLF =
      Inr (RES_GOT_REQUEST, LINE_STAT_OK, CHECK_STAT_HEADER, [])"
    using spec_batch_headers [of "[]" "[]"] by simp
  ultimately have "spec_batch LINE_STAT_WAITING_N CHECK_STAT_REQLINE (?d @ ?e) =
      Inr (RES_GOT_REQUEST, LINE_STAT_OK, CHECK_STAT_HEADER, [])"
    by (subst spec_batch.simps) (simp add: first_line_def line_result_def cstr_Cons)
  then have "map_res batch_view (feed t ?e) = \<dots>"
    using feed_spec [OF feed_inv [OF inv len(2) t(1)] tlen] t by simp
  then have "map_res m_result (feed_seq feed wants_more ?s [?d, ?e]) = Inr RES_GOT_REQUEST"
    using t(1) tlen(2) by (auto simp: map_res_eq_simps batch_view_def)
  with one show ?thesis by (simp only: Let_def)
qed

end
