(* ===== verification/ProcessPool.thy ===== *)
theory ProcessPool
  imports Processes "HOL-Library.While_Combinator"
begin

text \<open>
  \<^verbatim>\<open>src/ProcessPool.h\<close>, the parent's side: the constructor that forks the children, the role \<open>run\<close>
  gives each process, and \<open>RunParent\<close> with its round-robin choice of a child and its handling
  of signals. A process sees its own pool object: the kernel's answers to \<open>fork\<close> decide whether
  it is the parent or the child of an index.
\<close>

section \<open>The pool and its constructor\<close>

definition k_max_num_process :: int where "k_max_num_process = 10"
definition k_max_num_epoll_event :: nat where "k_max_num_epoll_event = 1000"

record ProcessPool =
  num_proc :: nat
  procs :: "Process list"
  stopped :: bool

definition SetNonBlocking :: "kernel \<Rightarrow> fd \<Rightarrow> trace \<Rightarrow> trace" where
  "SetNonBlocking k fd h =
     (let old_opt = k_getfl k h fd in
      h @ [FcntlGetFl fd, FcntlSetFl fd (old_opt OR O_NONBLOCK)])"

text \<open>
  The loop of the constructor from index \<open>i\<close> on. It returns whether this process is a child
  (the early return of the source), with the array.
\<close>

function create_children ::
  "kernel \<Rightarrow> fd \<Rightarrow> nat \<Rightarrow> nat \<Rightarrow> Process list \<Rightarrow> trace \<Rightarrow> (bool \<times> Process list \<times> trace) res" where
  "create_children k listenfd n i ps h =
     (if i < n + 1 then
        (case k_socketpair k h of
           None \<Rightarrow> Inl AssertFail
         | Some (rfd, wfd) \<Rightarrow>
             (let h = h @ [SocketPair];
                  pid = k_fork k h;
                  h = h @ [Fork];
                  p = (ps ! i)\<lparr>pr_fa_pipefd := Some (rfd, wfd), pr_pid := pid\<rparr> in
              if pid < 0 then Inl AssertFail
              else if pid = 0 then
                Inr (True, ps[i := p\<lparr>pr_listenfd := listenfd, pr_pool_id := int i\<rparr>],
                     SetNonBlocking k rfd h @ [Close wfd])
              else
                create_children k listenfd n (i + 1) (ps[i := p])
                  (SetNonBlocking k wfd h @ [Close rfd])))
      else Inr (False, ps, h))"
  by pat_completeness auto
termination by (relation "measure (\<lambda>(k, l, n, i, ps, h). n + 1 - i)") auto

declare create_children.simps [simp del]

definition ProcessPool_new :: "kernel \<Rightarrow> fd \<Rightarrow> int \<Rightarrow> trace \<Rightarrow> (ProcessPool \<times> trace) res" where
  "ProcessPool_new k listenfd num_process h =
     (if \<not> (0 \<le> num_process \<and> num_process \<le> k_max_num_process) then Inl AssertFail
      else let n = nat num_process in
        rbind (create_children k listenfd n 1 (replicate (n + 1) Process_new) h)
          (\<lambda>(child, ps, h).
             if child then Inr (\<lparr>num_proc = n, procs = ps, stopped = False\<rparr>, h)
             else
               let p = (ps ! 0)\<lparr>pr_pid := k_getpid k h, pr_listenfd := listenfd, pr_pool_id := 0\<rparr> in
               Inr (\<lparr>num_proc = n, procs = ps[0 := p], stopped = False\<rparr>, h @ [Getpid])))"

text \<open>The singleton: the first call constructs, later calls return the same object.\<close>

definition create ::
  "kernel \<Rightarrow> ProcessPool option \<Rightarrow> fd \<Rightarrow> int \<Rightarrow> trace \<Rightarrow> (ProcessPool \<times> ProcessPool option \<times> trace) res" where
  "create k inst listenfd num_process h =
     (case inst of
        Some pool \<Rightarrow> Inr (pool, Some pool, h)
      | None \<Rightarrow> rbind (ProcessPool_new k listenfd num_process h)
                  (\<lambda>(pool, h). Inr (pool, Some pool, h)))"

text \<open>
  The array has \<open>num_proc + 1\<close> entries and every index below is taken modulo that number or
  from a loop below it; \<open>pool_wf\<close> of the properties says so.
\<close>

section \<open>\<open>run\<close>: which role a process takes\<close>

datatype role = Parent nat | Child int

text \<open>
  The search loop keeps the first index whose pool_id_ is set, or -1.
\<close>

fun find_pool_id :: "Process list \<Rightarrow> nat \<Rightarrow> int" where
  "find_pool_id [] i = -1"
| "find_pool_id (p # ps) i = (if pr_pool_id p \<noteq> -1 then int i else find_pool_id ps (i + 1))"

definition run_role :: "ProcessPool \<Rightarrow> role res" where
  "run_role pool =
     (if procs pool = [] then Inl OutOfBounds
      else if pr_pool_id (procs pool ! 0) \<noteq> -1 then Inr (Parent 0)
      else Inr (Child (find_pool_id (take (num_proc pool + 1) (procs pool)) 0)))"

section \<open>\<open>RunParent\<close>\<close>

record parent =
  pa_pool :: ProcessPool
  pa_sig_pipefd :: sig_pipe
  pa_sub_process_idx :: nat
  pa_trace :: trace

text \<open>
  The do-while loop that selects a child. Its state is the index and whether the loop goes on;
  \<open>None\<close> would be a loop that never ends.
\<close>

definition rr_body :: "Process list \<Rightarrow> nat \<Rightarrow> nat \<Rightarrow> nat \<Rightarrow> bool \<times> nat \<Rightarrow> bool \<times> nat" where
  "rr_body ps pa_pool_id n sub_process_idx st =
     (let sel = snd st in
      if pr_pid (ps ! sel) \<noteq> -1 \<and> sel \<noteq> pa_pool_id then (False, sel)
      else let sel = (sel + 1) mod (n + 1) in (sel \<noteq> sub_process_idx, sel))"

definition rr_select :: "Process list \<Rightarrow> nat \<Rightarrow> nat \<Rightarrow> nat \<Rightarrow> nat option" where
  "rr_select ps pa_pool_id n sub_process_idx =
     map_option snd
       (while_option fst (rr_body ps pa_pool_id n sub_process_idx) (True, sub_process_idx))"

definition parent_accept :: "nat \<Rightarrow> parent \<Rightarrow> parent res" where
  "parent_accept pa_pool_id s =
     (let pool = pa_pool s in
      case rr_select (procs pool) pa_pool_id (num_proc pool) (pa_sub_process_idx s) of
        None \<Rightarrow> Inl Diverges
      | Some sel \<Rightarrow>
          rbind (kPaWfd (procs pool ! sel)) (\<lambda>wfd.
          Inr (s\<lparr>pa_sub_process_idx := (sel + 1) mod (num_proc pool + 1),
                 pa_trace := pa_trace s @ [Send wfd (''1'' @ [NUL])]\<rparr>)))"

definition kill_child :: "nat \<Rightarrow> ProcessPool \<Rightarrow> nat \<Rightarrow> trace" where
  "kill_child pa_pool_id pool idx =
     (if idx = pa_pool_id then []
      else let pid = pr_pid (procs pool ! idx) in
        if pid \<noteq> -1 then [Kill pid SIGTERM] else [])"

definition kill_children :: "nat \<Rightarrow> ProcessPool \<Rightarrow> trace" where
  "kill_children pa_pool_id pool =
     concat (map (kill_child pa_pool_id pool) [0..<num_proc pool + 1])"

definition parent_signal :: "nat \<Rightarrow> char \<Rightarrow> parent \<Rightarrow> parent" where
  "parent_signal pa_pool_id c s =
     (if is_sigchld c then s
      else if is_stop_signal c then
        s\<lparr>pa_pool := (pa_pool s)\<lparr>stopped := True\<rparr>,
          pa_trace := pa_trace s @ kill_children pa_pool_id (pa_pool s)\<rparr>
      else s)"

text \<open>One event of the array that \<open>epoll_wait\<close> filled.\<close>

definition parent_event :: "kernel \<Rightarrow> nat \<Rightarrow> epoll_event \<Rightarrow> parent \<Rightarrow> parent res" where
  "parent_event k pa_pool_id ev s =
     (let pa_proc = procs (pa_pool s) ! pa_pool_id; ev_fd = data_fd ev in
      if ev_fd = pr_listenfd pa_proc then parent_accept pa_pool_id s
      else if ev_fd = fst (pa_sig_pipefd s) \<and> events ev AND EPOLLIN \<noteq> 0 then
        (let ret = k_recv k (pa_trace s) ev_fd 10;
             s = s\<lparr>pa_trace := pa_trace s @ [Recv ev_fd 10]\<rparr> in
         case ret of
           RecvErr e \<Rightarrow> Inr s
         | RecvData sigs \<Rightarrow>
             if 10 < length sigs then Inl OutOfBounds
             else Inr (fold (parent_signal pa_pool_id) sigs s))
      else Inr s)"

fun parent_events :: "kernel \<Rightarrow> nat \<Rightarrow> epoll_event list \<Rightarrow> parent \<Rightarrow> parent res" where
  "parent_events k pa [] s = Inr s"
| "parent_events k pa (ev # evs) s = rbind (parent_event k pa ev s) (parent_events k pa evs)"

text \<open>One round of the event loop: whether the loop is left by \<open>break\<close>, and the state.\<close>

definition parent_round :: "kernel \<Rightarrow> nat \<Rightarrow> parent \<Rightarrow> (bool \<times> parent) res" where
  "parent_round k pa_pool_id s =
     (let epfd = pr_epollfd (procs (pa_pool s) ! pa_pool_id);
          ret = k_epoll_wait k (pa_trace s) epfd k_max_num_epoll_event;
          s = s\<lparr>pa_trace := pa_trace s @ [EpollWait epfd k_max_num_epoll_event]\<rparr> in
      case ret of
        EpollErr e \<Rightarrow> Inr (e \<noteq> EINTR, s)
      | EpollEvents evs \<Rightarrow>
          if k_max_num_epoll_event < length evs then Inl OutOfBounds
          else rbind (parent_events k pa_pool_id evs s) (\<lambda>s. Inr (False, s)))"

text \<open>
  The event loop. It runs as long as the kernel wishes, so it takes fuel: \<open>None\<close> is a run
  longer than the fuel.
\<close>

fun parent_loop :: "nat \<Rightarrow> kernel \<Rightarrow> nat \<Rightarrow> parent \<Rightarrow> parent res option" where
  "parent_loop 0 k pa s = (if stopped (pa_pool s) then Some (Inr s) else None)"
| "parent_loop (Suc n) k pa s =
     (if stopped (pa_pool s) then Some (Inr s)
      else case parent_round k pa s of
             Inl f \<Rightarrow> Some (Inl f)
           | Inr (brk, s) \<Rightarrow> if brk then Some (Inr s) else parent_loop n k pa s)"

text \<open>The set-up before the loop, and the whole of \<open>RunParent\<close>.\<close>

definition parent_setup :: "kernel \<Rightarrow> nat \<Rightarrow> ProcessPool \<Rightarrow> trace \<Rightarrow> parent res" where
  "parent_setup k pa_pool_id pool h =
     (if length (procs pool) \<le> pa_pool_id then Inl OutOfBounds
      else
        rbind (SetupEpoll k (procs pool ! pa_pool_id) h) (\<lambda>(p, h).
        let pool = pool\<lparr>procs := (procs pool)[pa_pool_id := p]\<rparr>;
            h = TestEpollAddFdLT (pr_epollfd p) (pr_listenfd p) h in
        rbind (SetupSigPipe k p h) (\<lambda>(sig_pipefd, h).
        Inr \<lparr>pa_pool = pool, pa_sig_pipefd = sig_pipefd, pa_sub_process_idx = pa_pool_id,
             pa_trace = h\<rparr>)))"

definition RunParent :: "nat \<Rightarrow> kernel \<Rightarrow> nat \<Rightarrow> ProcessPool \<Rightarrow> trace \<Rightarrow> (ProcessPool \<times> trace) res option" where
  "RunParent fuel k pa_pool_id pool h =
     (case parent_setup k pa_pool_id pool h of
        Inl f \<Rightarrow> Some (Inl f)
      | Inr s \<Rightarrow> map_option (map_res (\<lambda>s.
            (pa_pool s, pa_trace s @ [Close (pr_epollfd (procs (pa_pool s) ! pa_pool_id))])))
          (parent_loop fuel k pa_pool_id s))"

end
