(* ===== verification/ChildLoop.thy ===== *)
theory ChildLoop
  imports ProcessPool
begin

text \<open>
  \<^verbatim>\<open>src/ProcessPool.h\<close>, the child's side: \<open>RunChild\<close> with its accept loop, its dispatch of readiness
  events and its shutdown. The template parameter \<open>T\<close> is a record of the three operations the
  code calls on it; the array of \<open>T\<close> is a function from descriptors.
\<close>

section \<open>The template parameter\<close>

record 'c client_class =
  c_init :: "fd \<Rightarrow> fd \<Rightarrow> sockaddr_in \<Rightarrow> 'c \<Rightarrow> 'c"
  c_is_init :: "'c \<Rightarrow> fd \<Rightarrow> bool"
  c_process :: "kernel \<Rightarrow> 'c \<Rightarrow> trace \<Rightarrow> ('c \<times> trace) res"

definition k_max_clientfd :: nat where "k_max_clientfd = 65536"
definition k_max_accept_n :: nat where "k_max_accept_n = 100"

record 'c child =
  ch_stop :: bool
  ch_clients :: "nat \<Rightarrow> 'c"
  ch_trace :: trace

text \<open>What does not change during the run of a child.\<close>

record child_fds =
  cf_epollfd :: fd
  cf_listenfd :: fd
  cf_ipc_pipefd :: fd
  cf_sig_pipefd :: sig_pipe

text \<open>An element of the array of clients: \<open>clients[fd]\<close> outside the array is a fault.\<close>

definition in_array :: "fd \<Rightarrow> bool" where
  "in_array fd \<longleftrightarrow> 0 \<le> fd \<and> fd < int k_max_clientfd"

definition log :: "syscall list \<Rightarrow> 'c child \<Rightarrow> 'c child" where
  "log cs s = s\<lparr>ch_trace := ch_trace s @ cs\<rparr>"

section \<open>Accepting\<close>

text \<open>The accept loop; its first argument is \<open>max_accept_n\<close>.\<close>

fun accept_loop :: "'c client_class \<Rightarrow> kernel \<Rightarrow> child_fds \<Rightarrow> nat \<Rightarrow> 'c child \<Rightarrow> 'c child res" where
  "accept_loop T k f 0 s = Inr s"
| "accept_loop T k f (Suc n) s =
     (let ret = k_accept k (ch_trace s) (cf_listenfd f);
          s = log [Accept (cf_listenfd f)] s in
      case ret of
        AcceptErr e \<Rightarrow> Inr s
      | Accepted fd addr \<Rightarrow>
          if fd < 0 then Inr s
          else if \<not> in_array fd then Inl OutOfBounds
          else if \<not> c_is_init T (ch_clients s (nat fd)) (-1) then Inr (log [Close fd] s)
          else
            (let s = s\<lparr>ch_clients := (ch_clients s)
                         (nat fd := c_init T (cf_epollfd f) fd addr (ch_clients s (nat fd)))\<rparr>;
                 s = s\<lparr>ch_trace := EpollAddFd (cf_epollfd f) fd (ch_trace s)\<rparr>;
                 s = log [FcntlGetFl fd] s;
                 s = s\<lparr>ch_trace := SetNonBlocking k fd (ch_trace s)\<rparr>;
                 s = log [FcntlGetFl fd] s in
             accept_loop T k f n s))"

text \<open>
  A message from the parent. The message buffer has ten bytes, is cleared first and is printed
  as a C string; a failed \<open>recv\<close> with EAGAIN still leads to the accept loop.
\<close>

definition child_notified :: "'c client_class \<Rightarrow> kernel \<Rightarrow> child_fds \<Rightarrow> 'c child \<Rightarrow> 'c child res" where
  "child_notified T k f s =
     (let ret = k_recv k (ch_trace s) (cf_ipc_pipefd f) 10;
          s = log [Recv (cf_ipc_pipefd f) 10] s in
      case ret of
        RecvErr e \<Rightarrow> if e \<noteq> EAGAIN then Inr s else accept_loop T k f k_max_accept_n s
      | RecvData d \<Rightarrow>
          if d = [] then Inr s
          else if 10 < length d then Inl OutOfBounds
          else if cstr_at (overwrite (replicate 10 NUL) 0 d) 0 = None then Inl Unterminated
          else accept_loop T k f k_max_accept_n s)"

section \<open>Signals and clients\<close>

definition child_signal :: "char \<Rightarrow> 'c child \<Rightarrow> 'c child" where
  "child_signal c s =
     (if is_sigchld c then s else if is_stop_signal c then s\<lparr>ch_stop := True\<rparr> else s)"

definition child_signals :: "kernel \<Rightarrow> child_fds \<Rightarrow> 'c child \<Rightarrow> 'c child res" where
  "child_signals k f s =
     (let fd = fst (cf_sig_pipefd f);
          ret = k_recv k (ch_trace s) fd 10;
          s = log [Recv fd 10] s in
      case ret of
        RecvErr e \<Rightarrow> Inr s
      | RecvData sigs \<Rightarrow>
          if 10 < length sigs then Inl OutOfBounds else Inr (fold child_signal sigs s))"

definition child_client :: "'c client_class \<Rightarrow> kernel \<Rightarrow> fd \<Rightarrow> 'c child \<Rightarrow> 'c child res" where
  "child_client T k ev_fd s =
     (if \<not> in_array ev_fd then Inl OutOfBounds
      else rbind (c_process T k (ch_clients s (nat ev_fd)) (ch_trace s)) (\<lambda>(c, h).
        Inr (s\<lparr>ch_clients := (ch_clients s)(nat ev_fd := c), ch_trace := h\<rparr>)))"

section \<open>The event loop\<close>

definition child_event :: "'c client_class \<Rightarrow> kernel \<Rightarrow> child_fds \<Rightarrow> epoll_event \<Rightarrow> 'c child \<Rightarrow> 'c child res" where
  "child_event T k f ev s =
     (if data_fd ev = cf_ipc_pipefd f \<and> events ev AND EPOLLIN \<noteq> 0 then child_notified T k f s
      else if data_fd ev = fst (cf_sig_pipefd f) \<and> events ev AND EPOLLIN \<noteq> 0 then child_signals k f s
      else if events ev AND EPOLLIN \<noteq> 0 then child_client T k (data_fd ev) s
      else Inr s)"

fun child_events :: "'c client_class \<Rightarrow> kernel \<Rightarrow> child_fds \<Rightarrow> epoll_event list \<Rightarrow> 'c child \<Rightarrow> 'c child res" where
  "child_events T k f [] s = Inr s"
| "child_events T k f (ev # evs) s = rbind (child_event T k f ev s) (child_events T k f evs)"

definition child_round :: "'c client_class \<Rightarrow> kernel \<Rightarrow> child_fds \<Rightarrow> 'c child \<Rightarrow> (bool \<times> 'c child) res" where
  "child_round T k f s =
     (let ret = k_epoll_wait k (ch_trace s) (cf_epollfd f) k_max_num_epoll_event;
          s = log [EpollWait (cf_epollfd f) k_max_num_epoll_event] s in
      case ret of
        EpollErr e \<Rightarrow> Inr (e \<noteq> EINTR, s)
      | EpollEvents evs \<Rightarrow>
          if k_max_num_epoll_event < length evs then Inl OutOfBounds
          else rbind (child_events T k f evs s) (\<lambda>s. Inr (False, s)))"

fun child_loop :: "nat \<Rightarrow> 'c client_class \<Rightarrow> kernel \<Rightarrow> child_fds \<Rightarrow> 'c child \<Rightarrow> 'c child res option" where
  "child_loop 0 T k f s = (if ch_stop s then Some (Inr s) else None)"
| "child_loop (Suc n) T k f s =
     (if ch_stop s then Some (Inr s)
      else case child_round T k f s of
             Inl e \<Rightarrow> Some (Inl e)
           | Inr (brk, s) \<Rightarrow> if brk then Some (Inr s) else child_loop n T k f s)"

section \<open>Set-up and shutdown\<close>

text \<open>The loop over all descriptors that closes the ones a client still owns.\<close>

fun close_clients :: "'c client_class \<Rightarrow> nat \<Rightarrow> nat \<Rightarrow> (nat \<Rightarrow> 'c) \<Rightarrow> trace \<Rightarrow> trace" where
  "close_clients T fd 0 clients h = h"
| "close_clients T fd (Suc n) clients h =
     close_clients T (fd + 1) n clients
       (if c_is_init T (clients fd) (int fd) then h @ [Close (int fd)] else h)"

definition child_setup ::
  "kernel \<Rightarrow> int \<Rightarrow> ProcessPool \<Rightarrow> trace \<Rightarrow> (child_fds \<times> ProcessPool \<times> trace) res" where
  "child_setup k ch_pool_id pool h =
     (if ch_pool_id < 0 \<or> int (length (procs pool)) \<le> ch_pool_id then Inl OutOfBounds
      else
        rbind (SetupEpoll k (procs pool ! nat ch_pool_id) h) (\<lambda>(p, h).
        let pool = pool\<lparr>procs := (procs pool)[nat ch_pool_id := p]\<rparr>;
            h = SetNonBlocking k (pr_listenfd p) h in
        rbind (kChRfd p) (\<lambda>ipc_pipefd.
        let h = EpollAddFd (pr_epollfd p) ipc_pipefd h in
        rbind (SetupSigPipe k p h) (\<lambda>(sig_pipefd, h).
        Inr (\<lparr>cf_epollfd = pr_epollfd p, cf_listenfd = pr_listenfd p,
              cf_ipc_pipefd = ipc_pipefd, cf_sig_pipefd = sig_pipefd\<rparr>, pool, h)))))"

text \<open>After the loop.\<close>

definition child_end :: "'c client_class \<Rightarrow> child_fds \<Rightarrow> 'c child \<Rightarrow> trace" where
  "child_end T f s =
     close_clients T 0 k_max_clientfd (ch_clients s) (ch_trace s) @ [Close (cf_epollfd f)]"

text \<open>
  \<open>RunChild\<close>; \<open>clients0\<close> is the array after the constructors of \<open>T\<close>.
\<close>

definition RunChild ::
  "nat \<Rightarrow> 'c client_class \<Rightarrow> (nat \<Rightarrow> 'c) \<Rightarrow> kernel \<Rightarrow> int \<Rightarrow> ProcessPool \<Rightarrow> trace \<Rightarrow>
     ('c child \<times> trace) res option" where
  "RunChild fuel T clients0 k ch_pool_id pool h =
     (case child_setup k ch_pool_id pool h of
        Inl e \<Rightarrow> Some (Inl e)
      | Inr (f, pool, h) \<Rightarrow>
          map_option (map_res (\<lambda>s. (s, child_end T f s)))
            (child_loop fuel T k f
               \<lparr>ch_stop = stopped pool, ch_clients = clients0, ch_trace = h\<rparr>))"

end
