(* ===== verification/PoolClient.thy ===== *)
theory PoolClient
  imports ChildLoop
begin

text \<open>
  The contract between the event loop of a child and the class it is instantiated with: which
  descriptor an object answers for, and what its operations do to that. Inside the locale it is
  proved once, for any such class, that no connection in use is ever initialised again, that the
  array keeps its ownership invariant, and that the shutdown closes exactly the owned
  descriptors.
\<close>

section \<open>The accept loop, for any class\<close>

text \<open>The calls of one accepted and registered connection; \<open>opt\<close> is what F_SETFL sets.\<close>

definition register_calls :: "child_fds \<Rightarrow> fd \<Rightarrow> int \<Rightarrow> trace" where
  "register_calls f fd opt =
     [Accept (cf_listenfd f), EpollCtlAdd (cf_epollfd f) fd (EPOLLIN OR EPOLLET), FcntlGetFl fd,
      FcntlGetFl fd, FcntlSetFl fd (opt OR O_NONBLOCK), FcntlGetFl fd]"

lemma log_simps [simp]:
  "ch_clients (log cs s) = ch_clients s" "ch_stop (log cs s) = ch_stop s"
  "ch_trace (log cs s) = ch_trace s @ cs"
  by (simp_all add: log_def)

lemma log_eq_iff: "log cs s = s\<lparr>ch_trace := ch_trace s @ cs\<rparr>"
  by (simp add: log_def)

text \<open>One round of the accept loop.\<close>

definition registered :: "'c client_class \<Rightarrow> kernel \<Rightarrow> child_fds \<Rightarrow> fd \<Rightarrow> sockaddr_in \<Rightarrow> 'c child \<Rightarrow> 'c child" where
  "registered T k f fd addr s =
     s\<lparr>ch_clients := (ch_clients s)(nat fd := c_init T (cf_epollfd f) fd addr (ch_clients s (nat fd))),
       ch_trace := ch_trace s @ register_calls f fd
         (k_getfl k (ch_trace s @ [Accept (cf_listenfd f), EpollCtlAdd (cf_epollfd f) fd (EPOLLIN OR EPOLLET),
                                   FcntlGetFl fd]) fd)\<rparr>"

lemma accept_loop_round:
  "accept_loop T k f (Suc n) s =
     (case k_accept k (ch_trace s) (cf_listenfd f) of
        AcceptErr e \<Rightarrow> Inr (log [Accept (cf_listenfd f)] s)
      | Accepted fd addr \<Rightarrow>
          if fd < 0 then Inr (log [Accept (cf_listenfd f)] s)
          else if \<not> in_array fd then Inl OutOfBounds
          else if \<not> c_is_init T (ch_clients s (nat fd)) (-1)
          then Inr (log [Accept (cf_listenfd f), Close fd] s)
          else accept_loop T k f n (registered T k f fd addr s))"
  by (simp add: Let_def registered_def register_calls_def SetNonBlocking_def EpollAddFd_def log_def
      split: accept_ret.split)

text \<open>
  The effect of a whole accept loop: it registered the connections \<open>cs\<close> in order, then ended.
\<close>

lemma accept_loop_limit:
  "accept_loop T k f n s = Inr t \<Longrightarrow>
     \<exists>cs. ch_trace t = ch_trace s @ cs \<and> length (filter is_accept cs) \<le> n \<and> ch_stop t = ch_stop s"
proof (induction n arbitrary: s)
  case (Suc n)
  show ?case
  proof (cases "k_accept k (ch_trace s) (cf_listenfd f)")
    case (AcceptErr e)
    with Suc.prems show ?thesis by (simp add: accept_loop_round is_accept_def del: accept_loop.simps) auto
  next
    case (Accepted fd addr)
    show ?thesis
    proof (cases "0 \<le> fd \<and> c_is_init T (ch_clients s (nat fd)) (-1)")
      case False
      with Accepted Suc.prems show ?thesis
        by (auto simp: accept_loop_round is_accept_def simp del: accept_loop.simps split: if_splits)
    next
      case True
      then have "accept_loop T k f n (registered T k f fd addr s) = Inr t"
        using Accepted Suc.prems by (simp add: accept_loop_round del: accept_loop.simps split: if_splits)
      from Suc.IH [OF this] show ?thesis
        by (auto simp: registered_def register_calls_def is_accept_def)
    qed
  qed
qed auto

text \<open>Signals only set the stop flag.\<close>

lemma child_signals_fold:
  "fold child_signal sigs s = s\<lparr>ch_stop := ch_stop s \<or> (\<exists>c \<in> set sigs. is_stop_signal c)\<rparr>"
proof (induction sigs arbitrary: s)
  case (Cons c sigs)
  have "\<not> (is_sigchld c \<and> is_stop_signal c)" by (auto simp: is_sigchld_def is_stop_signal_def)
  with Cons.IH show ?case by (auto simp: child_signal_def)
qed simp

lemma child_signals_clients: "child_signals k f s = Inr t \<Longrightarrow> ch_clients t = ch_clients s"
  by (auto simp: child_signals_def child_signals_fold Let_def split: recv_ret.splits if_splits)

section \<open>The contract\<close>

locale pool_client =
  fixes T :: "'c client_class"
  assumes init_owns: "c_is_init T (c_init T epollfd fd addr s) fd' \<longleftrightarrow> fd' = fd"
    and owns_one: "c_is_init T s fd \<Longrightarrow> c_is_init T s fd' \<Longrightarrow> fd = fd'"
    and process_keeps: "c_process T k s h = Inr (t, h') \<Longrightarrow> c_is_init T s fd \<Longrightarrow>
          c_is_init T t fd \<or> c_is_init T t (-1)"
    and process_calls: "c_process T k s h = Inr (t, h') \<Longrightarrow> \<exists>cs. h' = h @ cs"
begin

text \<open>Every element of the array is free or answers for its own index.\<close>

definition slots_ok :: "(nat \<Rightarrow> 'c) \<Rightarrow> bool" where
  "slots_ok clients \<longleftrightarrow>
     (\<forall>i. c_is_init T (clients i) (-1) \<or> c_is_init T (clients i) (int i))"

definition owned :: "(nat \<Rightarrow> 'c) \<Rightarrow> nat \<Rightarrow> bool" where
  "owned clients i \<longleftrightarrow> c_is_init T (clients i) (int i)"

lemma free_iff: "slots_ok clients \<Longrightarrow> c_is_init T (clients i) (-1) \<longleftrightarrow> \<not> owned clients i"
  using owns_one [of "clients i" "-1" "int i"] by (auto simp: slots_ok_def owned_def)

lemma slots_ok_init:
  "slots_ok clients \<Longrightarrow> 0 \<le> fd \<Longrightarrow>
     slots_ok (clients(nat fd := c_init T epollfd fd addr c)) \<and>
     owned (clients(nat fd := c_init T epollfd fd addr c)) (nat fd)"
  by (auto simp: slots_ok_def owned_def init_owns)

lemma slots_ok_process:
  "slots_ok clients \<Longrightarrow> c_process T k (clients i) h = Inr (t, h') \<Longrightarrow> slots_ok (clients(i := t))"
  using process_keeps [of k "clients i" h t h'] by (auto simp: slots_ok_def)

text \<open>
  The accept loop: a slot that was owned keeps its object, a slot that was free is either
  untouched or owned by a connection that is registered with epoll.
\<close>

lemma accept_loop_slots:
  assumes "slots_ok (ch_clients s)" "accept_loop T k f n s = Inr t"
  shows "slots_ok (ch_clients t) \<and>
    (\<forall>i. owned (ch_clients s) i \<longrightarrow> ch_clients t i = ch_clients s i) \<and>
    (\<forall>i. ch_clients t i = ch_clients s i \<or>
       owned (ch_clients t) i \<and>
       EpollCtlAdd (cf_epollfd f) (int i) (EPOLLIN OR EPOLLET) \<in> set (ch_trace t))"
  using assms
proof (induction n arbitrary: s)
  case (Suc n)
  show ?case
  proof (cases "k_accept k (ch_trace s) (cf_listenfd f)")
    case (AcceptErr e)
    with Suc.prems show ?thesis by (auto simp: accept_loop_round simp del: accept_loop.simps)
  next
    case (Accepted fd addr)
    show ?thesis
    proof (cases "0 \<le> fd \<and> c_is_init T (ch_clients s (nat fd)) (-1)")
      case False
      with Accepted Suc.prems show ?thesis
        by (auto simp: accept_loop_round simp del: accept_loop.simps split: if_splits)
    next
      case True
      let ?s = "registered T k f fd addr s"
      have loop: "accept_loop T k f n ?s = Inr t"
        using Accepted Suc.prems True by (simp add: accept_loop_round del: accept_loop.simps split: if_splits)
      have s: "slots_ok (ch_clients ?s)" "owned (ch_clients ?s) (nat fd)"
        "\<And>i. i \<noteq> nat fd \<Longrightarrow> ch_clients ?s i = ch_clients s i" "\<not> owned (ch_clients s) (nat fd)"
        using slots_ok_init [OF Suc.prems(1)] free_iff [OF Suc.prems(1)] True
        by (simp_all add: registered_def)
      note IH = Suc.IH [OF s(1) loop]
      have kept: "ch_clients t i = ch_clients s i" if "owned (ch_clients s) i" for i
      proof -
        have "i \<noteq> nat fd" using that s(4) by blast
        with s(3) that have "owned (ch_clients ?s) i" by (simp add: owned_def)
        with IH s(3) \<open>i \<noteq> nat fd\<close> show ?thesis by simp
      qed
      have new: "owned (ch_clients t) i \<and>
          EpollCtlAdd (cf_epollfd f) (int i) (EPOLLIN OR EPOLLET) \<in> set (ch_trace t)"
        if "ch_clients t i \<noteq> ch_clients s i" for i
      proof (cases "i = nat fd")
        case True
        with IH s(2) have "ch_clients t i = ch_clients ?s i" by simp
        then have "owned (ch_clients t) i" using s(2) True by (simp add: owned_def)
        moreover obtain cs where "ch_trace t = ch_trace ?s @ cs" using accept_loop_limit [OF loop] by blast
        ultimately show ?thesis using True \<open>0 \<le> fd \<and> _\<close>
          by (simp add: registered_def register_calls_def)
      next
        case False
        with IH s(3) that show ?thesis by metis
      qed
      from IH kept new show ?thesis by blast
    qed
  qed
qed simp

text \<open>Every event keeps the ownership invariant.\<close>

lemma child_notified_slots:
  "slots_ok (ch_clients s) \<Longrightarrow> child_notified T k f s = Inr t \<Longrightarrow> slots_ok (ch_clients t)"
  using accept_loop_slots [of "log [Recv (cf_ipc_pipefd f) 10] s" k f k_max_accept_n t]
  by (auto simp: child_notified_def Let_def split: recv_ret.splits if_splits)

lemma child_client_slots:
  "slots_ok (ch_clients s) \<Longrightarrow> child_client T k fd s = Inr t \<Longrightarrow> slots_ok (ch_clients t)"
  using slots_ok_process [of "ch_clients s" k "nat fd" "ch_trace s"]
  by (auto simp: child_client_def rbind_eq_Inr_iff split: if_splits)

lemma child_event_slots:
  "slots_ok (ch_clients s) \<Longrightarrow> child_event T k f ev s = Inr t \<Longrightarrow> slots_ok (ch_clients t)"
  using child_notified_slots [of s k f t] child_signals_clients [of k f s t]
    child_client_slots [of s k "data_fd ev" t]
  by (auto simp: child_event_def split: if_splits)

lemma child_events_slots:
  "slots_ok (ch_clients s) \<Longrightarrow> child_events T k f evs s = Inr t \<Longrightarrow> slots_ok (ch_clients t)"
  by (induction evs arbitrary: s) (auto simp: rbind_eq_Inr_iff dest: child_event_slots)

lemma child_round_slots:
  "slots_ok (ch_clients s) \<Longrightarrow> child_round T k f s = Inr (brk, t) \<Longrightarrow> slots_ok (ch_clients t)"
  using child_events_slots [of "log [EpollWait (cf_epollfd f) k_max_num_epoll_event] s" k f]
  by (auto simp: child_round_def Let_def rbind_eq_Inr_iff split: epoll_ret.splits if_splits)

lemma child_loop_slots:
  "slots_ok (ch_clients s) \<Longrightarrow> child_loop fuel T k f s = Some (Inr t) \<Longrightarrow> slots_ok (ch_clients t)"
proof (induction fuel arbitrary: s)
  case (Suc fuel)
  then show ?case
    by (auto split: if_splits sum.splits prod.splits dest: child_round_slots)
qed (auto split: if_splits)

text \<open>The shutdown closes exactly the owned descriptors, in ascending order.\<close>

lemma close_clients_owned:
  "close_clients T i n clients h = h @ map (\<lambda>fd. Close (int fd)) (filter (owned clients) [i..<i + n])"
proof (induction n arbitrary: i h)
  case (Suc n)
  have "[i..<i + Suc n] = i # [Suc i..<Suc i + n]" by (simp add: upt_conv_Cons)
  with Suc show ?case by (simp add: owned_def)
qed simp

lemma RunChild_shutdown:
  assumes "RunChild fuel T clients0 k ch pool h = Some (Inr (s, h'))" "slots_ok clients0"
  shows "\<exists>epollfd. slots_ok (ch_clients s) \<and>
    h' = ch_trace s @ map (\<lambda>fd. Close (int fd)) (filter (owned (ch_clients s)) [0..<k_max_clientfd]) @
      [Close epollfd]"
proof -
  obtain f pool' h1 where su: "child_setup k ch pool h = Inr (f, pool', h1)"
    using assms(1) by (cases "child_setup k ch pool h") (auto simp: RunChild_def)
  with assms(1) have
    "child_loop fuel T k f \<lparr>ch_stop = stopped pool', ch_clients = clients0, ch_trace = h1\<rparr> = Some (Inr s)"
    "h' = close_clients T 0 k_max_clientfd (ch_clients s) (ch_trace s) @ [Close (cf_epollfd f)]"
    by (auto simp: RunChild_def child_end_def map_res_eq_simps)
  with child_loop_slots [of "\<lparr>ch_stop = stopped pool', ch_clients = clients0, ch_trace = h1\<rparr>"] assms(2)
  show ?thesis by (auto simp: close_clients_owned)
qed

end

end
