(* ===== verification/PoolClients.thy ===== *)
theory PoolClients
  imports PoolClient RequestProcess
begin

text \<open>
  The two classes the repository instantiates the pool with: \<open>ReqStatMach\<close> (in
  \<^verbatim>\<open>src/MainMultiProc.cc\<close>) and the printing \<open>client\<close> of \<^verbatim>\<open>test/TestProcessPool.cc\<close>. Both satisfy the contract.
\<close>

section \<open>\<open>ReqStatMach\<close>\<close>

definition reqstat_class :: "req_stat_mach client_class" where
  "reqstat_class = \<lparr>c_init = init, c_is_init = is_init, c_process = process\<rparr>"

lemma reqstat_class_simps [simp]:
  "c_init reqstat_class = init" "c_is_init reqstat_class = is_init"
  "c_process reqstat_class = process"
  by (simp_all add: reqstat_class_def)

lemma process_sockfd: "process k s h = Inr (t, h') \<Longrightarrow> m_sockfd t = -1"
  by (auto simp: process_recv_loop map_res_eq_simps)

lemma process_extends: "process k s h = Inr (t, h') \<Longrightarrow> \<exists>cs. h' = h @ cs"
  by (auto simp: process_recv_loop map_res_eq_simps dest: recv_loop_trace)

interpretation reqstat: pool_client reqstat_class
  by unfold_locales (auto simp: is_init_def process_sockfd dest: process_extends)

text \<open>The constructor leaves every element of the array free.\<close>

lemma new_slots_free: "reqstat.slots_ok (\<lambda>i. ReqStatMach_new (junk i))"
  by (simp add: reqstat.slots_ok_def is_init_def ReqStatMach_new_def)

section \<open>The test client\<close>

definition tc_recvbuf_size :: nat where "tc_recvbuf_size = 32"

record test_client =
  tc_epollfd :: fd
  tc_sockfd :: fd
  tc_addr :: sockaddr_in
  tc_recvbuf :: "char list"

definition tc_new :: "test_client \<Rightarrow> test_client" where
  "tc_new junk = junk\<lparr>tc_sockfd := -1\<rparr>"

definition tc_init :: "fd \<Rightarrow> fd \<Rightarrow> sockaddr_in \<Rightarrow> test_client \<Rightarrow> test_client" where
  "tc_init epollfd sockfd addr s =
     s\<lparr>tc_epollfd := epollfd, tc_sockfd := sockfd, tc_addr := addr,
       tc_recvbuf := replicate tc_recvbuf_size NUL\<rparr>"

definition tc_is_init :: "test_client \<Rightarrow> fd \<Rightarrow> bool" where
  "tc_is_init s expected_sockfd \<longleftrightarrow> tc_sockfd s = expected_sockfd"

text \<open>
  One turn of the receive loop: whether it goes on, and the state. The bytes received are
  printed as a C string from the start of the buffer, whose last byte \<open>recv\<close> never reaches.
\<close>

definition tc_turn :: "kernel \<Rightarrow> bool \<times> (test_client \<times> trace) res \<Rightarrow> bool \<times> (test_client \<times> trace) res" where
  "tc_turn k st =
     (case snd st of
        Inl f \<Rightarrow> (False, Inl f)
      | Inr (s, h) \<Rightarrow>
          (let n = tc_recvbuf_size - 1;
               ret = k_recv k h (tc_sockfd s) n;
               h = h @ [Recv (tc_sockfd s) n] in
           case ret of
             RecvErr e \<Rightarrow> (False, Inr (s, h))
           | RecvData d \<Rightarrow>
               if d = [] then (False, Inr (s, h))
               else if n < length d then (False, Inl OutOfBounds)
               else
                 (let s = s\<lparr>tc_recvbuf := overwrite (tc_recvbuf s) 0 d\<rparr> in
                  if cstr_at (tc_recvbuf s) 0 = None then (False, Inl Unterminated)
                  else (True, Inr (s, h)))))"

definition tc_process :: "kernel \<Rightarrow> test_client \<Rightarrow> trace \<Rightarrow> (test_client \<times> trace) res" where
  "tc_process k s h =
     (case while_option fst (tc_turn k) (True, Inr (s, h)) of
        None \<Rightarrow> Inl Diverges
      | Some st \<Rightarrow> snd st)"

definition test_class :: "test_client client_class" where
  "test_class = \<lparr>c_init = tc_init, c_is_init = tc_is_init, c_process = tc_process\<rparr>"

lemma test_class_simps [simp]:
  "c_init test_class = tc_init" "c_is_init test_class = tc_is_init"
  "c_process test_class = tc_process"
  by (simp_all add: test_class_def)

text \<open>The receive loop keeps the socket and only adds calls.\<close>

definition tc_same :: "test_client \<Rightarrow> trace \<Rightarrow> bool \<times> (test_client \<times> trace) res \<Rightarrow> bool" where
  "tc_same s h st \<longleftrightarrow>
     (case snd st of Inl f \<Rightarrow> True | Inr (t, h') \<Rightarrow> tc_sockfd t = tc_sockfd s \<and> (\<exists>cs. h' = h @ cs))"

lemma tc_turn_same: "tc_same s h st \<Longrightarrow> tc_same s h (tc_turn k st)"
  by (auto simp: tc_same_def tc_turn_def Let_def split: sum.splits recv_ret.splits if_splits)

lemma tc_process_same:
  assumes "tc_process k s h = Inr (t, h')"
  shows "tc_sockfd t = tc_sockfd s \<and> (\<exists>cs. h' = h @ cs)"
proof -
  obtain st where st: "while_option fst (tc_turn k) (True, Inr (s, h)) = Some st" "snd st = Inr (t, h')"
    using assms by (auto simp: tc_process_def split: option.splits)
  have "tc_same s h st"
    by (rule while_option_rule [where P = "tc_same s h", OF _ st(1)])
       (erule tc_turn_same, simp add: tc_same_def)
  with st(2) show ?thesis by (simp add: tc_same_def)
qed

interpretation testc: pool_client test_class
  by unfold_locales (auto simp: tc_is_init_def tc_init_def dest: tc_process_same)

lemma tc_new_slots_free: "testc.slots_ok (\<lambda>i. tc_new (junk i))"
  by (simp add: testc.slots_ok_def tc_is_init_def tc_new_def)

end
