(* ===== verification/ParentLemmas.thy ===== *)
theory ParentLemmas
  imports ProcessPool
begin

text \<open>
  What the parent of the pool does: the constructor's result, the round-robin loop, the
  rotation of the notifications, the kill of all children, and the absence of faults.
\<close>

section \<open>The constructor\<close>

definition pool_wf :: "ProcessPool \<Rightarrow> bool" where
  "pool_wf pool \<longleftrightarrow> length (procs pool) = num_proc pool + 1"

text \<open>The children exist and the parent holds a pipe to each.\<close>

definition children_ready :: "ProcessPool \<Rightarrow> bool" where
  "children_ready pool \<longleftrightarrow>
     (\<forall>i. 1 \<le> i \<and> i \<le> num_proc pool \<longrightarrow>
        0 < pr_pid (procs pool ! i) \<and> pr_fa_pipefd (procs pool ! i) \<noteq> None)"

lemma create_children_parent:
  "create_children k l n i ps h = Inr (False, ps', h') \<Longrightarrow> length ps = n + 1 \<Longrightarrow>
     length ps' = n + 1 \<and> (\<forall>j < i. ps' ! j = ps ! j) \<and>
     (\<forall>j. i \<le> j \<and> j \<le> n \<longrightarrow> 0 < pr_pid (ps' ! j) \<and> pr_fa_pipefd (ps' ! j) \<noteq> None)"
proof (induction k l n i ps h rule: create_children.induct)
  case (1 k l n i ps h)
  show ?case
  proof (cases "i < n + 1")
    case False
    with "1.prems" show ?thesis by (subst (asm) create_children.simps) auto
  next
    case True
    then obtain r w where rw: "k_socketpair k h = Some (r, w)"
      using "1.prems" by (subst (asm) create_children.simps) (auto split: option.splits)
    define h1 where "h1 = h @ [SocketPair]"
    define p where "p = (ps ! i)\<lparr>pr_fa_pipefd := Some (r, w), pr_pid := k_fork k h1\<rparr>"
    have pid: "0 < k_fork k h1"
      and rec: "create_children k l n (i + 1) (ps[i := p])
        (SetNonBlocking k w (h1 @ [Fork]) @ [Close r]) = Inr (False, ps', h')"
      using "1.prems"(1) True rw
      by (subst (asm) create_children.simps, simp add: Let_def h1_def p_def split: if_splits)+
    have IH: "length ps' = n + 1 \<and> (\<forall>j < i + 1. ps' ! j = ps[i := p] ! j) \<and>
      (\<forall>j. i + 1 \<le> j \<and> j \<le> n \<longrightarrow> 0 < pr_pid (ps' ! j) \<and> pr_fa_pipefd (ps' ! j) \<noteq> None)"
      using "1.IH" [OF True rw refl, of h1 "k_fork k h1" "h1 @ [Fork]" p] pid rec "1.prems"(2)
      by (simp add: h1_def p_def)
    then have "ps' ! i = p" using "1.prems"(2) True by simp
    moreover have "\<forall>j < i. ps' ! j = ps ! j" using IH by simp
    ultimately show ?thesis using IH pid by (auto simp: p_def dest: le_neq_implies_less)
  qed
qed

lemma create_children_child:
  "create_children k l n i ps h = Inr (True, ps', h') \<Longrightarrow> length ps = n + 1 \<Longrightarrow>
     length ps' = n + 1 \<and>
     (\<exists>c. i \<le> c \<and> c \<le> n \<and> pr_pool_id (ps' ! c) = int c \<and> pr_listenfd (ps' ! c) = l \<and>
        pr_pid (ps' ! c) = 0 \<and> pr_fa_pipefd (ps' ! c) \<noteq> None \<and>
        (\<forall>j \<le> n. j \<noteq> c \<longrightarrow> pr_pool_id (ps' ! j) = pr_pool_id (ps ! j)))"
proof (induction k l n i ps h rule: create_children.induct)
  case (1 k l n i ps h)
  have i: "i < n + 1" using "1.prems" by (subst (asm) create_children.simps) (auto split: if_splits)
  then obtain r w where rw: "k_socketpair k h = Some (r, w)"
    using "1.prems" by (subst (asm) create_children.simps) (auto split: option.splits)
  define h1 where "h1 = h @ [SocketPair]"
  define p where "p = (ps ! i)\<lparr>pr_fa_pipefd := Some (r, w), pr_pid := k_fork k h1\<rparr>"
  note unf = create_children.simps [of k l n i ps h]
  show ?case
  proof (cases "k_fork k h1 = 0")
    case True
    then have "ps' = ps[i := p\<lparr>pr_listenfd := l, pr_pool_id := int i\<rparr>]"
      using "1.prems"(1) i rw by (simp add: unf Let_def h1_def p_def)
    then show ?thesis using "1.prems"(2) i True
      by (auto simp: p_def intro!: exI [of _ i])
  next
    case False
    have pid: "\<not> k_fork k h1 < 0"
      and rec: "create_children k l n (i + 1) (ps[i := p])
        (SetNonBlocking k w (h1 @ [Fork]) @ [Close r]) = Inr (True, ps', h')"
      using "1.prems"(1) i rw False
      by (simp_all add: unf Let_def h1_def p_def split: if_splits)
    have "length ps' = n + 1 \<and> (\<exists>c. i + 1 \<le> c \<and> c \<le> n \<and> pr_pool_id (ps' ! c) = int c \<and>
        pr_listenfd (ps' ! c) = l \<and> pr_pid (ps' ! c) = 0 \<and> pr_fa_pipefd (ps' ! c) \<noteq> None \<and>
        (\<forall>j \<le> n. j \<noteq> c \<longrightarrow> pr_pool_id (ps' ! j) = pr_pool_id (ps[i := p] ! j)))"
      using "1.IH" [OF i rw refl, of h1 "k_fork k h1" "h1 @ [Fork]" p] pid False rec "1.prems"(2)
      by (simp add: h1_def p_def)
    then obtain c where c: "length ps' = n + 1" "i + 1 \<le> c" "c \<le> n" "pr_pool_id (ps' ! c) = int c"
        "pr_listenfd (ps' ! c) = l" "pr_pid (ps' ! c) = 0" "pr_fa_pipefd (ps' ! c) \<noteq> None"
        "\<forall>j \<le> n. j \<noteq> c \<longrightarrow> pr_pool_id (ps' ! j) = pr_pool_id (ps[i := p] ! j)" by blast
    moreover have "pr_pool_id (ps[i := p] ! j) = pr_pool_id (ps ! j)" if "j \<le> n" for j
      using "1.prems"(2) i that by (simp add: p_def nth_list_update)
    ultimately show ?thesis by (auto intro!: exI [of _ c])
  qed
qed

lemma find_pool_id_first:
  "c < length ps \<Longrightarrow> pr_pool_id (ps ! c) \<noteq> -1 \<Longrightarrow> (\<forall>j < c. pr_pool_id (ps ! j) = -1) \<Longrightarrow>
     find_pool_id ps i = int (i + c)"
proof (induction ps arbitrary: c i)
  case (Cons p ps)
  show ?case
  proof (cases c)
    case 0
    with Cons.prems show ?thesis by simp
  next
    case (Suc d)
    then have "pr_pool_id p = -1" using Cons.prems(3) by (auto dest: spec [of _ 0])
    moreover have "find_pool_id ps (i + 1) = int (i + 1 + d)"
      using Cons.prems Suc by (intro Cons.IH) auto
    ultimately show ?thesis using Suc by simp
  qed
qed simp

lemma ProcessPool_new_roles:
  assumes "ProcessPool_new k listenfd num_process h = Inr (pool, h')"
  shows "pool_wf pool \<and> num_proc pool = nat num_process \<and> num_proc pool \<le> 10 \<and> \<not> stopped pool \<and>
    (run_role pool = Inr (Parent 0) \<and> children_ready pool \<and>
       pr_listenfd (procs pool ! 0) = listenfd \<and> pr_fa_pipefd (procs pool ! 0) = None
     \<or> (\<exists>c. 1 \<le> c \<and> c \<le> num_proc pool \<and> run_role pool = Inr (Child (int c)) \<and>
          pr_listenfd (procs pool ! c) = listenfd \<and> pr_pid (procs pool ! c) = 0 \<and>
          pr_fa_pipefd (procs pool ! c) \<noteq> None))"
proof -
  define n where "n = nat num_process"
  have bound: "n \<le> 10" and new: "0 \<le> num_process \<and> num_process \<le> k_max_num_process"
    using assms by (auto simp: ProcessPool_new_def n_def k_max_num_process_def split: if_splits)
  obtain child ps h1 where cc: "create_children k listenfd n 1 (replicate (n + 1) Process_new) h = Inr (child, ps, h1)"
    using assms new by (auto simp: ProcessPool_new_def n_def [symmetric] rbind_eq_Inr_iff)
  have pool: "pool = \<lparr>num_proc = n,
      procs = (if child then ps else ps[0 := (ps ! 0)\<lparr>pr_pid := k_getpid k h1, pr_listenfd := listenfd, pr_pool_id := 0\<rparr>]),
      stopped = False\<rparr>"
    using assms new cc by (auto simp: ProcessPool_new_def n_def [symmetric] Let_def split: if_splits)
  show ?thesis
  proof (cases child)
    case False
    have c: "length ps = n + 1" "ps ! 0 = Process_new"
        "\<forall>j. 1 \<le> j \<and> j \<le> n \<longrightarrow> 0 < pr_pid (ps ! j) \<and> pr_fa_pipefd (ps ! j) \<noteq> None"
      using create_children_parent [of k listenfd n 1 _ h ps h1] cc False by simp_all
    then have "procs pool \<noteq> []" "pr_pool_id (procs pool ! 0) \<noteq> -1" using pool False by auto
    with c pool False bound show ?thesis
      by (auto simp: pool_wf_def children_ready_def run_role_def n_def Process_new_def)
  next
    case True
    have "create_children k listenfd n 1 (replicate (n + 1) Process_new) h = Inr (True, ps, h1)"
      using cc True by simp
    from create_children_child [OF this length_replicate] obtain c where
      c: "length ps = n + 1" "1 \<le> c" "c \<le> n" "pr_pool_id (ps ! c) = int c" "pr_listenfd (ps ! c) = listenfd"
        "pr_pid (ps ! c) = 0" "pr_fa_pipefd (ps ! c) \<noteq> None"
      and others: "\<forall>j \<le> n. j \<noteq> c \<longrightarrow>
          pr_pool_id (ps ! j) = pr_pool_id (replicate (n + 1) Process_new ! j)"
      by blast
    have "replicate (n + 1) Process_new ! j = Process_new" if "j \<le> n" for j
      using that by (intro nth_replicate) simp
    then have others: "\<forall>j \<le> n. j \<noteq> c \<longrightarrow> pr_pool_id (ps ! j) = -1"
      using others by (simp add: Process_new_def del: replicate_Suc)
    from c have "find_pool_id ps 0 = int (0 + c)" using others by (intro find_pool_id_first) auto
    moreover have "pr_pool_id (ps ! 0) = -1" using c others by simp
    moreover have "ps \<noteq> []" using c by auto
    ultimately have "run_role pool = Inr (Child (int c))"
      using pool True c by (simp add: run_role_def)
    with pool True c bound show ?thesis by (auto simp: pool_wf_def n_def)
  qed
qed

section \<open>The round-robin loop\<close>

definition live_child :: "Process list \<Rightarrow> nat \<Rightarrow> nat \<Rightarrow> bool" where
  "live_child ps pa i \<longleftrightarrow> pr_pid (ps ! i) \<noteq> -1 \<and> i \<noteq> pa"

lemma rr_body_simps:
  "live_child ps pa sel \<Longrightarrow> rr_body ps pa n start (True, sel) = (False, sel)"
  "\<not> live_child ps pa sel \<Longrightarrow>
     rr_body ps pa n start (True, sel) = ((sel + 1) mod (n + 1) \<noteq> start, (sel + 1) mod (n + 1))"
  by (auto simp: rr_body_def live_child_def Let_def)

lemma while_option_flag:
  "while_option fst b (True, x) = while_option fst b (b (True, x))"
  "while_option fst b (False, x) = Some (False, x)"
  by (subst while_option_unfold, simp)+

lemma mod_add_ne_start:
  "start < m \<Longrightarrow> 0 < i \<Longrightarrow> i < m \<Longrightarrow> (start + i) mod m \<noteq> (start :: nat)"
  by (cases "start + i < m") (auto simp: mod_if)

lemma rr_found:
  assumes "start < n + 1" "d < n + 1" "live_child ps pa ((start + d) mod (n + 1))"
    "\<forall>i < d. \<not> live_child ps pa ((start + i) mod (n + 1))" "j \<le> d"
  shows "while_option fst (rr_body ps pa n start) (True, (start + j) mod (n + 1)) =
           Some (False, (start + d) mod (n + 1))"
  using assms(5)
proof (induction "d - j" arbitrary: j)
  case 0
  then have "j = d" by simp
  with assms(3) show ?case by (subst while_option_flag) (simp only: rr_body_simps while_option_flag)
next
  case (Suc x)
  let ?sel = "(start + j) mod (n + 1)"
  have "\<not> live_child ps pa ?sel" using Suc.hyps(2) assms(4) by simp
  moreover have next_sel: "(?sel + 1) mod (n + 1) = (start + (j + 1)) mod (n + 1)"
    by (simp add: mod_Suc_eq)
  moreover have "(start + (j + 1)) mod (n + 1) \<noteq> start"
    using mod_add_ne_start [of start "n + 1" "j + 1"] Suc.hyps(2) assms(1,2) by simp
  moreover have "while_option fst (rr_body ps pa n start) (True, (start + (j + 1)) mod (n + 1)) =
      Some (False, (start + d) mod (n + 1))"
    using Suc.hyps(2) by (intro Suc.hyps(1)) auto
  ultimately show ?case
    by (subst while_option_flag) (simp only: rr_body_simps(2) next_sel simp_thms)
qed

lemma rr_none:
  assumes "start < n + 1" "\<forall>i < n + 1. \<not> live_child ps pa ((start + i) mod (n + 1))" "j < n + 1"
  shows "while_option fst (rr_body ps pa n start) (True, (start + j) mod (n + 1)) = Some (False, start)"
  using assms(3)
proof (induction "n - j" arbitrary: j)
  case 0
  then have "j = n" by simp
  have "\<not> live_child ps pa ((start + n) mod (n + 1))" using assms(2) by simp
  moreover have "((start + n) mod (n + 1) + 1) mod (n + 1) = start"
  proof -
    have "((start + n) mod (n + 1) + 1) mod (n + 1) = (start + (n + 1)) mod (n + 1)"
      by (simp add: mod_Suc_eq)
    also have "\<dots> = start" using assms(1) by (simp only: mod_add_self2 mod_less)
    finally show ?thesis .
  qed
  ultimately show ?case unfolding \<open>j = n\<close>
    by (subst while_option_flag) (simp only: rr_body_simps(2) simp_thms while_option_flag)
next
  case (Suc x)
  let ?sel = "(start + j) mod (n + 1)"
  have "\<not> live_child ps pa ?sel" using Suc.prems assms(2) by simp
  moreover have next_sel: "(?sel + 1) mod (n + 1) = (start + (j + 1)) mod (n + 1)"
    by (simp add: mod_Suc_eq)
  moreover have "(start + (j + 1)) mod (n + 1) \<noteq> start"
    using mod_add_ne_start [of start "n + 1" "j + 1"] Suc.hyps(2) assms(1) by simp
  moreover have "while_option fst (rr_body ps pa n start) (True, (start + (j + 1)) mod (n + 1)) =
      Some (False, start)"
    using Suc.hyps(2) by (intro Suc.hyps(1)) auto
  ultimately show ?case
    by (subst while_option_flag) (simp only: rr_body_simps(2) next_sel simp_thms)
qed

text \<open>The loop always ends: at the first live child from the start on, or at the start.\<close>

lemma rr_select_first:
  assumes "start < n + 1" "d < n + 1" "live_child ps pa ((start + d) mod (n + 1))"
    "\<forall>i < d. \<not> live_child ps pa ((start + i) mod (n + 1))"
  shows "rr_select ps pa n start = Some ((start + d) mod (n + 1))"
  using rr_found [OF assms, of 0] assms(1) by (simp add: rr_select_def)

lemma rr_select_none:
  assumes "start < n + 1" "\<forall>i < n + 1. \<not> live_child ps pa ((start + i) mod (n + 1))"
  shows "rr_select ps pa n start = Some start"
  using rr_none [OF assms, of 0] assms(1) by (simp add: rr_select_def)

lemma children_readyD:
  "children_ready pool \<Longrightarrow> 1 \<le> i \<Longrightarrow> i \<le> num_proc pool \<Longrightarrow>
     pr_pid (procs pool ! i) \<noteq> -1 \<and> (\<exists>r w. pr_fa_pipefd (procs pool ! i) = Some (r, w))"
  by (force simp: children_ready_def)

lemma rr_select_ready:
  assumes "children_ready pool" "1 \<le> num_proc pool" "start \<le> num_proc pool"
  shows "rr_select (procs pool) 0 (num_proc pool) start = Some (if start = 0 then 1 else start)"
proof (cases "start = 0")
  case True
  have "live_child (procs pool) 0 1" "\<not> live_child (procs pool) 0 0"
    using assms(2) children_readyD [OF assms(1), of 1] by (simp_all add: live_child_def)
  then show ?thesis
    using rr_select_first [of 0 "num_proc pool" 1 "procs pool" 0] assms(2) True by simp
next
  case False
  then have "live_child (procs pool) 0 start"
    using assms(3) children_readyD [OF assms(1), of start] by (simp add: live_child_def)
  then show ?thesis
    using rr_select_first [of start "num_proc pool" 0 "procs pool" 0] assms(3) False by simp
qed

section \<open>Rotation\<close>

text \<open>
  The notification number \<open>c\<close> (from 0): the two bytes of the string "1" on the pipe to the
  child \<open>c mod n + 1\<close>.
\<close>

definition notice :: "ProcessPool \<Rightarrow> nat \<Rightarrow> syscall" where
  "notice pool c =
     Send (snd (the (pr_fa_pipefd (procs pool ! (c mod num_proc pool + 1))))) (''1'' @ [NUL])"

text \<open>
  The state of the loop after \<open>c\<close> notifications: the pool's processes have not changed and the
  round-robin index leads to the next child in turn.
\<close>

definition same_pool :: "ProcessPool \<Rightarrow> parent \<Rightarrow> bool" where
  "same_pool pool s \<longleftrightarrow> procs (pa_pool s) = procs pool \<and> num_proc (pa_pool s) = num_proc pool"

definition in_turn :: "nat \<Rightarrow> nat \<Rightarrow> nat \<Rightarrow> bool" where
  "in_turn n sub c \<longleftrightarrow> sub \<le> n \<and> (if sub = 0 then 1 else sub) = c mod n + 1"

lemma in_turn_0: "1 \<le> n \<Longrightarrow> in_turn n 0 0"
  by (simp add: in_turn_def)

lemma in_turn_Suc:
  assumes "in_turn n sub c" "1 \<le> n"
  shows "in_turn n (((if sub = 0 then 1 else sub) + 1) mod (n + 1)) (Suc c)"
proof -
  have sel: "(if sub = 0 then 1 else sub) = c mod n + 1" using assms(1) by (simp add: in_turn_def)
  have "c mod n < n" using assms(2) by simp
  then show ?thesis unfolding sel in_turn_def by (auto simp: mod_Suc)
qed

lemma parent_accept_ready:
  assumes "children_ready pool" "1 \<le> num_proc pool" "same_pool pool s"
    "in_turn (num_proc pool) (pa_sub_process_idx s) c"
  shows "\<exists>t. parent_accept 0 s = Inr t \<and> pa_trace t = pa_trace s @ [notice pool c] \<and>
    pa_pool t = pa_pool s \<and> pa_sig_pipefd t = pa_sig_pipefd s \<and>
    in_turn (num_proc pool) (pa_sub_process_idx t) (Suc c)"
proof -
  let ?sel = "if pa_sub_process_idx s = 0 then 1 else pa_sub_process_idx s"
  have sel: "rr_select (procs (pa_pool s)) 0 (num_proc (pa_pool s)) (pa_sub_process_idx s) = Some ?sel"
    using rr_select_ready [OF assms(1,2)] assms(3,4) by (simp add: same_pool_def in_turn_def)
  have c: "?sel = c mod num_proc pool + 1" using assms(4) by (simp add: in_turn_def)
  moreover have "c mod num_proc pool < num_proc pool" using assms(2) by simp
  ultimately obtain r w where "pr_fa_pipefd (procs pool ! ?sel) = Some (r, w)"
    using children_readyD [OF assms(1), of ?sel] by auto
  then have "parent_accept 0 s = Inr (s\<lparr>
      pa_sub_process_idx := (?sel + 1) mod (num_proc pool + 1), pa_trace := pa_trace s @ [notice pool c]\<rparr>)"
    using sel assms(3) c by (simp add: parent_accept_def same_pool_def kPaWfd_def notice_def)
  with in_turn_Suc [OF assms(4,2)] show ?thesis by simp
qed

section \<open>Signals\<close>

lemma kill_children_ready:
  assumes "children_ready pool"
  shows "kill_children 0 pool = map (\<lambda>i. Kill (pr_pid (procs pool ! i)) SIGTERM) [1..<num_proc pool + 1]"
proof -
  have "kill_child 0 pool i = [Kill (pr_pid (procs pool ! i)) SIGTERM]"
    if "1 \<le> i" "i \<le> num_proc pool" for i
    using children_readyD [OF assms that] that by (simp add: kill_child_def)
  then have "map (kill_child 0 pool) [1..<num_proc pool + 1] =
      map (\<lambda>i. [Kill (pr_pid (procs pool ! i)) SIGTERM]) [1..<num_proc pool + 1]"
    by (intro map_cong refl) auto
  moreover have "kill_child 0 pool 0 = []" by (simp add: kill_child_def)
  moreover have "[0..<num_proc pool + 1] = 0 # [1..<num_proc pool + 1]"
    by (simp add: upt_conv_Cons)
  ultimately show ?thesis by (simp only: kill_children_def list.map concat.simps append_Nil)
    (simp add: comp_def)
qed

lemma kill_child_stopped: "kill_child pa (pool\<lparr>stopped := b\<rparr>) = kill_child pa pool"
  by (rule ext) (simp add: kill_child_def Let_def)

lemma kill_children_stopped [simp]: "kill_children pa (pool\<lparr>stopped := b\<rparr>) = kill_children pa pool"
  by (simp add: kill_children_def kill_child_stopped)

lemma handle_signals:
  "fold (parent_signal pa) sigs s =
     s\<lparr>pa_pool := (pa_pool s)\<lparr>stopped := stopped (pa_pool s) \<or> (\<exists>c \<in> set sigs. is_stop_signal c)\<rparr>,
       pa_trace := pa_trace s @
         concat (replicate (length (filter is_stop_signal sigs)) (kill_children pa (pa_pool s)))\<rparr>"
proof (induction sigs arbitrary: s)
  case (Cons c sigs)
  have "\<not> (is_sigchld c \<and> is_stop_signal c)" by (auto simp: is_sigchld_def is_stop_signal_def)
  with Cons.IH show ?case by (auto simp: parent_signal_def)
qed simp

section \<open>The event loop\<close>

text \<open>
  What holds after \<open>c\<close> notifications: the processes are the ones of the pool, the bytes sent are
  the notices 0 to \<open>c - 1\<close> in order, and a stopped loop has killed every child.
\<close>

definition rotating :: "ProcessPool \<Rightarrow> trace \<Rightarrow> nat \<Rightarrow> parent \<Rightarrow> bool" where
  "rotating pool h0 c s \<longleftrightarrow>
     same_pool pool s \<and> in_turn (num_proc pool) (pa_sub_process_idx s) c \<and>
     filter is_send (pa_trace s) = h0 @ map (notice pool) [0..<c] \<and>
     (stopped (pa_pool s) \<longrightarrow> set (kill_children 0 pool) \<subseteq> set (pa_trace s))"

lemma kill_children_same: "same_pool pool s \<Longrightarrow> kill_children pa (pa_pool s) = kill_children pa pool"
proof -
  assume "same_pool pool s"
  then have "kill_child pa (pa_pool s) = kill_child pa pool"
    by (intro ext) (simp add: kill_child_def same_pool_def)
  with \<open>same_pool pool s\<close> show ?thesis by (simp add: kill_children_def same_pool_def)
qed

lemma kill_children_no_send: "filter is_send (kill_children pa pool) = []"
  by (auto simp: kill_children_def kill_child_def filter_empty_conv Let_def split: if_splits)

lemma filter_concat_replicate_Nil: "filter P xs = [] \<Longrightarrow> filter P (concat (replicate m xs)) = []"
  by (induction m) auto

lemma rotating_signals:
  assumes "rotating pool h0 c s"
  shows "rotating pool h0 c (fold (parent_signal 0) sigs s)"
proof -
  have kc: "kill_children 0 (pa_pool s) = kill_children 0 pool"
    using assms kill_children_same by (simp add: rotating_def)
  have "set (kill_children 0 pool) \<subseteq>
      set (concat (replicate (length (filter is_stop_signal sigs)) (kill_children 0 pool)))"
    if "\<exists>c \<in> set sigs. is_stop_signal c"
    using that by (induction sigs) auto
  then show ?thesis using assms
    by (auto simp: rotating_def handle_signals kc same_pool_def
        filter_concat_replicate_Nil [OF kill_children_no_send])
qed

lemma rotating_call:
  "rotating pool h0 c s \<Longrightarrow> \<not> is_send x \<Longrightarrow> rotating pool h0 c (s\<lparr>pa_trace := pa_trace s @ [x]\<rparr>)"
  by (auto simp: rotating_def same_pool_def)

definition listen_event :: "ProcessPool \<Rightarrow> epoll_event \<Rightarrow> bool" where
  "listen_event pool ev \<longleftrightarrow> data_fd ev = pr_listenfd (procs pool ! 0)"

lemma rotating_event:
  assumes "children_ready pool" "1 \<le> num_proc pool" "recv_bounded k" "rotating pool h0 c s"
  shows "\<exists>t. parent_event k 0 ev s = Inr t \<and> pa_sig_pipefd t = pa_sig_pipefd s \<and>
    rotating pool h0 (c + (if listen_event pool ev then 1 else 0)) t"
proof -
  have same: "same_pool pool s" "in_turn (num_proc pool) (pa_sub_process_idx s) c"
    using assms(4) by (simp_all add: rotating_def)
  show ?thesis
  proof (cases "listen_event pool ev")
    case True
    from parent_accept_ready [OF assms(1,2) same] obtain t where
      t: "parent_accept 0 s = Inr t" "pa_trace t = pa_trace s @ [notice pool c]"
        "pa_pool t = pa_pool s" "pa_sig_pipefd t = pa_sig_pipefd s"
        "in_turn (num_proc pool) (pa_sub_process_idx t) (Suc c)" by blast
    then have "rotating pool h0 (Suc c) t"
      using assms(4) by (auto simp: rotating_def same_pool_def notice_def)
    with t True same show ?thesis by (simp add: parent_event_def same_pool_def listen_event_def)
  next
    case False
    then have ne: "data_fd ev \<noteq> pr_listenfd (procs (pa_pool s) ! 0)"
      using same(1) by (simp add: listen_event_def same_pool_def)
    let ?s = "s\<lparr>pa_trace := pa_trace s @ [Recv (data_fd ev) 10]\<rparr>"
    have r: "rotating pool h0 c ?s" by (rule rotating_call [OF assms(4)]) simp
    show ?thesis
    proof (cases "data_fd ev = fst (pa_sig_pipefd s) \<and> events ev AND EPOLLIN \<noteq> 0")
      case False
      with ne assms(4) \<open>\<not> listen_event pool ev\<close> show ?thesis by (auto simp: parent_event_def)
    next
      case True
      show ?thesis
      proof (cases "k_recv k (pa_trace s) (data_fd ev) 10")
        case (RecvErr e)
        with ne True r \<open>\<not> listen_event pool ev\<close> show ?thesis by (simp add: parent_event_def Let_def)
      next
        case (RecvData sigs)
        then have "length sigs \<le> 10" using assms(3) by (simp add: recv_bounded_def)
        with RecvData ne True rotating_signals [OF r] \<open>\<not> listen_event pool ev\<close> show ?thesis
          by (simp add: parent_event_def Let_def handle_signals)
      qed
    qed
  qed
qed

lemma rotating_events:
  assumes "children_ready pool" "1 \<le> num_proc pool" "recv_bounded k" "rotating pool h0 c s"
  shows "\<exists>t. parent_events k 0 evs s = Inr t \<and> pa_sig_pipefd t = pa_sig_pipefd s \<and>
    rotating pool h0 (c + length (filter (listen_event pool) evs)) t"
  using assms(4)
proof (induction evs arbitrary: s c)
  case (Cons ev evs)
  from rotating_event [OF assms(1-3) Cons.prems] obtain t where
    t: "parent_event k 0 ev s = Inr t" "pa_sig_pipefd t = pa_sig_pipefd s"
      "rotating pool h0 (c + (if listen_event pool ev then 1 else 0)) t" by blast
  from Cons.IH [OF t(3)] t(1,2) show ?case by (cases "listen_event pool ev") auto
qed simp

lemma rotating_round:
  assumes "children_ready pool" "1 \<le> num_proc pool" "recv_bounded k" "epoll_bounded k"
    "rotating pool h0 c s"
  shows "\<exists>brk t c'. parent_round k 0 s = Inr (brk, t) \<and> rotating pool h0 c' t \<and>
    pa_sig_pipefd t = pa_sig_pipefd s"
proof -
  let ?epfd = "pr_epollfd (procs (pa_pool s) ! 0)"
  let ?s = "s\<lparr>pa_trace := pa_trace s @ [EpollWait ?epfd k_max_num_epoll_event]\<rparr>"
  have r: "rotating pool h0 c ?s" by (rule rotating_call [OF assms(5)]) simp
  show ?thesis
  proof (cases "k_epoll_wait k (pa_trace s) ?epfd k_max_num_epoll_event")
    case (EpollErr e)
    with r show ?thesis by (auto simp: parent_round_def)
  next
    case (EpollEvents evs)
    then have "length evs \<le> k_max_num_epoll_event" using assms(4) by (simp add: epoll_bounded_def)
    with EpollEvents rotating_events [OF assms(1-3) r, of evs] show ?thesis
      by (auto simp: parent_round_def Let_def)
  qed
qed

lemma rotating_loop:
  assumes "children_ready pool" "1 \<le> num_proc pool" "recv_bounded k" "epoll_bounded k"
    "rotating pool h0 c s" "parent_loop fuel k 0 s = Some r"
  shows "\<exists>t c'. r = Inr t \<and> rotating pool h0 c' t"
  using assms(5,6)
proof (induction fuel arbitrary: s c)
  case 0
  then show ?case by (auto split: if_splits)
next
  case (Suc fuel)
  from rotating_round [OF assms(1-4) Suc.prems(1)] obtain brk t c' where
    t: "parent_round k 0 s = Inr (brk, t)" "rotating pool h0 c' t" by blast
  show ?case
  proof (cases "stopped (pa_pool s) \<or> brk")
    case True
    with Suc.prems t show ?thesis by (auto split: if_splits)
  next
    case False
    with Suc.prems(2) t have "parent_loop fuel k 0 t = Some r" by simp
    with Suc.IH [OF t(2)] show ?thesis by blast
  qed
qed

text \<open>The stop flag is only ever set, and a stop byte on the signal pipe sets it.\<close>

lemma parent_event_stopped: "parent_event k pa ev s = Inr t \<Longrightarrow> stopped (pa_pool s) \<Longrightarrow> stopped (pa_pool t)"
  by (auto simp: parent_event_def parent_accept_def Let_def rbind_eq_Inr_iff handle_signals
      split: if_splits option.splits recv_ret.splits)

lemma parent_events_stopped: "parent_events k pa evs s = Inr t \<Longrightarrow> stopped (pa_pool s) \<Longrightarrow> stopped (pa_pool t)"
  by (induction evs arbitrary: s) (auto simp: rbind_eq_Inr_iff dest: parent_event_stopped)

lemma parent_event_stop:
  assumes "parent_event k pa ev s = Inr t" "data_fd ev \<noteq> pr_listenfd (procs (pa_pool s) ! pa)"
    "data_fd ev = fst (pa_sig_pipefd s)" "events ev AND EPOLLIN \<noteq> 0"
    "\<forall>h. \<exists>sigs. k_recv k h (data_fd ev) 10 = RecvData sigs \<and> list_ex is_stop_signal sigs"
  shows "stopped (pa_pool t)"
proof -
  obtain sigs where "k_recv k (pa_trace s) (data_fd ev) 10 = RecvData sigs" "list_ex is_stop_signal sigs"
    using assms(5) by blast
  with assms(1-4) show ?thesis
    by (auto simp: parent_event_def Let_def handle_signals list_ex_iff split: if_splits)
qed

lemma parent_events_append:
  "parent_events k pa (xs @ ys) s = rbind (parent_events k pa xs s) (parent_events k pa ys)"
proof (induction xs arbitrary: s)
  case (Cons ev xs)
  then show ?case by (cases "parent_event k pa ev s") simp_all
qed simp

section \<open>The set-up\<close>

lemma parent_setup_Inr:
  assumes "parent_setup k 0 pool h = Inr s" "pool_wf pool" "children_ready pool" "1 \<le> num_proc pool"
    "\<not> stopped pool"
  shows "\<exists>pool'. children_ready pool' \<and> num_proc pool' = num_proc pool \<and>
    (\<forall>i. 1 \<le> i \<longrightarrow> procs pool' ! i = procs pool ! i) \<and>
    pr_listenfd (procs pool' ! 0) = pr_listenfd (procs pool ! 0) \<and>
    rotating pool' (filter is_send h) 0 s"
proof -
  obtain sp h1 where
    e: "k_epoll_create k h \<noteq> -1" and
    sp: "SetupSigPipe k ((procs pool ! 0)\<lparr>pr_epollfd := k_epoll_create k h\<rparr>)
        (TestEpollAddFdLT (k_epoll_create k h) (pr_listenfd (procs pool ! 0)) (h @ [EpollCreate 5])) = Inr (sp, h1)" and
    s: "s = \<lparr>pa_pool = pool\<lparr>procs := (procs pool)[0 := (procs pool ! 0)\<lparr>pr_epollfd := k_epoll_create k h\<rparr>]\<rparr>,
             pa_sig_pipefd = sp, pa_sub_process_idx = 0, pa_trace = h1\<rparr>"
    using assms(1) by (auto simp: parent_setup_def rbind_eq_Inr_iff SetupEpoll_Inr Let_def split: if_splits)
  from SetupSigPipe_Inr [OF sp] have h1: "filter is_send h1 = filter is_send h"
    by (simp add: TestEpollAddFdLT_def)
  have "children_ready (pa_pool s)" using assms(2,3) s by (simp add: children_ready_def pool_wf_def)
  moreover have "rotating (pa_pool s) (filter is_send h) 0 s"
    using assms(4,5) s h1 by (simp add: rotating_def same_pool_def in_turn_0)
  ultimately show ?thesis using assms(2) s
    by (intro exI [of _ "pa_pool s"]) (simp add: pool_wf_def)
qed

lemma parent_setup_fault: "pool_wf pool \<Longrightarrow> parent_setup k 0 pool h = Inl f \<Longrightarrow> f = AssertFail"
  by (auto simp: parent_setup_def pool_wf_def rbind_eq_Inl_iff Let_def dest: setup_fault split: prod.splits)

lemma notice_cong:
  "num_proc pool' = num_proc pool \<Longrightarrow> (\<And>i. 1 \<le> i \<Longrightarrow> procs pool' ! i = procs pool ! i) \<Longrightarrow>
     notice pool' = notice pool"
  by (rule ext) (simp add: notice_def)

lemma kill_children_cong:
  "num_proc pool' = num_proc pool \<Longrightarrow> (\<And>i. 1 \<le> i \<Longrightarrow> procs pool' ! i = procs pool ! i) \<Longrightarrow>
     kill_children 0 pool' = kill_children 0 pool"
  unfolding kill_children_def by (intro arg_cong [where f = concat] map_cong) (auto simp: kill_child_def)

text \<open>A whole run of the parent: no fault but a failed set-up, and the rotation.\<close>

lemma RunParent_run:
  assumes "pool_wf pool" "children_ready pool" "1 \<le> num_proc pool" "\<not> stopped pool"
    "recv_bounded k" "epoll_bounded k" "RunParent fuel k 0 pool h = Some r"
  shows "r = Inl AssertFail \<or>
    (\<exists>pool' h' c. r = Inr (pool', h') \<and>
       filter is_send h' = filter is_send h @ map (notice pool) [0..<c] \<and>
       (stopped pool' \<longrightarrow> set (kill_children 0 pool) \<subseteq> set h'))"
proof (cases "parent_setup k 0 pool h")
  case (Inl f)
  with parent_setup_fault [OF assms(1) Inl] assms(7) show ?thesis by (simp add: RunParent_def)
next
  case (Inr s)
  from parent_setup_Inr [OF Inr assms(1-4)] obtain p1 where
    p1: "children_ready p1" "num_proc p1 = num_proc pool" "\<forall>i. 1 \<le> i \<longrightarrow> procs p1 ! i = procs pool ! i"
      "rotating p1 (filter is_send h) 0 s" by blast
  from Inr assms(7) obtain r1 where r1: "parent_loop fuel k 0 s = Some r1"
    "r = map_res (\<lambda>s. (pa_pool s, pa_trace s @ [Close (pr_epollfd (procs (pa_pool s) ! 0))])) r1"
    by (auto simp: RunParent_def)
  from rotating_loop [OF p1(1) _ assms(5,6) p1(4) r1(1)] p1(2) assms(3) obtain t c where
    t: "r1 = Inr t" "rotating p1 (filter is_send h) c t" by auto
  moreover have "notice p1 = notice pool" "kill_children 0 p1 = kill_children 0 pool"
    using p1(2,3) by (auto intro: notice_cong kill_children_cong)
  ultimately show ?thesis using r1(2) by (auto simp: rotating_def)
qed

text \<open>How often a residue occurs among the first \<open>c\<close> numbers.\<close>

lemma mod_eq_0_once: "0 < x \<Longrightarrow> x < 2 * n \<Longrightarrow> x mod n = 0 \<longleftrightarrow> x = (n :: nat)"
  by (cases "x < n") (auto simp: le_mod_geq)

lemma residue_count:
  "r < n \<Longrightarrow> length (filter (\<lambda>t. t mod n = r) [0..<c]) = (c + (n - 1 - r)) div n"
proof (induction c)
  case (Suc c)
  have "(Suc c + (n - 1 - r)) div n = (c + (n - 1 - r)) div n + (if c mod n = r then 1 else 0)"
  proof -
    have eq: "Suc c + (n - 1 - r) = Suc (c + (n - 1 - r))" by simp
    have "Suc (c + (n - 1 - r)) mod n = 0 \<longleftrightarrow> c mod n = r"
    proof -
      have "Suc (c + (n - 1 - r)) = c + (n - r)" using Suc.prems by simp
      moreover have "(c + (n - r)) mod n = (c mod n + (n - r)) mod n" by (simp add: mod_add_left_eq)
      moreover have "(c mod n + (n - r)) mod n = 0 \<longleftrightarrow> c mod n + (n - r) = n"
      proof -
        have "c mod n < n" using Suc.prems by simp
        with Suc.prems show ?thesis by (intro mod_eq_0_once) linarith+
      qed
      ultimately show ?thesis using Suc.prems by auto
    qed
    then show ?thesis unfolding eq div_Suc by simp
  qed
  with Suc show ?case by simp
qed simp

end
