(* ===== verification/ParentProps.thy ===== *)
theory ParentProps
  imports ParentLemmas
begin

text \<open>
  The properties of the parent of the pool, with a concrete kernel they are applied at: the
  role every process takes, the rotation of the notifications over the children, the choice of
  a child when some are gone, the stop, and the pool without children.
\<close>

section \<open>A scripted kernel\<close>

definition is_wait :: "syscall \<Rightarrow> bool" where
  "is_wait c = (case c of EpollWait _ _ \<Rightarrow> True | _ \<Rightarrow> False)"

text \<open>
  \<open>fork\<close> answers as in the parent, or as in child \<open>child\<close> (from 1); \<open>epoll_wait\<close> reports the
  batches of a script and then fails; the signal pipe delivers \<open>sigs\<close>.
\<close>

definition pool_kernel :: "nat \<Rightarrow> epoll_event list list \<Rightarrow> char list \<Rightarrow> kernel" where
  "pool_kernel child script sigs = idle_kernel
     \<lparr>k_fork := (\<lambda>h. let i = length (filter (\<lambda>c. c = Fork) h) + 1 in
        if i = child then 0 else 100 + int i),
      k_socketpair := (\<lambda>h. let i = int (length (filter (\<lambda>c. c = SocketPair) h)) in
        Some (10 + 2 * i, 11 + 2 * i)),
      k_epoll_create := (\<lambda>h. 5),
      k_epoll_wait := (\<lambda>h fd n. let i = length (filter is_wait h) in
        if i < length script then EpollEvents (take n (script ! i)) else EpollErr EBADF),
      k_recv := (\<lambda>h fd n. RecvData (take n sigs))\<rparr>"

lemma pool_kernel_bounded:
  "recv_bounded (pool_kernel c script sigs)" "epoll_bounded (pool_kernel c script sigs)"
  by (simp_all add: recv_bounded_def epoll_bounded_def pool_kernel_def Let_def)

definition on_listen :: epoll_event where "on_listen = \<lparr>events = EPOLLIN, data_fd = 4\<rparr>"
definition on_signal :: epoll_event where "on_signal = \<lparr>events = EPOLLIN, data_fd = 14\<rparr>"

definition demo_kernel :: kernel where
  "demo_kernel = pool_kernel 0 [[on_listen, on_listen], [on_listen, on_signal]] [char_of (15 :: nat)]"

definition demo_pool :: ProcessPool where
  "demo_pool = \<lparr>num_proc = 2, procs =
     [\<lparr>pr_pid = 1, pr_listenfd = 4, pr_epollfd = -1, pr_pool_id = 0, pr_fa_pipefd = None\<rparr>,
      \<lparr>pr_pid = 101, pr_listenfd = -1, pr_epollfd = -1, pr_pool_id = -1, pr_fa_pipefd = Some (10, 11)\<rparr>,
      \<lparr>pr_pid = 102, pr_listenfd = -1, pr_epollfd = -1, pr_pool_id = -1, pr_fa_pipefd = Some (12, 13)\<rparr>],
     stopped = False\<rparr>"

definition demo_trace :: trace where
  "demo_trace =
     [SocketPair, Fork, FcntlGetFl 11, FcntlSetFl 11 O_NONBLOCK, Close 10,
      SocketPair, Fork, FcntlGetFl 13, FcntlSetFl 13 O_NONBLOCK, Close 12, Getpid]"

lemma demo_new: "ProcessPool_new demo_kernel 4 2 [] = Inr (demo_pool, demo_trace)"
  by code_simp

lemma demo_answers:
  "recv_bounded demo_kernel" "epoll_bounded demo_kernel"
  "k_recv demo_kernel h fd 10 = RecvData [char_of (15 :: nat)]"
  "is_stop_signal (char_of (15 :: nat))"
  "k_epoll_wait demo_kernel [EpollWait 5 1000] 5 1000 = EpollEvents [on_listen, on_signal]"
  by (simp_all add: demo_kernel_def pool_kernel_bounded) (simp add: pool_kernel_def, code_simp+)

definition demo_run :: trace where
  "demo_run = demo_trace @
     [EpollCreate 5, EpollCtlAdd 5 4 EPOLLIN, SocketPair, Sigaction SIGTERM, Sigaction SIGINT,
      Sigaction SIGCHLD, EpollCtlAdd 5 14 (EPOLLIN OR EPOLLET), EpollWait 5 1000,
      Send 11 (''1'' @ [NUL]), Send 13 (''1'' @ [NUL]), EpollWait 5 1000,
      Send 11 (''1'' @ [NUL]), Recv 14 10, Kill 101 SIGTERM, Kill 102 SIGTERM, Close 5]"

definition demo_end :: ProcessPool where
  "demo_end = demo_pool\<lparr>procs := (procs demo_pool)[0 := (procs demo_pool ! 0)\<lparr>pr_epollfd := 5\<rparr>],
                        stopped := True\<rparr>"

lemma demo_RunParent: "RunParent 2 demo_kernel 0 demo_pool demo_trace = Some (Inr (demo_end, demo_run))"
  by code_simp

lemma demo_pool_ready: "pool_wf demo_pool" "children_ready demo_pool" "\<not> stopped demo_pool"
    "num_proc demo_pool = 2" "run_role demo_pool = Inr (Parent 0)"
  by (auto simp: pool_wf_def children_ready_def demo_pool_def run_role_def nth_Cons' split: if_splits)

section \<open>Properties\<close>

text \<open>
  The constructor gives every process one role. For every kernel and every number of children
  up to 10: either \<open>fork\<close> never returned 0, then \<open>run\<close> runs the parent, which has the listening
  socket, a positive pid of and a pipe to every child and no pipe of its own; or this process is
  the child of exactly one index \<open>c\<close>, \<open>run\<close> finds that index, and the child has the listening
  socket and the pipe.
\<close>

theorem constructor_roles:
  assumes "ProcessPool_new k listenfd num_process h = Inr (pool, h')"
  shows "length (procs pool) = num_proc pool + 1 \<and> num_proc pool = nat num_process \<and>
    num_proc pool \<le> 10 \<and> \<not> stopped pool \<and>
    (run_role pool = Inr (Parent 0) \<and> children_ready pool \<and>
       pr_listenfd (procs pool ! 0) = listenfd \<and> pr_fa_pipefd (procs pool ! 0) = None
     \<or> (\<exists>c. 1 \<le> c \<and> c \<le> num_proc pool \<and> run_role pool = Inr (Child (int c)) \<and>
          pr_listenfd (procs pool ! c) = listenfd \<and> pr_pid (procs pool ! c) = 0 \<and>
          pr_fa_pipefd (procs pool ! c) \<noteq> None))"
  using ProcessPool_new_roles [OF assms] unfolding pool_wf_def .

text \<open>In the second child of a pool of two.\<close>

lemma constructor_roles_witness:
  "\<exists>pool h. ProcessPool_new (pool_kernel 2 [] []) 4 2 [] = Inr (pool, h) \<and> num_proc pool = 2 \<and>
     (\<exists>c. 1 \<le> c \<and> c \<le> num_proc pool \<and> run_role pool = Inr (Child (int c)) \<and>
       pr_listenfd (procs pool ! c) = 4)"
proof -
  define pool where "pool = \<lparr>num_proc = 2, procs =
     [Process_new, Process_new\<lparr>pr_pid := 101, pr_fa_pipefd := Some (10, 11)\<rparr>,
      \<lparr>pr_pid = 0, pr_listenfd = 4, pr_epollfd = -1, pr_pool_id = 2, pr_fa_pipefd = Some (12, 13)\<rparr>],
     stopped = False\<rparr>"
  have "\<exists>h. ProcessPool_new (pool_kernel 2 [] []) 4 2 [] = Inr (pool, h)"
    unfolding pool_def
    by (rule exI [of _ "[SocketPair, Fork, FcntlGetFl 11, FcntlSetFl 11 O_NONBLOCK, Close 10,
          SocketPair, Fork, FcntlGetFl 12, FcntlSetFl 12 O_NONBLOCK, Close 13]"]) code_simp
  then obtain h where h: "ProcessPool_new (pool_kernel 2 [] []) 4 2 [] = Inr (pool, h)" by blast
  have "run_role pool \<noteq> Inr (Parent 0)"
    by (simp add: pool_def run_role_def Process_new_def)
  with constructor_roles [OF h] h show ?thesis by (intro exI [of _ pool] exI [of _ h]) auto
qed

text \<open>
  C6. Round robin over a whole run, from the constructor to the end of \<open>RunParent\<close>, for every
  kernel that keeps within the sizes it is asked for: the only fault is a failed assertion of the
  set-up, and what the parent sends in its whole life is the two-byte notice to the pipes of
  children 1, 2, ..., n, 1, 2, ... in strict rotation.
\<close>

theorem parent_rotation:
  assumes "ProcessPool_new k listenfd num_process [] = Inr (pool, h)"
    "run_role pool = Inr (Parent 0)" "1 \<le> num_process"
    "recv_bounded k" "epoll_bounded k" "RunParent fuel k 0 pool h = Some r"
  shows "r = Inl AssertFail \<or>
    (\<exists>pool' h' c. r = Inr (pool', h') \<and>
       filter is_send h' = filter is_send h @ map (notice pool) [0..<c])"
proof -
  note new = ProcessPool_new_roles [OF assms(1)]
  have "children_ready pool" using new assms(2) by auto
  moreover have "pool_wf pool" "\<not> stopped pool" "1 \<le> num_proc pool" using new assms(3) by auto
  ultimately show ?thesis using RunParent_run [OF _ _ _ _ assms(4-6)] by blast
qed

lemma parent_rotation_witness:
  "RunParent 2 demo_kernel 0 demo_pool demo_trace = Some (Inr (demo_end, demo_run)) \<and>
   (\<exists>c. filter is_send demo_run = filter is_send demo_trace @ map (notice demo_pool) [0..<c])"
  using parent_rotation [OF demo_new demo_pool_ready(5) _ _ _ demo_RunParent]
    pool_kernel_bounded demo_RunParent by (simp add: demo_kernel_def)

text \<open>
  One batch of events, in the parent of a ready pool after \<open>c\<close> notifications: every event of
  the listening socket makes exactly one notification, to the next child in turn; no other event
  makes one.
\<close>

theorem parent_batch_notifies:
  assumes "children_ready pool" "1 \<le> num_proc pool" "recv_bounded k" "rotating pool h0 c s"
  shows "\<exists>t. parent_events k 0 evs s = Inr t \<and>
    rotating pool h0 (c + length (filter (listen_event pool) evs)) t"
  using rotating_events [OF assms] by blast

lemma parent_batch_notifies_witness:
  "let s = \<lparr>pa_pool = demo_pool, pa_sig_pipefd = (14, 15), pa_sub_process_idx = 0, pa_trace = []\<rparr> in
   \<exists>t. parent_events demo_kernel 0 [on_listen, on_signal, on_listen, on_listen] s = Inr t \<and>
     rotating demo_pool [] 3 t"
proof -
  let ?s = "\<lparr>pa_pool = demo_pool, pa_sig_pipefd = (14, 15), pa_sub_process_idx = 0, pa_trace = []\<rparr>"
  have "rotating demo_pool [] 0 ?s"
    using demo_pool_ready by (simp add: rotating_def same_pool_def in_turn_def)
  moreover have "0 + length (filter (listen_event demo_pool) [on_listen, on_signal, on_listen, on_listen]) = 3"
    by (simp add: listen_event_def on_listen_def on_signal_def demo_pool_def)
  ultimately show ?thesis
    using parent_batch_notifies [of demo_pool demo_kernel "[]" 0 ?s "[on_listen, on_signal, on_listen, on_listen]"]
      demo_pool_ready pool_kernel_bounded unfolding Let_def by (simp only: demo_kernel_def)
qed

text \<open>
  The rotation is fair: when the pipes to the children are different descriptors, the numbers
  of notices that two children get among the first \<open>c\<close> differ by at most one.
\<close>

theorem rotation_fair:
  assumes "distinct (map (notice pool) [0..<num_proc pool])" "i < num_proc pool" "j < num_proc pool"
  shows "count_list (map (notice pool) [0..<c]) (notice pool i) \<le>
           count_list (map (notice pool) [0..<c]) (notice pool j) + 1"
proof -
  let ?n = "num_proc pool"
  have count: "count_list (map (notice pool) [0..<c]) (notice pool i) = (c + (?n - 1 - i)) div ?n"
    if "i < ?n" for i
  proof -
    have "notice pool i = notice pool t \<longleftrightarrow> t mod ?n = i" for t
    proof -
      have "notice pool t = notice pool (t mod ?n)" by (simp add: notice_def)
      then have "notice pool i = notice pool t \<longleftrightarrow> notice pool i = notice pool (t mod ?n)" by simp
      also have "\<dots> \<longleftrightarrow> i = t mod ?n"
        using nth_eq_iff_index_eq [OF assms(1), of i "t mod ?n"] that
        by (cases "?n = 0") simp_all
      finally show ?thesis by auto
    qed
    then have "count_list (map (notice pool) [0..<c]) (notice pool i) =
        length (filter (\<lambda>t. t mod ?n = i) [0..<c])"
      by (simp add: count_list_eq_length_filter filter_map comp_def)
    then show ?thesis using residue_count [OF that] by simp
  qed
  have "(c + (?n - 1 - i)) div ?n \<le> (c + (?n - 1 - j) + ?n) div ?n"
    by (rule div_le_mono) (use assms(2,3) in linarith)
  also have "\<dots> = (c + (?n - 1 - j)) div ?n + 1" using assms(2) by (intro div_add_self2) simp
  finally show ?thesis using count assms(2,3) by simp
qed

lemma rotation_fair_witness:
  "count_list (map (notice demo_pool) [0..<5]) (notice demo_pool 0) \<le>
     count_list (map (notice demo_pool) [0..<5]) (notice demo_pool 1) + 1"
  by (rule rotation_fair) code_simp+

text \<open>
  C21. The do-while loop that selects a child, for any processes and any start: it ends, at the
  first index from the start on (cyclically) that is a live child; and at the start itself when
  there is none (which then may be the parent's own slot).
\<close>

theorem rr_select_correct:
  assumes "start \<le> n"
  shows "\<exists>sel \<le> n. rr_select ps pa n start = Some sel \<and>
    ((\<exists>d \<le> n. sel = (start + d) mod (n + 1) \<and> live_child ps pa sel \<and>
        (\<forall>i < d. \<not> live_child ps pa ((start + i) mod (n + 1))))
     \<or> sel = start \<and> (\<forall>i \<le> n. \<not> live_child ps pa ((start + i) mod (n + 1))))"
proof (cases "\<exists>d. d < n + 1 \<and> live_child ps pa ((start + d) mod (n + 1))")
  case True
  define d where "d = (LEAST d. d < n + 1 \<and> live_child ps pa ((start + d) mod (n + 1)))"
  from True have d: "d < n + 1" "live_child ps pa ((start + d) mod (n + 1))"
    unfolding d_def by (metis (mono_tags, lifting) LeastI_ex)+
  have first: "\<forall>i < d. \<not> live_child ps pa ((start + i) mod (n + 1))"
  proof (intro allI impI notI)
    fix i assume i: "i < d" "live_child ps pa ((start + i) mod (n + 1))"
    then have "i < n + 1" using d by simp
    with i not_less_Least [of i "\<lambda>d. d < n + 1 \<and> live_child ps pa ((start + d) mod (n + 1))"]
    show False by (simp add: d_def)
  qed
  have "(start + d) mod (n + 1) \<le> n" using mod_less_divisor [of "n + 1" "start + d"] by linarith
  with rr_select_first [OF _ d first] d first assms show ?thesis
    by (intro exI [of _ "(start + d) mod (n + 1)"]) (auto intro!: exI [of _ d])
next
  case False
  with rr_select_none [of start n ps pa] assms show ?thesis
    by (intro exI [of _ start]) auto
qed

lemma rr_select_correct_witness:
  "\<exists>sel \<le> 2. rr_select (procs demo_pool) 0 2 2 = Some sel"
  using rr_select_correct [of 2 2 "procs demo_pool" 0] by auto

text \<open>
  The parent does not stop by a signal without having sent SIGTERM to every child of the pool.
\<close>

theorem stop_kills_all_children:
  assumes "ProcessPool_new k listenfd num_process [] = Inr (pool, h)"
    "run_role pool = Inr (Parent 0)" "1 \<le> num_process" "recv_bounded k" "epoll_bounded k"
    "RunParent fuel k 0 pool h = Some (Inr (pool', h'))" "stopped pool'"
    "1 \<le> i" "i \<le> num_proc pool"
  shows "Kill (pr_pid (procs pool ! i)) SIGTERM \<in> set h'"
proof -
  note new = ProcessPool_new_roles [OF assms(1)]
  have ready: "children_ready pool" using new assms(2) by auto
  have "pool_wf pool" "\<not> stopped pool" "1 \<le> num_proc pool" using new assms(3) by auto
  then have "set (kill_children 0 pool) \<subseteq> set h'"
    using RunParent_run [OF _ ready _ _ assms(4-6)] assms(7) by auto
  moreover have "Kill (pr_pid (procs pool ! i)) SIGTERM \<in> set (kill_children 0 pool)"
    unfolding kill_children_ready [OF ready] set_map by (rule imageI) (use assms(8,9) in auto)
  ultimately show ?thesis by blast
qed

lemma stop_kills_all_children_witness: "Kill 102 SIGTERM \<in> set demo_run"
  using stop_kills_all_children [OF demo_new demo_pool_ready(5) _ _ _ demo_RunParent, of 2]
    pool_kernel_bounded
  by (simp add: demo_kernel_def demo_end_def demo_pool_def)

text \<open>
  C26. The parent returns: the round in which \<open>epoll_wait\<close> reports the signal pipe (and the
  listening socket or other descriptors before and after it) and the pipe delivers SIGTERM or
  SIGINT is the last one, for every ready pool.
\<close>

theorem parent_stops_on_signal:
  assumes "children_ready pool" "1 \<le> num_proc pool" "rotating pool h0 c s" "recv_bounded k"
    "k_epoll_wait k (pa_trace s) (pr_epollfd (procs pool ! 0)) k_max_num_epoll_event =
       EpollEvents (evs1 @ ev # evs2)"
    "length (evs1 @ ev # evs2) \<le> k_max_num_epoll_event"
    "\<not> listen_event pool ev" "data_fd ev = fst (pa_sig_pipefd s)" "events ev AND EPOLLIN \<noteq> 0"
    "\<forall>h. \<exists>sigs. k_recv k h (data_fd ev) 10 = RecvData sigs \<and> list_ex is_stop_signal sigs"
  shows "\<exists>t. parent_loop 1 k 0 s = Some (Inr t) \<and> stopped (pa_pool t)"
proof (cases "stopped (pa_pool s)")
  case False
  let ?w = "EpollWait (pr_epollfd (procs pool ! 0)) k_max_num_epoll_event"
  let ?s = "s\<lparr>pa_trace := pa_trace s @ [?w]\<rparr>"
  have same: "same_pool pool s" using assms(3) by (simp add: rotating_def)
  have r: "rotating pool h0 c ?s" by (rule rotating_call [OF assms(3)]) simp
  from rotating_events [OF assms(1,2,4) r, of evs1] obtain t1 c1 where
    t1: "parent_events k 0 evs1 ?s = Inr t1" "pa_sig_pipefd t1 = pa_sig_pipefd s"
      "rotating pool h0 c1 t1" by auto
  from rotating_event [OF assms(1,2,4) t1(3), of ev] obtain t2 c2 where
    t2: "parent_event k 0 ev t1 = Inr t2" "rotating pool h0 c2 t2" by auto
  have st: "stopped (pa_pool t2)"
    using parent_event_stop [OF t2(1)] t1(2,3) assms(7-10)
    by (simp add: rotating_def same_pool_def listen_event_def)
  from rotating_events [OF assms(1,2,4) t2(2), of evs2] obtain t where
    t: "parent_events k 0 evs2 t2 = Inr t" by auto
  then have "parent_round k 0 s = Inr (False, t)"
    using t1(1) t2(1) assms(5,6) same
    by (simp add: parent_round_def same_pool_def parent_events_append Let_def)
  then show ?thesis using False parent_events_stopped [OF t st] by simp
qed simp

text \<open>In the second round of the scripted run.\<close>

lemma parent_stops_on_signal_witness:
  "let s = \<lparr>pa_pool = demo_pool\<lparr>procs := (procs demo_pool)[0 := (procs demo_pool ! 0)\<lparr>pr_epollfd := 5\<rparr>]\<rparr>,
            pa_sig_pipefd = (14, 15), pa_sub_process_idx = 0, pa_trace = [EpollWait 5 1000]\<rparr> in
   \<exists>t. parent_loop 1 demo_kernel 0 s = Some (Inr t) \<and> stopped (pa_pool t)"
proof -
  let ?pool = "demo_pool\<lparr>procs := (procs demo_pool)[0 := (procs demo_pool ! 0)\<lparr>pr_epollfd := 5\<rparr>]\<rparr>"
  let ?s = "\<lparr>pa_pool = ?pool, pa_sig_pipefd = (14, 15), pa_sub_process_idx = 0,
             pa_trace = [EpollWait 5 1000]\<rparr>"
  have "children_ready ?pool" "1 \<le> num_proc ?pool" "rotating ?pool [] 0 ?s"
    using demo_pool_ready by (simp_all add: children_ready_def pool_wf_def rotating_def
        same_pool_def in_turn_def)
  then show ?thesis unfolding Let_def
    by (rule parent_stops_on_signal [where ?evs1.0 = "[on_listen]" and ev = on_signal and ?evs2.0 = "[]"])
       (simp_all add: demo_answers k_max_num_epoll_event_def listen_event_def on_signal_def demo_pool_def)
qed

text \<open>
  A pool of no children passes the constructor, and its first connection is undefined
  behaviour: the round-robin loop returns the parent's own slot, whose pipe no one has created.
\<close>

theorem empty_pool_faults:
  assumes "ProcessPool_new k listenfd 0 h = Inr (pool, h')"
    "same_pool pool s" "pa_sub_process_idx s = 0"
  shows "run_role pool = Inr (Parent 0) \<and> parent_accept 0 s = Inl Uninitialised"
proof -
  note new = ProcessPool_new_roles [OF assms(1)]
  have "rr_select (procs pool) 0 0 0 = Some 0"
    by (rule rr_select_none) (auto simp: live_child_def)
  with new assms(2,3) show ?thesis
    by (auto simp: parent_accept_def same_pool_def kPaWfd_def)
qed

lemma empty_pool_faults_witness:
  "\<exists>pool h. ProcessPool_new demo_kernel 4 0 [] = Inr (pool, h) \<and>
     parent_accept 0 \<lparr>pa_pool = pool, pa_sig_pipefd = (14, 15), pa_sub_process_idx = 0, pa_trace = h\<rparr> =
       Inl Uninitialised"
proof -
  let ?pool = "\<lparr>num_proc = 0, procs =
      [\<lparr>pr_pid = 1, pr_listenfd = 4, pr_epollfd = -1, pr_pool_id = 0, pr_fa_pipefd = None\<rparr>],
      stopped = False\<rparr>"
  have new: "ProcessPool_new demo_kernel 4 0 [] = Inr (?pool, [Getpid])" by code_simp
  from empty_pool_faults [OF new] new show ?thesis
    by (intro exI [of _ ?pool] exI [of _ "[Getpid]"]) (simp add: same_pool_def)
qed

text \<open>
  A dead child stays in the rotation: SIGCHLD reaches the parent and changes nothing, neither
  the table of the children nor the stop flag.
\<close>

theorem sigchld_ignored:
  "SioHandler (r, w) SIGCHLD h = h @ [Send w [char_of (nat SIGCHLD)]] \<and>
   parent_signal pa (char_of (nat SIGCHLD)) s = s"
  using handler_byte by (simp add: SioHandler_def parent_signal_def)

end
