(* ===== verification/ChildProps.thy ===== *)
theory ChildProps
  imports PoolClients HttpProps ParentProps
begin

text \<open>
  The properties of the child's event loop, mostly with \<open>ReqStatMach\<close> as the class of the
  clients: what is accepted, who owns a descriptor, what the shutdown closes, and a connection
  from its registration to its answer.
\<close>

section \<open>A burst of connections\<close>

text \<open>
  The kernel delivers the connections \<open>cs\<close> on successive calls of \<open>accept\<close>, and then none.
\<close>

fun accepts :: "kernel \<Rightarrow> child_fds \<Rightarrow> trace \<Rightarrow> (fd \<times> sockaddr_in) list \<Rightarrow> bool" where
  "accepts k f h [] \<longleftrightarrow> (case k_accept k h (cf_listenfd f) of AcceptErr e \<Rightarrow> True | Accepted fd a \<Rightarrow> fd < 0)"
| "accepts k f h ((fd, a) # cs) \<longleftrightarrow>
     k_accept k h (cf_listenfd f) = Accepted fd a \<and>
     accepts k f (h @ register_calls f fd
       (k_getfl k (h @ [Accept (cf_listenfd f), EpollCtlAdd (cf_epollfd f) fd (EPOLLIN OR EPOLLET),
                        FcntlGetFl fd]) fd)) cs"

text \<open>The call that makes a descriptor non-blocking.\<close>

definition sets_nonblocking :: "fd \<Rightarrow> syscall \<Rightarrow> bool" where
  "sets_nonblocking fd c \<longleftrightarrow> (case c of FcntlSetFl fd' v \<Rightarrow> fd' = fd \<and> v OR O_NONBLOCK = v | _ \<Rightarrow> False)"

lemma registered_simps:
  "ch_clients (registered T k f fd a s) =
     (ch_clients s)(nat fd := c_init T (cf_epollfd f) fd a (ch_clients s (nat fd)))"
  "\<exists>opt. ch_trace (registered T k f fd a s) = ch_trace s @ register_calls f fd opt"
  by (auto simp: registered_def)

lemma register_calls_members:
  "EpollCtlAdd (cf_epollfd f) fd (EPOLLIN OR EPOLLET) \<in> set (register_calls f fd opt)"
  "\<exists>c \<in> set (register_calls f fd opt). sets_nonblocking fd c"
  by (simp_all add: register_calls_def sets_nonblocking_def or.assoc)

text \<open>What the loop has done when it took the connections \<open>cs\<close>.\<close>

definition taken :: "'c client_class \<Rightarrow> child_fds \<Rightarrow> (fd \<times> sockaddr_in) list \<Rightarrow> 'c child \<Rightarrow> 'c child \<Rightarrow> bool" where
  "taken T f cs s t \<longleftrightarrow> (\<exists>calls. ch_trace t = ch_trace s @ calls) \<and>
    (\<forall>(fd, a) \<in> set cs.
       ch_clients t (nat fd) = c_init T (cf_epollfd f) fd a (ch_clients s (nat fd)) \<and>
       EpollCtlAdd (cf_epollfd f) fd (EPOLLIN OR EPOLLET) \<in> set (ch_trace t) \<and>
       (\<exists>c \<in> set (ch_trace t). sets_nonblocking fd c)) \<and>
    (\<forall>i. int i \<notin> fst ` set cs \<longrightarrow> ch_clients t i = ch_clients s i)"

lemma registered_other:
  "0 \<le> fd \<Longrightarrow> 0 \<le> fd' \<Longrightarrow> fd' \<noteq> fd \<Longrightarrow>
     ch_clients (registered T k f fd a s) (nat fd') = ch_clients s (nat fd')"
  by (simp add: registered_def nat_eq_iff)

lemma taken_Cons:
  assumes t: "taken T f cs (registered T k f fd a s) t" and fd: "0 \<le> fd" "fd \<notin> fst ` set cs"
    and pos: "\<And>fd' b. (fd', b) \<in> set cs \<Longrightarrow> 0 \<le> fd'"
  shows "taken T f ((fd, a) # cs) s t"
proof -
  let ?s = "registered T k f fd a s"
  obtain opt calls where tr: "ch_trace t = ch_trace s @ register_calls f fd opt @ calls"
    using t registered_simps(2) [of T k f fd a s] by (auto simp: taken_def)
  let ?done = "\<lambda>s fd a. ch_clients t (nat fd) = c_init T (cf_epollfd f) fd a (ch_clients s (nat fd)) \<and>
       EpollCtlAdd (cf_epollfd f) fd (EPOLLIN OR EPOLLET) \<in> set (ch_trace t) \<and>
       (\<exists>c \<in> set (ch_trace t). sets_nonblocking fd c)"
  have this_fd: "?done s fd a"
    using t fd tr register_calls_members [of f fd opt] by (auto simp: taken_def registered_simps(1))
  have others: "?done s fd' b" if m: "(fd', b) \<in> set cs" for fd' b
  proof -
    have "fd' \<noteq> fd" using m fd(2) by force
    then have "ch_clients ?s (nat fd') = ch_clients s (nat fd')"
      by (rule registered_other [OF fd(1) pos [OF m]])
    moreover have "?done ?s fd' b" using t m unfolding taken_def by blast
    ultimately show ?thesis by simp
  qed
  have rest: "ch_clients t i = ch_clients s i" if "int i \<notin> fst ` set ((fd, a) # cs)" for i
    using t that fd(1) registered_other [of fd "int i" T k f a s] by (simp add: taken_def)
  show ?thesis
    unfolding taken_def using tr this_fd others rest by (intro conjI allI impI) auto
qed

lemma accept_all:
  assumes "accepts k f (ch_trace s) cs" "distinct (map fst cs)" "length cs < n"
    "\<forall>(fd, a) \<in> set cs. in_array fd \<and> c_is_init T (ch_clients s (nat fd)) (-1)"
  shows "\<exists>t. accept_loop T k f n s = Inr t \<and> taken T f cs s t"
  using assms
proof (induction cs arbitrary: s n)
  case Nil
  then obtain m where "n = Suc m" by (cases n) auto
  with Nil.prems(1) show ?case
    by (auto simp: accept_loop_round taken_def simp del: accept_loop.simps split: accept_ret.splits)
next
  case (Cons p cs)
  obtain fd a where p: "p = (fd, a)" by (cases p)
  obtain m where m: "n = Suc m" using Cons.prems(3) by (cases n) auto
  let ?s = "registered T k f fd a s"
  have arr: "in_array fd" "c_is_init T (ch_clients s (nat fd)) (-1)" "0 \<le> fd"
    using Cons.prems(4) p by (auto simp: in_array_def)
  have step: "accept_loop T k f n s = accept_loop T k f m ?s"
    using Cons.prems(1) arr p by (simp add: m accept_loop_round del: accept_loop.simps)
  have pos: "0 \<le> fd'" "fd' \<noteq> fd" if "(fd', b) \<in> set cs" for fd' b
    using Cons.prems(2,4) p that by (force simp: in_array_def)+
  have other: "ch_clients ?s (nat fd') = ch_clients s (nat fd')" if "(fd', b) \<in> set cs" for fd' b
    by (rule registered_other [OF arr(3) pos [OF that]])
  have "\<exists>t. accept_loop T k f m ?s = Inr t \<and> taken T f cs ?s t"
  proof (rule Cons.IH)
    show "accepts k f (ch_trace ?s) cs" using Cons.prems(1) p by (simp add: registered_def)
    show "distinct (map fst cs)" "length cs < m" using Cons.prems(2,3) m by auto
    show "\<forall>(fd, a) \<in> set cs. in_array fd \<and> c_is_init T (ch_clients ?s (nat fd)) (-1)"
      using Cons.prems(4) other by fastforce
  qed
  then obtain t where "accept_loop T k f m ?s = Inr t" "taken T f cs ?s t" by blast
  with step taken_Cons [OF this(2) arr(3)] pos(1) Cons.prems(2) p show ?case by force
qed

section \<open>Properties\<close>

text \<open>
  C8. A notified child accepts every pending connection of a burst of fewer than 100: each is
  initialised with its own descriptor and peer address, added edge-triggered to the child's epoll
  and made non-blocking; no other client is touched.
\<close>

theorem burst_accepted:
  assumes "accepts k f (ch_trace s @ [Recv (cf_ipc_pipefd f) 10]) cs" "distinct (map fst cs)"
    "length cs < k_max_accept_n"
    "\<forall>(fd, a) \<in> set cs. in_array fd \<and> is_init (ch_clients s (nat fd)) (-1)"
    "k_recv k (ch_trace s) (cf_ipc_pipefd f) 10 = RecvData (''1'' @ [NUL])"
  shows "\<exists>t. child_notified reqstat_class k f s = Inr t \<and>
    (\<forall>(fd, a) \<in> set cs.
       ch_clients t (nat fd) = init (cf_epollfd f) fd a (ch_clients s (nat fd)) \<and>
       EpollCtlAdd (cf_epollfd f) fd (EPOLLIN OR EPOLLET) \<in> set (ch_trace t) \<and>
       (\<exists>c \<in> set (ch_trace t). sets_nonblocking fd c)) \<and>
    (\<forall>i. int i \<notin> fst ` set cs \<longrightarrow> ch_clients t i = ch_clients s i)"
proof -
  let ?s = "log [Recv (cf_ipc_pipefd f) 10] s"
  have "child_notified reqstat_class k f s = accept_loop reqstat_class k f k_max_accept_n ?s"
    using assms(5) by (simp add: child_notified_def cstr_at_def overwrite_def)
  then show ?thesis
    using accept_all [of k f ?s cs k_max_accept_n reqstat_class] assms(1-4) by (auto simp: taken_def)
qed

definition demo_fds :: child_fds where
  "demo_fds = \<lparr>cf_epollfd = 5, cf_listenfd = 4, cf_ipc_pipefd = 10, cf_sig_pipefd = (14, 15)\<rparr>"

text \<open>Connections 20, 21, ... arrive, \<open>n\<close> of them; the other calls answer as in \<open>recv_script\<close>.\<close>

definition accept_kernel :: "nat \<Rightarrow> char list list \<Rightarrow> kernel" where
  "accept_kernel n ds = (recv_script ds)\<lparr>k_accept := (\<lambda>h fd.
     let i = length (filter is_accept h) in
     if i < n then Accepted (20 + int i) a_peer else AcceptErr EAGAIN)\<rparr>"

definition demo_child :: "req_stat_mach child" where
  "demo_child = \<lparr>ch_stop = False, ch_clients = (\<lambda>i. zero_machine), ch_trace = []\<rparr>"

lemma burst_accepted_witness:
  "\<exists>t. child_notified reqstat_class (accept_kernel 2 [''1'' @ [NUL]]) demo_fds demo_child = Inr t \<and>
     ch_clients t 20 = init 5 20 a_peer zero_machine \<and>
     ch_clients t 21 = init 5 21 a_peer zero_machine \<and> ch_clients t 22 = zero_machine"
  using burst_accepted [of "accept_kernel 2 [''1'' @ [NUL]]" demo_fds demo_child
      "[(20, a_peer), (21, a_peer)]"]
  by (simp add: accept_kernel_def recv_script_def demo_fds_def demo_child_def is_accept_def is_recv_def
      register_calls_def k_max_accept_n_def in_array_def k_max_clientfd_def is_init_def
      zero_machine_def ReqStatMach_new_def) (auto simp: zero_machine_def ReqStatMach_new_def)

text \<open>
  C23. The accept loop never takes a connection away: whatever the kernel answers, a machine that
  answers for its descriptor is left as it is; a machine that changed was free before, answers
  for its descriptor now and that descriptor is registered with epoll; and one notification
  makes at most 100 calls of \<open>accept\<close>.
\<close>

theorem accept_protects_connections:
  assumes "\<forall>i. is_init (ch_clients s i) (-1) \<or> is_init (ch_clients s i) (int i)"
    "accept_loop reqstat_class k f k_max_accept_n s = Inr t"
  shows "(\<forall>i. is_init (ch_clients t i) (-1) \<or> is_init (ch_clients t i) (int i)) \<and>
    (\<forall>i. is_init (ch_clients s i) (int i) \<longrightarrow> ch_clients t i = ch_clients s i) \<and>
    (\<forall>i. ch_clients t i \<noteq> ch_clients s i \<longrightarrow> is_init (ch_clients t i) (int i) \<and>
       EpollCtlAdd (cf_epollfd f) (int i) (EPOLLIN OR EPOLLET) \<in> set (ch_trace t)) \<and>
    (\<exists>cs. ch_trace t = ch_trace s @ cs \<and> length (filter is_accept cs) \<le> 100)"
proof -
  have "reqstat.slots_ok (ch_clients s)" using assms(1) by (simp add: reqstat.slots_ok_def)
  from reqstat.accept_loop_slots [OF this assms(2)] accept_loop_limit [OF assms(2)]
  show ?thesis by (auto simp: reqstat.slots_ok_def reqstat.owned_def k_max_accept_n_def)
qed

lemma accept_protects_connections_witness:
  "\<exists>t. accept_loop reqstat_class idle_kernel demo_fds k_max_accept_n demo_child = Inr t \<and>
     (\<forall>i. is_init (ch_clients t i) (-1) \<or> is_init (ch_clients t i) (int i)) \<and>
     (\<exists>cs. ch_trace t = ch_trace demo_child @ cs \<and> length (filter is_accept cs) \<le> 100)"
proof -
  have "\<exists>m. k_max_accept_n = Suc m" by (simp add: k_max_accept_n_def)
  then obtain m where m: "k_max_accept_n = Suc m" ..
  have l: "accept_loop reqstat_class idle_kernel demo_fds k_max_accept_n demo_child =
      Inr (log [Accept 4] demo_child)"
    unfolding m by (simp add: accept_loop_round idle_kernel_def demo_fds_def del: accept_loop.simps)
  moreover have "\<forall>i. is_init (ch_clients demo_child i) (-1) \<or> is_init (ch_clients demo_child i) (int i)"
    by (simp add: demo_child_def is_init_def zero_machine_def ReqStatMach_new_def)
  ultimately show ?thesis using accept_protects_connections [OF _ l] by blast
qed


definition stopped_pool :: ProcessPool where
  "stopped_pool = \<lparr>num_proc = 1, procs = [Process_new,
     \<lparr>pr_pid = 0, pr_listenfd = 4, pr_epollfd = -1, pr_pool_id = 1, pr_fa_pipefd = Some (10, 11)\<rparr>],
     stopped = True\<rparr>"


text \<open>
  Every readiness event of a client gives its slot up, whatever the outcome: afterwards the
  slot is free for the next connection of that number; and the shutdown would not close the
  descriptor (so one whose request was incomplete stays open for good).
\<close>

theorem served_slot_is_free:
  assumes "child_client reqstat_class k fd s = Inr t"
  shows "is_init (ch_clients t (nat fd)) (-1) \<and>
    Close fd \<notin> set (close_clients reqstat_class 0 k_max_clientfd (ch_clients t) [])"
proof -
  have fd: "0 \<le> fd" and free: "m_sockfd (ch_clients t (nat fd)) = -1"
    using assms process_sockfd by (auto simp: child_client_def in_array_def rbind_eq_Inr_iff split: if_splits)
  have "\<not> reqstat.owned (ch_clients t) (nat fd)"
    using free by (simp add: reqstat.owned_def is_init_def)
  with fd free show ?thesis
    by (auto simp: reqstat.close_clients_owned is_init_def)
qed

lemma served_slot_is_free_witness:
  "\<exists>t. child_client reqstat_class idle_kernel 20 demo_child = Inr t \<and>
     is_init (ch_clients t 20) (-1)"
proof -
  have "\<exists>t. child_client reqstat_class idle_kernel 20 demo_child = Inr t"
    using recv_loop_round(1) [OF _ refl, of zero_machine idle_kernel "[]" 9]
    by (simp add: child_client_def in_array_def k_max_clientfd_def demo_child_def process_recv_loop
        idle_kernel_def zero_machine_def ReqStatMach_new_def)
  then obtain t where t: "child_client reqstat_class idle_kernel 20 demo_child = Inr t" ..
  from served_slot_is_free [OF t] t show ?thesis by auto
qed

text \<open>
  The protocol with the parent is safe to print: whatever number of notices has piled up on
  the pipe, the ten-byte message buffer the child prints as a string holds a NUL, and the child
  goes on to its accept loop.
\<close>

theorem notices_printable:
  assumes "k_recv k (ch_trace s) (cf_ipc_pipefd f) 10 =
    RecvData (take 10 (concat (replicate (Suc m) (''1'' @ [NUL]))))"
  shows "child_notified T k f s =
    accept_loop T k f k_max_accept_n (log [Recv (cf_ipc_pipefd f) 10] s)"
proof -
  let ?d = "take 10 (concat (replicate (Suc m) (''1'' @ [NUL])))"
  have d: "?d = CHR ''1'' # NUL # take 8 (concat (replicate m (''1'' @ [NUL])))"
    by (simp add: numeral_eq_Suc)
  have "length ?d \<le> 10" "?d \<noteq> []" unfolding d by simp_all
  moreover obtain y where "cstr_at (overwrite (replicate 10 NUL) 0 ?d) 0 = Some y"
    unfolding d by (simp add: cstr_at_def overwrite_def)
  ultimately show ?thesis using assms
    by (simp add: child_notified_def Let_def del: concat.simps replicate.simps take.simps)
qed

lemma notices_printable_witness:
  "child_notified reqstat_class (pool_kernel 1 [] (concat (replicate 7 (''1'' @ [NUL])))) demo_fds demo_child =
   accept_loop reqstat_class (pool_kernel 1 [] (concat (replicate 7 (''1'' @ [NUL])))) demo_fds
     k_max_accept_n (log [Recv 10 10] demo_child)"
  using notices_printable [of "pool_kernel 1 [] (concat (replicate 7 (''1'' @ [NUL])))" demo_child demo_fds 6]
  by (simp add: pool_kernel_def demo_fds_def numeral_eq_Suc)

text \<open>
  C7. From registration to answer: for a connection the accept loop has initialised, the
  readiness event in which its well formed request arrives, in any number of pieces, makes the
  child send the response on that descriptor, remove it from epoll and close it; the slot is free
  again and no other client is touched.
\<close>

theorem connection_answered:
  assumes "good_request rl hs" "concat ds = http_request rl hs"
    "length (http_request rl hs) < k_recvbuf_size"
    "ch_clients s (nat fd) = init epollfd fd addr c" "in_array fd"
    "fd \<noteq> cf_ipc_pipefd f" "fd \<noteq> fst (cf_sig_pipefd f)"
    "data_fd ev = fd" "events ev AND EPOLLIN \<noteq> 0"
    "delivers k (ch_trace s) fd k_recvbuf_size ds"
  shows "\<exists>t rs. child_event reqstat_class k f ev s = Inr t \<and>
    ch_trace t = ch_trace s @ rs @ [FcntlGetFl fd, Writev fd [hello_head, hello_body],
                                     EpollCtlDel epollfd fd, Close fd] \<and>
    only_recv fd rs \<and> is_init (ch_clients t (nat fd)) (-1) \<and>
    (\<forall>i. i \<noteq> nat fd \<longrightarrow> ch_clients t i = ch_clients s i)"
proof -
  obtain u rs where u: "process k (init epollfd fd addr c) (ch_trace s) =
      Inr (u, ch_trace s @ rs @ closing_calls RES_GOT_REQUEST epollfd fd)"
    "only_recv fd rs" "m_sockfd u = -1"
    using process_delivered [of ds k "ch_trace s" fd epollfd addr c] assms
      good_request_no_bare_cr [OF assms(1)] spec_batch_request [OF assms(1), of "[]"] by auto
  then have "child_event reqstat_class k f ev s =
      Inr (s\<lparr>ch_clients := (ch_clients s)(nat fd := u),
             ch_trace := ch_trace s @ rs @ closing_calls RES_GOT_REQUEST epollfd fd\<rparr>)"
    using assms(4-9) by (simp add: child_event_def child_client_def)
  with u(2,3) show ?thesis by (simp add: is_init_def closing_calls_def)
qed

lemma connection_answered_witness:
  "let s = demo_child\<lparr>ch_clients := (ch_clients demo_child)(20 := init 5 20 a_peer zero_machine)\<rparr>;
       k = recv_script [''GET /a HTTP/1.0'', CRLF @ CRLF] in
   \<exists>t rs. child_event reqstat_class k demo_fds \<lparr>events = EPOLLIN, data_fd = 20\<rparr> s = Inr t \<and>
     ch_trace t = rs @ [FcntlGetFl 20, Writev 20 [hello_head, hello_body], EpollCtlDel 5 20, Close 20] \<and>
     is_init (ch_clients t 20) (-1)"
proof -
  let ?s = "demo_child\<lparr>ch_clients := (ch_clients demo_child)(20 := init 5 20 a_peer zero_machine)\<rparr>"
  let ?ds = "[''GET /a HTTP/1.0'', CRLF @ CRLF]"
  have ok: "request_line_ok ''GET /a HTTP/1.0''"
    unfolding request_line_ok_def
    by (intro exI [of _ "''GET''"] exI [of _ SPACE] exI [of _ "''/a''"] exI [of _ "''HTTP/1.0''"])
       (simp add: blanks_def method_ok_def version_ok_def strcasecmp_eq_def)
  have del: "delivers (recv_script ?ds) (ch_trace ?s) 20 k_recvbuf_size ?ds"
    by (rule delivers_script) (simp_all add: demo_child_def k_recvbuf_size_eq)
  have "\<exists>t rs. child_event reqstat_class (recv_script ?ds) demo_fds \<lparr>events = EPOLLIN, data_fd = 20\<rparr> ?s = Inr t \<and>
    ch_trace t = ch_trace ?s @ rs @ [FcntlGetFl 20, Writev 20 [hello_head, hello_body],
                                     EpollCtlDel 5 20, Close 20] \<and>
    only_recv 20 rs \<and> is_init (ch_clients t (nat 20)) (-1) \<and>
    (\<forall>i. i \<noteq> nat 20 \<longrightarrow> ch_clients t i = ch_clients ?s i)"
    by (rule connection_answered [where rl = "''GET /a HTTP/1.0''" and hs = "[]", OF _ _ _ _ _ _ _ _ _ del])
       (simp_all add: good_request_def ok text_line_def http_request_def k_recvbuf_size_eq
          in_array_def k_max_clientfd_def demo_fds_def)
  then show ?thesis unfolding Let_def by (simp add: demo_child_def) blast
qed

text \<open>
  The array of clients has 65536 elements and the code does not compare a descriptor with
  that number: a connection whose descriptor is larger (the limit of open files allows it) is an
  access outside the array.
\<close>

theorem descriptor_above_array_faults:
  assumes "k_accept k (ch_trace s) (cf_listenfd f) = Accepted fd addr" "65536 \<le> fd"
  shows "accept_loop reqstat_class k f k_max_accept_n s = Inl OutOfBounds"
proof -
  have "\<exists>m. k_max_accept_n = Suc m" by (simp add: k_max_accept_n_def)
  then obtain m where m: "k_max_accept_n = Suc m" ..
  show ?thesis using assms unfolding m
    by (simp add: accept_loop_round in_array_def k_max_clientfd_def del: accept_loop.simps)
qed

lemma descriptor_above_array_faults_witness:
  "accept_loop reqstat_class (idle_kernel\<lparr>k_accept := (\<lambda>h fd. Accepted 70000 a_peer)\<rparr>) demo_fds
     k_max_accept_n demo_child = Inl OutOfBounds"
  by (rule descriptor_above_array_faults [where fd = 70000 and addr = a_peer]) auto

end
