(* ===== verification/MainMultiProc.thy ===== *)
theory MainMultiProc
  imports ParentProps PoolClients
begin

text \<open>
  \<^verbatim>\<open>src/MainMultiProc.cc\<close>: the server program. \<open>main\<close> opens the listening socket, creates the pool of
  two children, runs this process in its role and closes the listening socket. The address is
  the one the arguments name.
\<close>

definition run ::
  "nat \<Rightarrow> 'c client_class \<Rightarrow> (nat \<Rightarrow> 'c) \<Rightarrow> kernel \<Rightarrow> ProcessPool \<Rightarrow> trace \<Rightarrow> trace res option" where
  "run fuel T clients0 k pool h =
     (case run_role pool of
        Inl e \<Rightarrow> Some (Inl e)
      | Inr (Parent i) \<Rightarrow> map_option (map_res snd) (RunParent fuel k i pool h)
      | Inr (Child c) \<Rightarrow> map_option (map_res snd) (RunChild fuel T clients0 k c pool h))"

text \<open>The exit code and the calls of the process; \<open>junk\<close> is the memory of the clients.\<close>

definition main :: "nat \<Rightarrow> (nat \<Rightarrow> req_stat_mach) \<Rightarrow> kernel \<Rightarrow> sockaddr_in \<Rightarrow> (int \<times> trace) res option" where
  "main fuel junk k addr =
     (let listenfd = k_socket k []; h = [SocketCreate] in
      if \<not> 0 \<le> listenfd then Some (Inl AssertFail)
      else
        let ret = k_bind k h listenfd; h = h @ [Bind listenfd addr] in
        if ret = -1 then Some (Inr (0, h))
        else
          let ret = k_listen k h listenfd; h = h @ [Listen listenfd 5] in
          if ret = -1 then Some (Inl AssertFail)
          else case create k None listenfd 2 h of
            Inl e \<Rightarrow> Some (Inl e)
          | Inr (pool, _, h) \<Rightarrow>
              map_option (map_res (\<lambda>h. (0, h @ [Close listenfd])))
                (run fuel reqstat_class (\<lambda>i. ReqStatMach_new (junk i)) k pool h))"

lemma create_None:
  "create k None listenfd n h = Inr (pool, inst, h') \<longleftrightarrow>
     ProcessPool_new k listenfd n h = Inr (pool, h') \<and> inst = Some pool"
  by (auto simp: create_def rbind_eq_Inr_iff)

text \<open>The constructor sends nothing, fails only by an assertion, and forks in every child.\<close>

lemma SetNonBlocking_no_send: "filter is_send (SetNonBlocking k fd h) = filter is_send h"
  by (simp add: SetNonBlocking_def Let_def)

lemma create_children_calls:
  "case create_children k l n i ps h of
     Inl e \<Rightarrow> e = AssertFail
   | Inr (child, ps', h') \<Rightarrow> filter is_send h' = filter is_send h \<and> (child \<longrightarrow> (\<exists>h. k_fork k h = 0))"
proof (induction k l n i ps h rule: create_children.induct)
  case (1 k l n i ps h)
  note unf = create_children.simps [of k l n i ps h]
  show ?case
  proof (cases "i < n + 1")
    case False
    then show ?thesis by (simp add: unf)
  next
    case True
    show ?thesis
    proof (cases "k_socketpair k h")
      case None
      with True show ?thesis by (simp add: unf)
    next
      case (Some rw)
      obtain r w where rw: "k_socketpair k h = Some (r, w)" using Some by (cases rw) auto
      show ?thesis
      proof (cases "k_fork k (h @ [SocketPair]) \<le> 0")
        case True
        with \<open>i < n + 1\<close> rw show ?thesis
          by (auto simp: unf Let_def SetNonBlocking_no_send)
      next
        case False
        let ?h = "SetNonBlocking k w (h @ [SocketPair, Fork]) @ [Close r]"
        have sends: "filter is_send ?h = filter is_send h" by (simp add: SetNonBlocking_no_send)
        from "1.IH" [OF True rw refl refl refl refl refl] False True rw show ?thesis
          by (simp add: unf Let_def SetNonBlocking_no_send split: sum.splits prod.splits)
      qed
    qed
  qed
qed

lemma ProcessPool_new_calls:
  "0 \<le> n \<Longrightarrow> n \<le> 10 \<Longrightarrow> case ProcessPool_new k l n h of
     Inl e \<Rightarrow> e = AssertFail
   | Inr (pool, h') \<Rightarrow> filter is_send h' = filter is_send h"
  using create_children_calls [where k = k and l = l and n = "nat n" and i = 1 and
      ps = "replicate (nat n + 1) Process_new" and h = h]
  by (cases "create_children k l (nat n) 1 (replicate (nat n + 1) Process_new) h")
     (auto simp: ProcessPool_new_def k_max_num_process_def Let_def simp del: replicate_Suc)

lemma ProcessPool_new_parent:
  assumes "ProcessPool_new k l n h = Inr (pool, h')" "\<forall>h. k_fork k h \<noteq> 0"
  shows "run_role pool = Inr (Parent 0)"
proof -
  obtain child ps h1 where cc: "create_children k l (nat n) 1 (replicate (nat n + 1) Process_new) h = Inr (child, ps, h1)"
    using assms(1) by (auto simp: ProcessPool_new_def rbind_eq_Inr_iff Let_def split: if_splits)
  then have "\<not> child" using create_children_calls [where k = k and l = l and n = "nat n" and i = 1 and
      ps = "replicate (nat n + 1) Process_new" and h = h] assms(2)
    by (auto simp del: replicate_Suc)
  then have "length ps = nat n + 1" using create_children_parent [of k l "nat n" 1 _ h ps h1] cc by simp
  then have "procs pool \<noteq> []" "pr_pool_id (procs pool ! 0) = 0"
    using assms(1) cc \<open>\<not> child\<close>
    by (auto simp: ProcessPool_new_def rbind_eq_Inr_iff Let_def split: if_splits)
  then show ?thesis by (simp add: run_role_def)
qed

text \<open>The run of the first process, in which \<open>fork\<close> never returns 0.\<close>

lemma run_first_process:
  assumes "ProcessPool_new k l n h0 = Inr (pool, h)" "\<forall>h. k_fork k h \<noteq> 0" "1 \<le> n"
    "recv_bounded k" "epoll_bounded k" "run fuel T clients0 k pool h = Some r"
  shows "r = Inl AssertFail \<or> (\<exists>h' c. r = Inr h' \<and> num_proc pool = nat n \<and>
    filter is_send h' = filter is_send h @ map (notice pool) [0..<c])"
proof -
  note role = ProcessPool_new_parent [OF assms(1,2)]
  have pool: "pool_wf pool" "children_ready pool" "\<not> stopped pool" "num_proc pool = nat n"
    using ProcessPool_new_roles [OF assms(1)] role by auto
  obtain r1 where r1: "RunParent fuel k 0 pool h = Some r1" "r = map_res snd r1"
    using assms(6) role by (auto simp: run_def)
  have "1 \<le> num_proc pool" using pool(4) assms(3) by simp
  from RunParent_run [OF pool(1,2) this pool(3) assms(4,5) r1(1)] pool(4) r1(2)
  show ?thesis by auto
qed

text \<open>
  What the programs around a pool have in common: a class of clients and a number of children.
\<close>

definition serve ::
  "nat \<Rightarrow> 'c client_class \<Rightarrow> (nat \<Rightarrow> 'c) \<Rightarrow> int \<Rightarrow> kernel \<Rightarrow> sockaddr_in \<Rightarrow> (int \<times> trace) res option" where
  "serve fuel T clients0 n k addr =
     (let l = k_socket k []; h = [SocketCreate, Bind l addr] in
      if l < 0 then Some (Inl AssertFail)
      else if k_bind k [SocketCreate] l = -1 then Some (Inr (0, h))
      else if k_listen k h l = -1 then Some (Inl AssertFail)
      else case ProcessPool_new k l n (h @ [Listen l 5]) of
        Inl e \<Rightarrow> Some (Inl e)
      | Inr (pool, h) \<Rightarrow> map_option (map_res (\<lambda>h. (0, h @ [Close l]))) (run fuel T clients0 k pool h))"

lemma main_serve: "main fuel junk k addr = serve fuel reqstat_class (\<lambda>i. ReqStatMach_new (junk i)) 2 k addr"
  by (simp add: main_def serve_def create_def Let_def not_le split: sum.split)

lemma serve_parent:
  assumes "serve fuel T clients0 n k addr = Some r" "recv_bounded k" "epoll_bounded k"
    "\<forall>h. k_fork k h \<noteq> 0" "1 \<le> n" "n \<le> 10"
  shows "r = Inl AssertFail \<or> r = Inr (0, [SocketCreate, Bind (k_socket k []) addr]) \<or>
    (\<exists>pool h c. r = Inr (0, h @ [Close (k_socket k [])]) \<and>
       num_proc pool = nat n \<and> filter is_send h = map (notice pool) [0..<c])"
proof -
  let ?l = "k_socket k []"
  let ?h = "[SocketCreate, Bind ?l addr, Listen ?l 5]"
  show ?thesis
  proof (cases "?l < 0 \<or> k_bind k [SocketCreate] ?l = -1 \<or>
      k_listen k [SocketCreate, Bind ?l addr] ?l = -1")
    case True
    with assms(1) show ?thesis by (auto simp: serve_def Let_def split: if_splits)
  next
    case False
    then have m: "serve fuel T clients0 n k addr = (case ProcessPool_new k ?l n ?h of
        Inl e \<Rightarrow> Some (Inl e)
      | Inr (pool, h) \<Rightarrow> map_option (map_res (\<lambda>h. (0, h @ [Close ?l]))) (run fuel T clients0 k pool h))"
      by (simp add: serve_def Let_def)
    have calls: "case ProcessPool_new k ?l n ?h of
        Inl e \<Rightarrow> e = AssertFail | Inr (pool, h') \<Rightarrow> filter is_send h' = filter is_send ?h"
      using ProcessPool_new_calls assms(5,6) by simp
    show ?thesis
    proof (cases "ProcessPool_new k ?l n ?h")
      case (Inl e)
      with m calls assms(1) show ?thesis by simp
    next
      case (Inr p)
      obtain pool h where p: "ProcessPool_new k ?l n ?h = Inr (pool, h)" using Inr by (cases p) simp
      obtain r1 where r1: "run fuel T clients0 k pool h = Some r1" "r = map_res (\<lambda>h. (0, h @ [Close ?l])) r1"
        using m p assms(1) by (cases "run fuel T clients0 k pool h") auto
      have "filter is_send h = []" using calls p by simp
      with run_first_process [OF p assms(4,5,2,3) r1(1)]
      consider "r1 = Inl AssertFail"
        | h' c where "r1 = Inr h'" "num_proc pool = nat n" "filter is_send h' = map (notice pool) [0..<c]"
        by auto
      then show ?thesis by cases (use r1(2) in \<open>auto intro!: exI [of _ pool]\<close>)
    qed
  qed
qed

section \<open>Properties\<close>


definition main_kernel :: kernel where
  "main_kernel = demo_kernel\<lparr>k_socket := (\<lambda>h. 4), k_bind := (\<lambda>h fd. 0), k_listen := (\<lambda>h fd. 0)\<rparr>"


end
