(* ===== verification/PoolFork.thy ===== *)
theory PoolFork
  imports MainMultiProc
begin

text \<open>
  The constructor of the pool seen from both sides of \<open>fork\<close>. The parent and child \<open>i\<close> run the same
  code up to the \<open>i\<close>-th \<open>fork\<close>, which returns a pid in one and 0 in the other; here the two runs are
  related, so that the two ends of the socket pair are known to meet.
\<close>

section \<open>The same kernel up to a fork\<close>

definition is_fork :: "syscall \<Rightarrow> bool" where
  "is_fork c = (case c of Fork \<Rightarrow> True | _ \<Rightarrow> False)"

abbreviation forks :: "trace \<Rightarrow> nat" where
  "forks h \<equiv> length (filter is_fork h)"

lemma is_fork_simps [simp]:
  "is_fork Fork" "\<not> is_fork SocketPair" "\<not> is_fork (FcntlGetFl fd)" "\<not> is_fork (FcntlSetFl fd v)"
  "\<not> is_fork (Close fd)" "\<not> is_fork Getpid" "\<not> is_fork SocketCreate" "\<not> is_fork (Bind fd a)"
  "\<not> is_fork (Listen fd n)"
  by (simp_all add: is_fork_def)

text \<open>
  \<open>k'\<close> is the kernel as child \<open>i\<close> sees it: before the \<open>i\<close>-th \<open>fork\<close> it has answered as \<open>k\<close> has answered
  the parent, this \<open>fork\<close> returns 0, and what comes later is the child's own.
\<close>

definition forked_as :: "nat \<Rightarrow> kernel \<Rightarrow> kernel \<Rightarrow> bool" where
  "forked_as i k k' \<longleftrightarrow> (\<forall>h. forks h < i \<longrightarrow>
     k_socketpair k' h = k_socketpair k h \<and> (\<forall>fd. k_getfl k' h fd = k_getfl k h fd) \<and>
     k_fork k' h = (if forks h = i - 1 then 0 else k_fork k h))"

lemma forked_asD:
  assumes "forked_as i k k'" "forks h < i"
  shows "k_socketpair k' h = k_socketpair k h" "k_getfl k' h fd = k_getfl k h fd"
    "k_fork k' h = (if forks h = i - 1 then 0 else k_fork k h)"
  using assms by (auto simp: forked_as_def)

section \<open>The loop over the children\<close>

lemma forks_SetNonBlocking [simp]: "forks (SetNonBlocking k fd h) = forks h"
  by (simp add: SetNonBlocking_def Let_def)

lemma SetNonBlocking_extends: "\<exists>cs. SetNonBlocking k fd h = h @ cs"
  by (simp add: SetNonBlocking_def Let_def)

text \<open>One turn of the loop, in the parent.\<close>

lemma create_children_turn:
  assumes "create_children k l n i ps h = Inr (False, ps', h')" "i \<le> n"
  obtains r w where "k_socketpair k h = Some (r, w)" "0 < k_fork k (h @ [SocketPair])"
    "create_children k l n (i + 1)
       (ps[i := (ps ! i)\<lparr>pr_fa_pipefd := Some (r, w), pr_pid := k_fork k (h @ [SocketPair])\<rparr>])
       (SetNonBlocking k w (h @ [SocketPair, Fork]) @ [Close r]) = Inr (False, ps', h')"
proof (cases "k_socketpair k h")
  case None
  with assms show ?thesis by (simp add: create_children.simps [of k l n i])
next
  case (Some rw)
  obtain r w where rw: "rw = (r, w)" by (cases rw)
  show ?thesis
    by (rule that [of r w])
       (use assms Some rw in \<open>auto simp: create_children.simps [of k l n i] Let_def split: if_splits\<close>)
qed

lemma create_children_extends:
  "create_children k l n i ps h = Inr (False, ps', h') \<Longrightarrow> \<exists>cs. h' = h @ cs"
proof (induction "n + 1 - i" arbitrary: i ps h)
  case 0
  then show ?case by (simp add: create_children.simps [of k l n i])
next
  case (Suc m)
  then have i: "i \<le> n" by simp
  from create_children_turn [OF Suc.prems i] obtain r w ps1 where
    "create_children k l n (i + 1) ps1
       (SetNonBlocking k w (h @ [SocketPair, Fork]) @ [Close r]) = Inr (False, ps', h')" by metis
  moreover have "m = n + 1 - (i + 1)" using Suc.hyps(2) by simp
  ultimately obtain cs where "h' = (SetNonBlocking k w (h @ [SocketPair, Fork]) @ [Close r]) @ cs"
    using Suc.hyps(1) by blast
  then show ?case by (simp add: SetNonBlocking_def Let_def)
qed

text \<open>
  The run of the parent determines the run of child \<open>i\<close>: it leaves the loop at index \<open>i\<close>, with the
  pipe that the parent has for \<open>i\<close>, after the calls \<open>h1\<close> they share, of which \<open>fork\<close> is the last.
\<close>

definition left_at :: "nat \<Rightarrow> fd \<Rightarrow> Process list \<Rightarrow> Process list \<Rightarrow> bool" where
  "left_at i l ps qs \<longleftrightarrow> length qs = length ps \<and> pr_pool_id (qs ! i) = int i \<and>
     pr_listenfd (qs ! i) = l \<and> pr_pid (qs ! i) = 0 \<and>
     (\<forall>m < length ps. m \<noteq> i \<longrightarrow> pr_pool_id (qs ! m) = pr_pool_id (ps ! m))"

lemma create_children_as_child:
  assumes "create_children k l n j ps h = Inr (False, ps', h')" "length ps = n + 1"
    "1 \<le> j" "j \<le> i" "i \<le> n" "forks h = j - 1" "forked_as i k k'"
  shows "\<exists>qs h1 rest r w. create_children k' l n j ps h = Inr (True, qs, SetNonBlocking k' r h1 @ [Close w]) \<and>
     h' = h1 @ rest \<and> forks h1 = i \<and> last h1 = Fork \<and> left_at i l ps qs \<and>
     pr_fa_pipefd (ps' ! i) = Some (r, w) \<and> pr_fa_pipefd (qs ! i) = Some (r, w)"
  using assms
proof (induction "i - j" arbitrary: j ps h)
  case 0
  then have j: "j = i" "j \<le> n" by simp_all
  from create_children_turn [OF "0.prems"(1) j(2)] obtain r w where
    rw: "k_socketpair k h = Some (r, w)" and
    rest: "create_children k l n (j + 1)
       (ps[j := (ps ! j)\<lparr>pr_fa_pipefd := Some (r, w), pr_pid := k_fork k (h @ [SocketPair])\<rparr>])
       (SetNonBlocking k w (h @ [SocketPair, Fork]) @ [Close r]) = Inr (False, ps', h')" by metis
  have before: "forks h < i" "forks (h @ [SocketPair]) < i" "forks h = i - 1"
    using "0.prems"(3-6) j by simp_all
  note ans = forked_asD [OF "0.prems"(7)]
  have pipe: "pr_fa_pipefd (ps' ! i) = Some (r, w)"
    using create_children_parent [OF rest] "0.prems"(2,5) j by simp
  obtain cs where "h' = SetNonBlocking k w (h @ [SocketPair, Fork]) @ [Close r] @ cs"
    using create_children_extends [OF rest] by auto
  then obtain rest where h': "h' = (h @ [SocketPair, Fork]) @ rest"
    using SetNonBlocking_extends [of k w "h @ [SocketPair, Fork]"] by auto
  let ?qs = "ps[i := (ps ! i)\<lparr>pr_fa_pipefd := Some (r, w), pr_pid := 0, pr_listenfd := l, pr_pool_id := int i\<rparr>]"
  have "create_children k' l n j ps h =
      Inr (True, ?qs, SetNonBlocking k' r (h @ [SocketPair, Fork]) @ [Close w])"
    using j rw ans(1) [OF before(1)] ans(3) [OF before(2)] before(3)
    by (simp add: create_children.simps [of k' l n i] Let_def)
  moreover have "forks (h @ [SocketPair, Fork]) = i" "left_at i l ps ?qs"
      "pr_fa_pipefd (?qs ! i) = Some (r, w)"
    using before(3) "0.prems"(2-5) j by (auto simp: left_at_def)
  ultimately show ?case using pipe h'
    by (rule_tac x = ?qs in exI, rule_tac x = "h @ [SocketPair, Fork]" in exI) auto
next
  case (Suc d)
  then have j: "j < i" "j \<le> n" by simp_all
  let ?h = "h @ [SocketPair]"
  let ?ps = "\<lambda>r w. ps[j := (ps ! j)\<lparr>pr_fa_pipefd := Some (r, w), pr_pid := k_fork k ?h\<rparr>]"
  from create_children_turn [OF Suc.prems(1) j(2)] obtain r w where
    rw: "k_socketpair k h = Some (r, w)" "0 < k_fork k ?h" and
    rest: "create_children k l n (j + 1) (?ps r w)
       (SetNonBlocking k w (h @ [SocketPair, Fork]) @ [Close r]) = Inr (False, ps', h')" by metis
  have before: "forks h < i" "forks ?h < i" "forks (?h @ [Fork]) < i" "forks ?h \<noteq> i - 1"
    using Suc.prems(3,6) j by simp_all
  note ans = forked_asD [OF Suc.prems(7)]
  have same: "SetNonBlocking k' w (h @ [SocketPair, Fork]) = SetNonBlocking k w (h @ [SocketPair, Fork])"
    using ans(2) [OF before(3)] by (simp add: SetNonBlocking_def)
  have "create_children k' l n j ps h =
      create_children k' l n (j + 1) (?ps r w) (SetNonBlocking k w (h @ [SocketPair, Fork]) @ [Close r])"
    using j rw ans(1) [OF before(1)] ans(3) [OF before(2)] before(4) same
    by (simp add: create_children.simps [of k' l n j] Let_def)
  moreover have "pr_pool_id (?ps r w ! m) = pr_pool_id (ps ! m)" for m
    using Suc.prems(2) j by (cases "m = j") simp_all
  then have "left_at i l (?ps r w) qs \<Longrightarrow> left_at i l ps qs" for qs
    by (simp add: left_at_def)
  ultimately show ?case
    using Suc.hyps(1) [OF _ rest] Suc.hyps(2) Suc.prems(2-7) j by fastforce
qed

section \<open>The constructor\<close>

lemma ProcessPool_new_children:
  assumes "ProcessPool_new k l num h = Inr (pool, h')" "run_role pool = Inr (Parent 0)"
  obtains ps h1 where
    "create_children k l (nat num) 1 (replicate (nat num + 1) Process_new) h = Inr (False, ps, h1)"
    "h' = h1 @ [Getpid]" "num_proc pool = nat num" "0 \<le> num" "num \<le> k_max_num_process"
    "\<And>i. 1 \<le> i \<Longrightarrow> procs pool ! i = ps ! i"
proof -
  have new: "0 \<le> num" "num \<le> k_max_num_process"
    using assms(1) by (auto simp: ProcessPool_new_def split: if_splits)
  obtain child ps h1 where cc: "create_children k l (nat num) 1 (replicate (nat num + 1) Process_new) h =
      Inr (child, ps, h1)"
    and pool: "(if child then Inr (\<lparr>num_proc = nat num, procs = ps, stopped = False\<rparr>, h1)
       else Inr (\<lparr>num_proc = nat num, procs = ps[0 := (ps ! 0)\<lparr>pr_pid := k_getpid k h1, pr_listenfd := l,
         pr_pool_id := 0\<rparr>], stopped = False\<rparr>, h1 @ [Getpid])) = Inr (pool, h')"
    using assms(1) new by (auto simp: ProcessPool_new_def rbind_eq_Inr_iff Let_def split: if_splits)
  have "\<not> child"
  proof
    assume child: "child"
    then have "create_children k l (nat num) 1 (replicate (nat num + 1) Process_new) h = Inr (True, ps, h1)"
      using cc by simp
    from create_children_child [OF this length_replicate] obtain c where
      "1 \<le> c" "length ps = nat num + 1"
      "\<forall>j \<le> nat num. j \<noteq> c \<longrightarrow> pr_pool_id (ps ! j) = pr_pool_id (replicate (nat num + 1) Process_new ! j)"
      by blast
    then have "pr_pool_id (ps ! 0) = -1" "ps \<noteq> []" by (auto simp: Process_new_def)
    then show False using assms(2) pool child by (auto simp: run_role_def)
  qed
  with cc pool new show ?thesis by (intro that [of ps h1]) auto
qed

text \<open>The role of a process that left the loop at index \<open>i\<close>.\<close>

lemma left_at_role:
  assumes "left_at i l (replicate (n + 1) Process_new) qs" "1 \<le> i" "i \<le> n"
  shows "run_role \<lparr>num_proc = n, procs = qs, stopped = False\<rparr> = Inr (Child (int i))"
proof -
  have len: "length qs = n + 1" using assms(1) by (simp add: left_at_def)
  have others: "pr_pool_id (qs ! m) = -1" if "m \<le> n" "m \<noteq> i" for m
  proof -
    have "replicate (n + 1) Process_new ! m = Process_new" using that by (intro nth_replicate) simp
    then show ?thesis using assms(1) that by (simp add: left_at_def Process_new_def del: replicate_Suc)
  qed
  have "find_pool_id qs 0 = int (0 + i)"
    using assms(1) len others assms(2,3) by (intro find_pool_id_first) (auto simp: left_at_def)
  then show ?thesis using len others [of 0] assms(2,3) by (auto simp: run_role_def)
qed

text \<open>
  The two runs of the constructor: the one that becomes the parent determines the one that becomes
  child \<open>i\<close>, which ends with the pipe the parent keeps for it.
\<close>

lemma fork_wiring:
  assumes "ProcessPool_new k l n h = Inr (pool, h')" "run_role pool = Inr (Parent 0)"
    "forks h = 0" "1 \<le> i" "i \<le> num_proc pool" "forked_as i k k'"
  obtains ch h1 rest r w where
    "ProcessPool_new k' l n h = Inr (ch, SetNonBlocking k' r h1 @ [Close w])"
    "h' = h1 @ rest" "forks h1 = i" "last h1 = Fork" "run_role ch = Inr (Child (int i))"
    "pr_fa_pipefd (procs pool ! i) = Some (r, w)" "pr_fa_pipefd (procs ch ! i) = Some (r, w)"
    "pr_listenfd (procs ch ! i) = l" "\<not> stopped ch" "length (procs ch) = num_proc pool + 1"
proof -
  from ProcessPool_new_children [OF assms(1,2)] obtain ps h0 where
    cc: "create_children k l (nat n) 1 (replicate (nat n + 1) Process_new) h = Inr (False, ps, h0)"
    and parent: "h' = h0 @ [Getpid]" "num_proc pool = nat n" "0 \<le> n" "n \<le> k_max_num_process"
      "\<And>i. 1 \<le> i \<Longrightarrow> procs pool ! i = ps ! i" by metis
  from create_children_as_child [OF cc length_replicate _ assms(4) _ _ assms(6)] assms(3,5) parent(2)
  obtain qs h1 rest r w where
    child: "create_children k' l (nat n) 1 (replicate (nat n + 1) Process_new) h =
        Inr (True, qs, SetNonBlocking k' r h1 @ [Close w])"
      "h0 = h1 @ rest" "forks h1 = i" "last h1 = Fork"
      "left_at i l (replicate (nat n + 1) Process_new) qs"
      "pr_fa_pipefd (ps ! i) = Some (r, w)" "pr_fa_pipefd (qs ! i) = Some (r, w)" by auto
  let ?ch = "\<lparr>num_proc = nat n, procs = qs, stopped = False\<rparr>"
  have "ProcessPool_new k' l n h = Inr (?ch, SetNonBlocking k' r h1 @ [Close w])"
    using child(1) parent(3,4) by (simp add: ProcessPool_new_def)
  moreover have "run_role ?ch = Inr (Child (int i))"
    using left_at_role [OF child(5) assms(4)] assms(5) parent(2) by simp
  moreover have "length qs = nat n + 1" "pr_listenfd (qs ! i) = l" using child(5) by (simp_all add: left_at_def)
  ultimately show ?thesis
    using child parent assms(4) by (intro that [of ?ch r h1 w "rest @ [Getpid]"]) auto
qed

end
