(* ===== verification/PoolSystem.thy ===== *)
theory PoolSystem
  imports PoolFork ChildProps
begin

text \<open>
  The running pool as one system: the parent and its children, each at its own place of its own
  event loop, the pipes from the parent to the children, and the signal pipes of the children. The
  processes are the functions of \<open>ProcessPool\<close> and \<open>ChildLoop\<close>; what is added here is what the
  operating system keeps between them (bytes sent and not yet received, signals turned into bytes)
  and the interleaving, of which nothing is assumed.
\<close>

section \<open>The state\<close>

text \<open>
  Process 0 is the parent, \<open>1..num_proc\<close> are the children. \<open>sy_todo\<close> holds the events of the last
  \<open>epoll_wait\<close> of a process that its loop has not come to yet, \<open>sy_left\<close> the processes whose loop
  ended by \<open>break\<close> or that crashed. \<open>sy_pipe i\<close> are the bytes on the way to child \<open>i\<close>; \<open>sy_got i\<close> is
  a history variable, the bytes child \<open>i\<close> has received from its pipe; \<open>sy_sigs i\<close> is what its signal
  handler has written and the loop has not read.
\<close>

record 'c pool_system =
  sy_parent :: parent
  sy_child :: "nat \<Rightarrow> 'c child"
  sy_todo :: "nat \<Rightarrow> epoll_event list"
  sy_left :: "nat set"
  sy_pipe :: "nat \<Rightarrow> char list"
  sy_got :: "nat \<Rightarrow> char list"
  sy_sigs :: "nat \<Rightarrow> char list"

section \<open>Between the processes\<close>

text \<open>The bytes a list of calls sends to a descriptor, and the signals it sends to a process.\<close>

definition sent_on :: "fd \<Rightarrow> trace \<Rightarrow> char list" where
  "sent_on fd cs = concat (map (\<lambda>c. case c of Send g d \<Rightarrow> if g = fd then d else [] | _ \<Rightarrow> []) cs)"

definition kills_to :: "pid \<Rightarrow> trace \<Rightarrow> int list" where
  "kills_to p cs = concat (map (\<lambda>c. case c of Kill q s \<Rightarrow> if q = p then [s] else [] | _ \<Rightarrow> []) cs)"

definition is_child :: "ProcessPool \<Rightarrow> nat \<Rightarrow> bool" where
  "is_child pool i \<longleftrightarrow> 1 \<le> i \<and> i \<le> num_proc pool"

text \<open>What the calls \<open>cs\<close> of the parent put on the pipe to child \<open>i\<close>.\<close>

definition addressed :: "ProcessPool \<Rightarrow> trace \<Rightarrow> nat \<Rightarrow> char list" where
  "addressed pool cs i =
     (if is_child pool i
      then case kPaWfd (procs pool ! i) of Inl e \<Rightarrow> [] | Inr wfd \<Rightarrow> sent_on wfd cs
      else [])"

definition signals_for :: "ProcessPool \<Rightarrow> trace \<Rightarrow> nat \<Rightarrow> int list" where
  "signals_for pool cs i =
     (if is_child pool i then kills_to (pr_pid (procs pool ! i)) cs else [])"

text \<open>
  A signal reaches a process: its handler runs between two of its calls, and the byte it writes is
  in the signal pipe.
\<close>

definition handle_signals_of :: "child_fds \<Rightarrow> int list \<Rightarrow> trace \<Rightarrow> trace" where
  "handle_signals_of f sigs h = fold (\<lambda>s h. SioHandler (cf_sig_pipefd f) s h) sigs h"

definition signalled :: "(nat \<Rightarrow> child_fds) \<Rightarrow> (nat \<Rightarrow> int list) \<Rightarrow> 'c pool_system \<Rightarrow> 'c pool_system" where
  "signalled F sigs S =
     S\<lparr>sy_child := (\<lambda>i. (sy_child S i)\<lparr>ch_trace :=
         handle_signals_of (F i) (sigs i) (ch_trace (sy_child S i))\<rparr>),
       sy_sigs := (\<lambda>i. sy_sigs S i @
         sent_on (snd (cf_sig_pipefd (F i))) (handle_signals_of (F i) (sigs i) []))\<rparr>"

definition deliver :: "(nat \<Rightarrow> child_fds) \<Rightarrow> trace \<Rightarrow> 'c pool_system \<Rightarrow> 'c pool_system" where
  "deliver F cs S =
     (let pool = pa_pool (sy_parent S) in
      signalled F (\<lambda>i. if i \<in> sy_left S then [] else signals_for pool cs i)
        (S\<lparr>sy_pipe := (\<lambda>i. sy_pipe S i @ addressed pool cs i)\<rparr>))"

text \<open>
  The kernel of a child: what it reads from its two pipes is what is in them (a stream socket in
  non-blocking mode, unix(7)); everything else is an arbitrary kernel.
\<close>

definition pipe_answer :: "nat \<Rightarrow> char list \<Rightarrow> recv_ret" where
  "pipe_answer n d = (if d = [] then RecvErr EAGAIN else RecvData (take n d))"

definition piped :: "child_fds \<Rightarrow> char list \<Rightarrow> char list \<Rightarrow> kernel \<Rightarrow> kernel" where
  "piped f d sigs k = k\<lparr>k_recv := (\<lambda>h fd n.
     if fd = cf_ipc_pipefd f then pipe_answer n d
     else if fd = fst (cf_sig_pipefd f) then pipe_answer n sigs
     else k_recv k h fd n)\<rparr>"

section \<open>A turn of a process\<close>

text \<open>
  A process either goes on with the events of its last \<open>epoll_wait\<close>, one per turn, or, if there is
  none left and its loop has not ended, calls \<open>epoll_wait\<close>. Both are the code of \<open>parent_round\<close>
  and \<open>child_round\<close>.
\<close>

definition parent_waits :: "kernel \<Rightarrow> 'c pool_system \<Rightarrow> 'c pool_system res" where
  "parent_waits k S =
     (let p = sy_parent S; epfd = pr_epollfd (procs (pa_pool p) ! 0);
          ret = k_epoll_wait k (pa_trace p) epfd k_max_num_epoll_event;
          S = S\<lparr>sy_parent := p\<lparr>pa_trace := pa_trace p @ [EpollWait epfd k_max_num_epoll_event]\<rparr>\<rparr> in
      case ret of
        EpollErr e \<Rightarrow> Inr (if e \<noteq> EINTR then S\<lparr>sy_left := insert 0 (sy_left S)\<rparr> else S)
      | EpollEvents evs \<Rightarrow>
          if k_max_num_epoll_event < length evs then Inl OutOfBounds
          else Inr (S\<lparr>sy_todo := (sy_todo S)(0 := evs)\<rparr>))"

definition parent_handles ::
  "(nat \<Rightarrow> child_fds) \<Rightarrow> kernel \<Rightarrow> epoll_event \<Rightarrow> 'c pool_system \<Rightarrow> 'c pool_system res" where
  "parent_handles F k ev S =
     rbind (parent_event k 0 ev (sy_parent S)) (\<lambda>p.
       Inr (deliver F (drop (length (pa_trace (sy_parent S))) (pa_trace p)) (S\<lparr>sy_parent := p\<rparr>)))"

definition parent_turn :: "(nat \<Rightarrow> child_fds) \<Rightarrow> kernel \<Rightarrow> 'c pool_system \<Rightarrow> 'c pool_system res" where
  "parent_turn F k S =
     (case sy_todo S 0 of
        ev # evs \<Rightarrow> parent_handles F k ev (S\<lparr>sy_todo := (sy_todo S)(0 := evs)\<rparr>)
      | [] \<Rightarrow> if stopped (pa_pool (sy_parent S)) \<or> 0 \<in> sy_left S then Inr S else parent_waits k S)"

definition on_pipe :: "fd \<Rightarrow> epoll_event \<Rightarrow> bool" where
  "on_pipe fd ev \<longleftrightarrow> data_fd ev = fd \<and> events ev AND EPOLLIN \<noteq> 0"

definition child_waits :: "child_fds \<Rightarrow> kernel \<Rightarrow> nat \<Rightarrow> 'c pool_system \<Rightarrow> 'c pool_system res" where
  "child_waits f k i S =
     (let c = sy_child S i;
          ret = k_epoll_wait k (ch_trace c) (cf_epollfd f) k_max_num_epoll_event;
          S = S\<lparr>sy_child := (sy_child S)(i := log [EpollWait (cf_epollfd f) k_max_num_epoll_event] c)\<rparr> in
      case ret of
        EpollErr e \<Rightarrow> Inr (if e \<noteq> EINTR then S\<lparr>sy_left := insert i (sy_left S)\<rparr> else S)
      | EpollEvents evs \<Rightarrow>
          if k_max_num_epoll_event < length evs then Inl OutOfBounds
          else Inr (S\<lparr>sy_todo := (sy_todo S)(i := evs)\<rparr>))"

text \<open>An event on a pipe consumes up to ten of its bytes, in one \<open>recv\<close>.\<close>

definition child_handles ::
  "'c client_class \<Rightarrow> child_fds \<Rightarrow> kernel \<Rightarrow> nat \<Rightarrow> epoll_event \<Rightarrow> 'c pool_system \<Rightarrow> 'c pool_system res" where
  "child_handles T f k i ev S =
     rbind (child_event T (piped f (sy_pipe S i) (sy_sigs S i) k) f ev (sy_child S i)) (\<lambda>c.
       let S = S\<lparr>sy_child := (sy_child S)(i := c)\<rparr> in
       Inr (if on_pipe (cf_ipc_pipefd f) ev
            then S\<lparr>sy_pipe := (sy_pipe S)(i := drop 10 (sy_pipe S i)),
                   sy_got := (sy_got S)(i := sy_got S i @ take 10 (sy_pipe S i))\<rparr>
            else if on_pipe (fst (cf_sig_pipefd f)) ev
            then S\<lparr>sy_sigs := (sy_sigs S)(i := drop 10 (sy_sigs S i))\<rparr>
            else S))"

definition child_turn ::
  "'c client_class \<Rightarrow> (nat \<Rightarrow> child_fds) \<Rightarrow> kernel \<Rightarrow> nat \<Rightarrow> 'c pool_system \<Rightarrow> 'c pool_system res" where
  "child_turn T F k i S =
     (case sy_todo S i of
        ev # evs \<Rightarrow> child_handles T (F i) k i ev (S\<lparr>sy_todo := (sy_todo S)(i := evs)\<rparr>)
      | [] \<Rightarrow> if ch_stop (sy_child S i) \<or> i \<in> sy_left S then Inr S else child_waits (F i) k i S)"

text \<open>Several turns of the same process in a row.\<close>

fun child_turns ::
  "'c client_class \<Rightarrow> (nat \<Rightarrow> child_fds) \<Rightarrow> kernel \<Rightarrow> nat \<Rightarrow> nat \<Rightarrow> 'c pool_system \<Rightarrow> 'c pool_system res" where
  "child_turns T F k i 0 S = Inr S"
| "child_turns T F k i (Suc n) S = rbind (child_turn T F k i S) (child_turns T F k i n)"

fun parent_turns :: "(nat \<Rightarrow> child_fds) \<Rightarrow> kernel \<Rightarrow> nat \<Rightarrow> 'c pool_system \<Rightarrow> 'c pool_system res" where
  "parent_turns F k 0 S = Inr S"
| "parent_turns F k (Suc n) S = rbind (parent_turn F k S) (parent_turns F k n)"

section \<open>Start, steps, reachable states\<close>

text \<open>
  The parent starts where its set-up ends, and so does child \<open>i\<close>, which sees the kernel \<open>kc i\<close>: the
  one of the parent up to the \<open>fork\<close> it comes from.
\<close>

definition parent_starts :: "kernel \<Rightarrow> fd \<Rightarrow> int \<Rightarrow> trace \<Rightarrow> parent \<Rightarrow> bool" where
  "parent_starts k l n h p \<longleftrightarrow>
     (\<exists>pool h1. ProcessPool_new k l n h = Inr (pool, h1) \<and> run_role pool = Inr (Parent 0) \<and>
        parent_setup k 0 pool h1 = Inr p)"

definition child_starts ::
  "kernel \<Rightarrow> fd \<Rightarrow> int \<Rightarrow> trace \<Rightarrow> (nat \<Rightarrow> 'c) \<Rightarrow> child_fds \<Rightarrow> 'c child \<Rightarrow> bool" where
  "child_starts k l n h clients0 f c \<longleftrightarrow>
     (\<exists>pool h1 i pool' h2. ProcessPool_new k l n h = Inr (pool, h1) \<and> run_role pool = Inr (Child i) \<and>
        child_setup k i pool h1 = Inr (f, pool', h2) \<and>
        c = \<lparr>ch_stop = stopped pool', ch_clients = clients0, ch_trace = h2\<rparr>)"

definition pool_starts ::
  "kernel \<Rightarrow> (nat \<Rightarrow> kernel) \<Rightarrow> fd \<Rightarrow> int \<Rightarrow> trace \<Rightarrow> (nat \<Rightarrow> 'c) \<Rightarrow> (nat \<Rightarrow> child_fds) \<Rightarrow>
     'c pool_system \<Rightarrow> bool" where
  "pool_starts k kc l n h clients0 F S \<longleftrightarrow>
     parent_starts k l n h (sy_parent S) \<and>
     (\<forall>i. 1 \<le> i \<and> i \<le> nat n \<longrightarrow>
        forked_as i k (kc i) \<and> child_starts (kc i) l n h clients0 (F i) (sy_child S i)) \<and>
     sy_todo S = (\<lambda>i. []) \<and> sy_left S = {} \<and> sy_pipe S = (\<lambda>i. []) \<and>
     sy_got S = (\<lambda>i. []) \<and> sy_sigs S = (\<lambda>i. [])"

text \<open>
  One step: a turn of the parent, a turn of a child, the crash of a child whose turn is a fault, or
  one of the three handled signals that reaches a child from outside.
\<close>

inductive pool_step ::
  "'c client_class \<Rightarrow> (nat \<Rightarrow> child_fds) \<Rightarrow> 'c pool_system \<Rightarrow> 'c pool_system \<Rightarrow> bool"
  for T F where
  parent: "recv_bounded k \<Longrightarrow> epoll_bounded k \<Longrightarrow> parent_turn F k S = Inr S' \<Longrightarrow> pool_step T F S S'"
| child: "is_child (pa_pool (sy_parent S)) i \<Longrightarrow> i \<notin> sy_left S \<Longrightarrow>
    recv_bounded k \<Longrightarrow> epoll_bounded k \<Longrightarrow> child_turn T F k i S = Inr S' \<Longrightarrow> pool_step T F S S'"
| crash: "is_child (pa_pool (sy_parent S)) i \<Longrightarrow> i \<notin> sy_left S \<Longrightarrow>
    recv_bounded k \<Longrightarrow> epoll_bounded k \<Longrightarrow> child_turn T F k i S = Inl e \<Longrightarrow>
    pool_step T F S (S\<lparr>sy_left := insert i (sy_left S)\<rparr>)"
| signal: "is_child (pa_pool (sy_parent S)) i \<Longrightarrow> i \<notin> sy_left S \<Longrightarrow>
    sig = SIGTERM \<or> sig = SIGINT \<or> sig = SIGCHLD \<Longrightarrow>
    pool_step T F S (signalled F ((\<lambda>j. [])(i := [sig])) S)"

abbreviation pool_steps ::
  "'c client_class \<Rightarrow> (nat \<Rightarrow> child_fds) \<Rightarrow> 'c pool_system \<Rightarrow> 'c pool_system \<Rightarrow> bool" where
  "pool_steps T F \<equiv> (pool_step T F)\<^sup>*\<^sup>*"

end
