(* ===== verification/PoolSystemLemmas.thy ===== *)
theory PoolSystemLemmas
  imports PoolSystem
begin

text \<open>
  The invariant of the pool system and its preservation by every step: the parent is in its
  rotation, what a child got and what is on its way to it are together what the parent has
  addressed to it, and once the parent is stopped every child is stopped, gone, or has a stop signal
  to read.
\<close>

section \<open>Bytes and signals between the processes\<close>

lemma sent_on_append [simp]: "sent_on fd (xs @ ys) = sent_on fd xs @ sent_on fd ys"
  by (simp add: sent_on_def)

lemma kills_to_append [simp]: "kills_to p (xs @ ys) = kills_to p xs @ kills_to p ys"
  by (simp add: kills_to_def)

lemma addressed_append: "addressed pool (xs @ ys) i = addressed pool xs i @ addressed pool ys i"
  by (simp add: addressed_def split: sum.split)

lemma sent_on_filter: "sent_on fd (filter is_send cs) = sent_on fd cs"
  by (induction cs) (auto simp: sent_on_def is_send_def split: syscall.splits)

lemma addressed_filter: "addressed pool (filter is_send cs) i = addressed pool cs i"
  by (simp add: addressed_def sent_on_filter split: sum.split)

lemma addressed_no_send: "filter is_send cs = [] \<Longrightarrow> addressed pool cs i = []"
  using addressed_filter [of pool cs i, symmetric] by (simp add: addressed_def sent_on_def split: sum.split)

lemma same_pool_addressed: "same_pool pool s \<Longrightarrow> addressed (pa_pool s) = addressed pool"
  by (intro ext) (simp add: addressed_def same_pool_def is_child_def)

lemma same_pool_signals: "same_pool pool s \<Longrightarrow> signals_for (pa_pool s) = signals_for pool"
  by (intro ext) (simp add: signals_for_def same_pool_def is_child_def)

lemma handler_bytes:
  "sent_on (snd (cf_sig_pipefd f)) (handle_signals_of f sigs h) =
     sent_on (snd (cf_sig_pipefd f)) h @ map (\<lambda>s. char_of (nat s)) sigs"
  by (induction sigs arbitrary: h) (simp_all add: handle_signals_of_def SioHandler_def, simp add: sent_on_def)

lemma signalled_simps [simp]:
  "sy_parent (signalled F sigs S) = sy_parent S" "sy_todo (signalled F sigs S) = sy_todo S"
  "sy_left (signalled F sigs S) = sy_left S" "sy_pipe (signalled F sigs S) = sy_pipe S"
  "sy_got (signalled F sigs S) = sy_got S"
  "ch_stop (sy_child (signalled F sigs S) i) = ch_stop (sy_child S i)"
  "ch_clients (sy_child (signalled F sigs S) i) = ch_clients (sy_child S i)"
  "sy_sigs (signalled F sigs S) i = sy_sigs S i @ map (\<lambda>s. char_of (nat s)) (sigs i)"
  by (simp_all add: signalled_def handler_bytes) (simp add: sent_on_def)

lemma deliver_simps [simp]:
  "sy_parent (deliver F cs S) = sy_parent S" "sy_todo (deliver F cs S) = sy_todo S"
  "sy_left (deliver F cs S) = sy_left S" "sy_got (deliver F cs S) = sy_got S"
  "sy_pipe (deliver F cs S) i = sy_pipe S i @ addressed (pa_pool (sy_parent S)) cs i"
  "ch_stop (sy_child (deliver F cs S) i) = ch_stop (sy_child S i)"
  "ch_clients (sy_child (deliver F cs S) i) = ch_clients (sy_child S i)"
  "sy_sigs (deliver F cs S) i = sy_sigs S i @ (if i \<in> sy_left S then [] else
     map (\<lambda>s. char_of (nat s)) (signals_for (pa_pool (sy_parent S)) cs i))"
  by (simp_all add: deliver_def Let_def)

section \<open>Shares of the rotation\<close>

text \<open>The number of the first \<open>c\<close> notices that go to child \<open>i\<close> of \<open>n\<close>.\<close>

definition share :: "nat \<Rightarrow> nat \<Rightarrow> nat \<Rightarrow> nat" where
  "share n i c = length (filter (\<lambda>t. t mod n + 1 = i) [0..<c])"

text \<open>The write ends of the pipes are different descriptors.\<close>

definition wires_distinct :: "ProcessPool \<Rightarrow> bool" where
  "wires_distinct pool \<longleftrightarrow> distinct (map (\<lambda>i. kPaWfd (procs pool ! i)) [1..<num_proc pool + 1])"

lemma wires_distinctD:
  assumes "wires_distinct pool" "is_child pool i" "is_child pool j"
    "kPaWfd (procs pool ! i) = kPaWfd (procs pool ! j)"
  shows "i = j"
proof -
  let ?f = "\<lambda>i. kPaWfd (procs pool ! i)"
  have "inj_on ?f (set [1..<num_proc pool + 1])"
    using assms(1) by (simp add: wires_distinct_def distinct_map)
  then show ?thesis by (rule inj_onD) (use assms(2-4) in \<open>auto simp: is_child_def\<close>)
qed

lemma sent_on_Cons_Nil: "sent_on fd [] = []" "sent_on fd (c # cs) = sent_on fd [c] @ sent_on fd cs"
  by (simp_all add: sent_on_def)

lemma sent_on_rotation:
  assumes "\<And>t. sent_on fd [f t] = (if t mod n + 1 = i then d else [])"
  shows "sent_on fd (map f [0..<c]) = concat (replicate (share n i c) d)"
proof (induction c)
  case (Suc c)
  have "concat (replicate m d) @ d = concat (replicate (Suc m) d)" for m
    by (induction m) simp_all
  with Suc assms [of c] show ?case by (simp add: share_def)
qed (simp add: sent_on_Cons_Nil share_def)

lemma addressed_rotation:
  assumes "children_ready pool" "wires_distinct pool" "is_child pool i"
  shows "addressed pool (map (notice pool) [0..<c]) i =
    concat (replicate (share (num_proc pool) i c) (''1'' @ [NUL]))"
proof -
  let ?n = "num_proc pool"
  have n: "0 < ?n" "1 \<le> i" "i \<le> ?n" using assms(3) by (auto simp: is_child_def)
  obtain r w where rw: "pr_fa_pipefd (procs pool ! i) = Some (r, w)"
    using children_readyD [OF assms(1)] n(2,3) by fastforce
  have "sent_on w [notice pool t] = (if t mod ?n + 1 = i then ''1'' @ [NUL] else [])" for t
  proof -
    let ?j = "t mod ?n + 1"
    have j: "is_child pool ?j" using n by (simp add: is_child_def Suc_le_eq)
    obtain r' w' where rw': "pr_fa_pipefd (procs pool ! ?j) = Some (r', w')"
      using children_readyD [OF assms(1), of ?j] j by (auto simp: is_child_def)
    have "w' = w \<longleftrightarrow> ?j = i"
      using wires_distinctD [OF assms(2,3) j] rw rw' by (auto simp: kPaWfd_def)
    with rw' show ?thesis by (simp add: notice_def sent_on_def)
  qed
  then have "sent_on w (map (notice pool) [0..<c]) = concat (replicate (share ?n i c) (''1'' @ [NUL]))"
    by (rule sent_on_rotation)
  then show ?thesis using assms(3) rw by (simp add: addressed_def kPaWfd_def)
qed

section \<open>What an event does\<close>

text \<open>An event of the parent adds calls to its trace; if it stops the parent, it kills the children.\<close>

lemma parent_event_calls:
  assumes "parent_event k 0 ev s = Inr t"
  shows "\<exists>cs. pa_trace t = pa_trace s @ cs \<and>
    (stopped (pa_pool t) \<longrightarrow> stopped (pa_pool s) \<or> set (kill_children 0 (pa_pool s)) \<subseteq> set cs)"
  using assms
  by (auto simp: parent_event_def parent_accept_def handle_signals rbind_eq_Inr_iff Let_def
      filter_empty_conv split: if_splits option.splits recv_ret.splits)

text \<open>An event of a child never clears its stop flag, and a stop signal among the bytes read sets it.\<close>

lemma child_event_stop:
  assumes "child_event T k f ev c = Inr c'"
  shows "ch_stop c \<Longrightarrow> ch_stop c'"
    and "\<not> on_pipe (cf_ipc_pipefd f) ev \<Longrightarrow> on_pipe (fst (cf_sig_pipefd f)) ev \<Longrightarrow>
      k_recv k (ch_trace c) (fst (cf_sig_pipefd f)) 10 = RecvData d \<Longrightarrow> b \<in> set d \<Longrightarrow>
      is_stop_signal b \<Longrightarrow> ch_stop c'"
proof -
  have "ch_stop c' = ch_stop c" if "child_notified T k f c = Inr c'"
    using that accept_loop_limit [of T k f k_max_accept_n "log [Recv (cf_ipc_pipefd f) 10] c" c']
    by (auto simp: child_notified_def Let_def log_def split: recv_ret.splits if_splits)
  then show "ch_stop c \<Longrightarrow> ch_stop c'"
    using assms
    by (auto simp: child_event_def child_signals_def child_signals_fold child_client_def Let_def
        log_def rbind_eq_Inr_iff split: if_splits recv_ret.splits)
next
  assume "\<not> on_pipe (cf_ipc_pipefd f) ev" "on_pipe (fst (cf_sig_pipefd f)) ev"
    "k_recv k (ch_trace c) (fst (cf_sig_pipefd f)) 10 = RecvData d" "b \<in> set d" "is_stop_signal b"
  then show "ch_stop c'"
    using assms
    by (auto simp: child_event_def child_signals_def child_signals_fold on_pipe_def Let_def log_def
        split: if_splits)
qed

section \<open>The invariant\<close>

definition will_stop :: "'c pool_system \<Rightarrow> nat \<Rightarrow> bool" where
  "will_stop S i \<longleftrightarrow>
     i \<in> sy_left S \<or> ch_stop (sy_child S i) \<or> (\<exists>b \<in> set (sy_sigs S i). is_stop_signal b)"

definition pool_inv :: "ProcessPool \<Rightarrow> 'c pool_system \<Rightarrow> bool" where
  "pool_inv pool S \<longleftrightarrow>
     (\<exists>c. rotating pool [] c (sy_parent S)) \<and>
     (\<forall>i. is_child pool i \<longrightarrow>
        sy_got S i @ sy_pipe S i = addressed pool (pa_trace (sy_parent S)) i) \<and>
     (stopped (pa_pool (sy_parent S)) \<longrightarrow> (\<forall>i. is_child pool i \<longrightarrow> will_stop S i))"

definition pool_ok :: "ProcessPool \<Rightarrow> bool" where
  "pool_ok pool \<longleftrightarrow> children_ready pool \<and> 1 \<le> num_proc pool"

lemma pool_invD:
  assumes "pool_inv pool S"
  shows "same_pool pool (sy_parent S)" "is_child (pa_pool (sy_parent S)) i = is_child pool i"
  using assms by (auto simp: pool_inv_def rotating_def same_pool_def is_child_def)

lemma kills_to_member: "Kill p s \<in> set cs \<Longrightarrow> s \<in> set (kills_to p cs)"
  by (force simp: kills_to_def)

lemma killed_signal:
  assumes "children_ready pool" "is_child pool i" "set (kill_children 0 pool) \<subseteq> set cs"
  shows "\<exists>b \<in> set (map (\<lambda>s. char_of (nat s)) (signals_for pool cs i)). is_stop_signal b"
proof -
  have "Kill (pr_pid (procs pool ! i)) SIGTERM \<in> set (kill_children 0 pool)"
    unfolding kill_children_ready [OF assms(1)] set_map
    by (rule imageI) (use assms(2) in \<open>auto simp: is_child_def\<close>)
  then have "SIGTERM \<in> set (signals_for pool cs i)"
    using kills_to_member assms(2,3) by (auto simp: signals_for_def)
  then show ?thesis using handler_byte(1) by force
qed

text \<open>The invariant after a turn of the parent that made the calls \<open>cs\<close>.\<close>

lemma delivered_inv:
  assumes inv: "pool_inv pool S" and ready: "children_ready pool"
    and t: "rotating pool [] c t" "pa_trace t = pa_trace (sy_parent S) @ cs"
    and stop: "stopped (pa_pool t) \<Longrightarrow>
      stopped (pa_pool (sy_parent S)) \<or> set (kill_children 0 pool) \<subseteq> set cs"
  shows "pool_inv pool (deliver F cs (S\<lparr>sy_todo := todo, sy_parent := t\<rparr>))"
proof -
  have same: "same_pool pool t" using t(1) by (simp add: rotating_def)
  have "will_stop (deliver F cs (S\<lparr>sy_todo := todo, sy_parent := t\<rparr>)) i"
    if "stopped (pa_pool t)" "is_child pool i" for i
    using stop [OF that(1)]
  proof
    assume "stopped (pa_pool (sy_parent S))"
    then have "will_stop S i" using inv that(2) by (simp add: pool_inv_def)
    then show ?thesis by (auto simp: will_stop_def)
  next
    assume "set (kill_children 0 pool) \<subseteq> set cs"
    from killed_signal [OF ready that(2) this] show ?thesis
      by (auto simp: will_stop_def same_pool_signals [OF same])
  qed
  with inv t show ?thesis
    by (auto simp: pool_inv_def same_pool_addressed [OF same] addressed_append)
qed

lemma parent_waits_inv:
  assumes "pool_inv pool S" "epoll_bounded k"
  shows "\<exists>S'. parent_waits k S = Inr S' \<and> pool_inv pool S'"
proof -
  let ?w = "EpollWait (pr_epollfd (procs (pa_pool (sy_parent S)) ! 0)) k_max_num_epoll_event"
  let ?p = "(sy_parent S)\<lparr>pa_trace := pa_trace (sy_parent S) @ [?w]\<rparr>"
  obtain c where "rotating pool [] c (sy_parent S)" using assms(1) by (auto simp: pool_inv_def)
  then have "rotating pool [] c ?p" by (rule rotating_call) simp
  then have inv: "pool_inv pool (S\<lparr>sy_parent := ?p, sy_left := X, sy_todo := Y\<rparr>)"
    if "sy_left S \<subseteq> X" for X Y
    using assms(1) that by (auto simp: pool_inv_def addressed_append addressed_no_send will_stop_def)
  have "\<not> n < length evs" if "k_epoll_wait k h fd n = EpollEvents evs" for h fd n evs
    using assms(2) that by (metis epoll_bounded_def leD)
  then show ?thesis
    using inv [of "sy_left S" "sy_todo S"] inv [of "insert 0 (sy_left S)" "sy_todo S"]
      inv [of "sy_left S"]
    by (auto simp: parent_waits_def Let_def split: epoll_ret.split)
qed

text \<open>A turn of the parent is never a fault.\<close>

lemma parent_turn_inv:
  assumes "pool_inv pool S" "pool_ok pool" "recv_bounded k" "epoll_bounded k"
  shows "\<exists>S'. parent_turn F k S = Inr S' \<and> pool_inv pool S'"
proof (cases "sy_todo S 0")
  case Nil
  with parent_waits_inv [OF assms(1,4)] assms(1) show ?thesis by (simp add: parent_turn_def)
next
  case (Cons ev evs)
  obtain c where "rotating pool [] c (sy_parent S)" using assms(1) by (auto simp: pool_inv_def)
  then obtain t c' where t: "parent_event k 0 ev (sy_parent S) = Inr t" "rotating pool [] c' t"
    using rotating_event assms(2,3) by (metis pool_ok_def)
  from parent_event_calls [OF t(1)] obtain cs where
    cs: "pa_trace t = pa_trace (sy_parent S) @ cs"
      "stopped (pa_pool t) \<longrightarrow> stopped (pa_pool (sy_parent S)) \<or>
        set (kill_children 0 (pa_pool (sy_parent S))) \<subseteq> set cs" by blast
  have "parent_turn F k S =
      Inr (deliver F cs (S\<lparr>sy_todo := (sy_todo S)(0 := evs), sy_parent := t\<rparr>))"
    using Cons t(1) cs(1) by (simp add: parent_turn_def parent_handles_def)
  moreover have "pool_inv pool (deliver F cs (S\<lparr>sy_todo := (sy_todo S)(0 := evs), sy_parent := t\<rparr>))"
    using cs(2) kill_children_same [OF pool_invD(1) [OF assms(1)], of 0] assms(2)
    by (intro delivered_inv [OF assms(1) _ t(2) cs(1)]) (auto simp: pool_ok_def)
  ultimately show ?thesis by blast
qed

text \<open>A turn of a child changes nothing of the others, and keeps the invariant.\<close>

lemma child_turn_others:
  assumes "child_turn T F k i S = Inr S'"
  shows "sy_parent S' = sy_parent S" "j \<noteq> i \<Longrightarrow> sy_child S' j = sy_child S j"
    "j \<noteq> i \<Longrightarrow> sy_todo S' j = sy_todo S j" "sy_left S \<subseteq> sy_left S'" "sy_left S' \<subseteq> insert i (sy_left S)"
    "sy_got S' j @ sy_pipe S' j = sy_got S j @ sy_pipe S j"
    "j \<noteq> i \<Longrightarrow> sy_pipe S' j = sy_pipe S j" "j \<noteq> i \<Longrightarrow> sy_sigs S' j = sy_sigs S j"
  using assms
  by (auto simp: child_turn_def child_waits_def child_handles_def rbind_eq_Inr_iff Let_def
      split: list.splits epoll_ret.splits if_splits)

lemma child_turn_will_stop:
  assumes "child_turn T F k i S = Inr S'" "will_stop S j"
  shows "will_stop S' j"
proof (cases "j = i \<and> i \<notin> sy_left S")
  case False
  with child_turn_others(2,4,8) [OF assms(1)] assms(2) show ?thesis
    by (cases "j = i") (auto simp: will_stop_def)
next
  case True
  show ?thesis
  proof (cases "sy_todo S i")
    case Nil
    with True assms show ?thesis
      by (auto simp: child_turn_def child_waits_def will_stop_def log_def Let_def
          split: epoll_ret.splits if_splits)
  next
    case (Cons ev evs)
    let ?f = "F i" and ?S = "S\<lparr>sy_todo := (sy_todo S)(i := evs)\<rparr>"
    let ?k = "piped ?f (sy_pipe S i) (sy_sigs S i) k"
    obtain c where c: "child_event T ?k ?f ev (sy_child S i) = Inr c"
      and S': "child_handles T ?f k i ev ?S = Inr S'"
      using assms(1) Cons by (auto simp: child_turn_def child_handles_def rbind_eq_Inr_iff Let_def)
    have child: "sy_child S' i = c"
      using c S' by (auto simp: child_handles_def Let_def split: if_splits)
    show ?thesis
    proof (cases "ch_stop (sy_child S i)")
      case stopped: True
      then show ?thesis using child_event_stop(1) [OF c] child True by (simp add: will_stop_def)
    next
      case running: False
      then obtain b where b: "b \<in> set (sy_sigs S i)" "is_stop_signal b"
        using assms(2) True by (auto simp: will_stop_def)
      let ?reads = "\<not> on_pipe (cf_ipc_pipefd ?f) ev \<and> on_pipe (fst (cf_sig_pipefd ?f)) ev"
      have sigs: "sy_sigs S' i = (if ?reads then drop 10 (sy_sigs S i) else sy_sigs S i)"
        using c S' by (auto simp: child_handles_def Let_def split: if_splits)
      have "ch_stop c" if "?reads" "b \<in> set (take 10 (sy_sigs S i))"
        using child_event_stop(2) [OF c, of "take 10 (sy_sigs S i)" b] that b
        by (cases "sy_sigs S i = []") (auto simp: piped_def pipe_answer_def on_pipe_def)
      moreover have "set (sy_sigs S i) = set (take 10 (sy_sigs S i)) \<union> set (drop 10 (sy_sigs S i))"
        by (metis append_take_drop_id set_append)
      ultimately show ?thesis
        using b sigs child True by (auto simp: will_stop_def split: if_splits)
    qed
  qed
qed

lemma pool_step_inv:
  assumes "pool_step T F S S'" "pool_inv pool S" "pool_ok pool"
  shows "pool_inv pool S'"
  using assms
proof (induction rule: pool_step.induct)
  case (parent k S S')
  then show ?case using parent_turn_inv [of pool S k F] by auto
next
  case (child S i k S')
  note others = child_turn_others [OF child.hyps(5)]
  show ?case
    using child.prems(1) others(1) others(6) child_turn_will_stop [OF child.hyps(5)]
    by (simp add: pool_inv_def)
qed (auto simp: pool_inv_def will_stop_def)

lemma pool_steps_inv:
  assumes "pool_steps T F S S'" "pool_inv pool S" "pool_ok pool"
  shows "pool_inv pool S'"
  using assms by (induction rule: rtranclp_induct) (auto intro: pool_step_inv)

text \<open>A child that has left its loop receives nothing any more, and stays away.\<close>

lemma parent_turn_others:
  assumes "parent_turn F k S = Inr S'"
  shows "sy_got S' = sy_got S" "sy_left S \<subseteq> sy_left S'" "sy_left S' \<subseteq> insert 0 (sy_left S)"
    "j \<noteq> 0 \<Longrightarrow> sy_todo S' j = sy_todo S j"
    "ch_clients (sy_child S' j) = ch_clients (sy_child S j)" "ch_stop (sy_child S' j) = ch_stop (sy_child S j)"
  using assms
  by (auto simp: parent_turn_def parent_waits_def parent_handles_def rbind_eq_Inr_iff Let_def
      split: list.splits epoll_ret.splits if_splits)

lemma left_for_good:
  assumes "pool_step T F S S'" "i \<in> sy_left S"
  shows "i \<in> sy_left S'" "sy_got S' i = sy_got S i"
proof -
  have "i \<in> sy_left S' \<and> sy_got S' i = sy_got S i"
    using assms
  proof (induction rule: pool_step.induct)
    case (parent k S S')
    then show ?case using parent_turn_others(1,2) [OF parent.hyps(3)] by auto
  next
    case (child S j k S')
    then have "i \<noteq> j" by blast
    moreover have "sy_got S' i = sy_got S i" if "i \<noteq> j"
      using child_turn_others(6,7) [OF child.hyps(5), of i] that by simp
    ultimately show ?case using child_turn_others(4) [OF child.hyps(5)] child.prems by auto
  qed auto
  then show "i \<in> sy_left S'" "sy_got S' i = sy_got S i" by auto
qed

lemma left_for_good_steps:
  "pool_steps T F S S' \<Longrightarrow> i \<in> sy_left S \<Longrightarrow> i \<in> sy_left S' \<and> sy_got S' i = sy_got S i"
  by (induction rule: rtranclp_induct) (use left_for_good in \<open>metis+\<close>)

section \<open>Turns and rounds\<close>

text \<open>Run alone, the turns of the parent are the rounds of its event loop.\<close>

lemma parent_turns_events:
  assumes "sy_todo S 0 = evs" "parent_events k 0 evs (sy_parent S) = Inr p"
  shows "\<exists>S'. parent_turns F k (length evs) S = Inr S' \<and> sy_parent S' = p \<and>
    sy_todo S' 0 = [] \<and> sy_left S' = sy_left S"
  using assms
proof (induction evs arbitrary: S)
  case (Cons ev evs)
  then obtain q where q: "parent_event k 0 ev (sy_parent S) = Inr q" "parent_events k 0 evs q = Inr p"
    by (auto simp: rbind_eq_Inr_iff)
  let ?S = "deliver F (drop (length (pa_trace (sy_parent S))) (pa_trace q))
    (S\<lparr>sy_todo := (sy_todo S)(0 := evs), sy_parent := q\<rparr>)"
  have "parent_turn F k S = Inr ?S"
    using Cons.prems(1) q(1) by (simp add: parent_turn_def parent_handles_def)
  moreover have "\<exists>S'. parent_turns F k (length evs) ?S = Inr S' \<and> sy_parent S' = p \<and>
      sy_todo S' 0 = [] \<and> sy_left S' = sy_left ?S"
    by (rule Cons.IH) (simp_all add: q(2))
  ultimately show ?case by simp
qed simp

theorem parent_turns_round:
  assumes "sy_todo S 0 = []" "0 \<notin> sy_left S" "\<not> stopped (pa_pool (sy_parent S))"
    "parent_round k 0 (sy_parent S) = Inr (brk, p)"
  shows "\<exists>m S'. parent_turns F k m S = Inr S' \<and> sy_parent S' = p \<and> sy_todo S' 0 = [] \<and>
    sy_left S' = (if brk then insert 0 (sy_left S) else sy_left S)"
proof -
  let ?epfd = "pr_epollfd (procs (pa_pool (sy_parent S)) ! 0)"
  let ?p = "(sy_parent S)\<lparr>pa_trace := pa_trace (sy_parent S) @ [EpollWait ?epfd k_max_num_epoll_event]\<rparr>"
  have turn: "parent_turn F k S = parent_waits k S" using assms(1-3) by (simp add: parent_turn_def)
  show ?thesis
  proof (cases "k_epoll_wait k (pa_trace (sy_parent S)) ?epfd k_max_num_epoll_event")
    case (EpollErr e)
    with assms have "parent_turns F k 1 S = Inr (if brk
        then S\<lparr>sy_parent := p, sy_left := insert 0 (sy_left S)\<rparr> else S\<lparr>sy_parent := p\<rparr>)"
      by (simp add: turn parent_waits_def parent_round_def Let_def)
    then show ?thesis using assms(1) by (rule_tac x = 1 in exI) (simp split: if_splits)
  next
    case (EpollEvents evs)
    let ?S = "S\<lparr>sy_parent := ?p, sy_todo := (sy_todo S)(0 := evs)\<rparr>"
    have evs: "\<not> k_max_num_epoll_event < length evs" "parent_events k 0 evs ?p = Inr p" "\<not> brk"
      using assms(4) EpollEvents by (auto simp: parent_round_def rbind_eq_Inr_iff Let_def split: if_splits)
    then have "parent_turn F k S = Inr ?S"
      using EpollEvents by (simp add: turn parent_waits_def Let_def)
    moreover obtain S' where "parent_turns F k (length evs) ?S = Inr S'" "sy_parent S' = p"
        "sy_todo S' 0 = []" "sy_left S' = sy_left S"
      using parent_turns_events [of ?S evs k p F] evs(2) by auto
    ultimately show ?thesis using evs(3) by (intro exI [of _ "Suc (length evs)"]) simp
  qed
qed

lemma parent_turns_steps:
  assumes "parent_turns F k m S = Inr S'" "recv_bounded k" "epoll_bounded k"
  shows "pool_steps T F S S'"
  using assms
proof (induction m arbitrary: S)
  case (Suc m)
  then obtain S1 where "parent_turn F k S = Inr S1" "parent_turns F k m S1 = Inr S'"
    by (auto simp: rbind_eq_Inr_iff)
  with Suc show ?case by (meson converse_rtranclp_into_rtranclp pool_step.parent)
qed simp

lemma parent_turns_todo:
  "parent_turns F k m S = Inr S' \<Longrightarrow> j \<noteq> 0 \<Longrightarrow> sy_todo S' j = sy_todo S j"
  by (induction m arbitrary: S) (auto simp: rbind_eq_Inr_iff dest: parent_turn_others(4))

section \<open>The start\<close>

lemma pool_starts_inv:
  assumes "pool_starts k kc l n h clients0 F S" "1 \<le> n" "filter is_send h = []"
  shows "pool_ok (pa_pool (sy_parent S))" "pool_inv (pa_pool (sy_parent S)) S"
    "num_proc (pa_pool (sy_parent S)) = nat n"
proof -
  obtain pool h1 where new: "ProcessPool_new k l n h = Inr (pool, h1)" "run_role pool = Inr (Parent 0)"
    and set_up: "parent_setup k 0 pool h1 = Inr (sy_parent S)"
    using assms(1) by (auto simp: pool_starts_def parent_starts_def)
  have pool: "pool_wf pool" "children_ready pool" "1 \<le> num_proc pool" "\<not> stopped pool"
      "num_proc pool = nat n" "num_proc pool \<le> 10"
    using ProcessPool_new_roles [OF new(1)] new(2) assms(2) by auto
  have n: "0 \<le> n" "n \<le> 10" using pool(5,6) assms(2) by simp_all
  obtain pool' where pool': "children_ready pool'" "num_proc pool' = num_proc pool"
      "rotating pool' (filter is_send h1) 0 (sy_parent S)"
    using parent_setup_Inr [OF set_up pool(1-4)] by blast
  have "filter is_send h1 = []"
    using ProcessPool_new_calls [OF n, where k = k and l = l and h = h] new(1) assms(3) by simp
  then have rot: "rotating pool' [] 0 (sy_parent S)" using pool'(3) by simp
  let ?pool = "pa_pool (sy_parent S)"
  have same: "procs ?pool = procs pool'" "num_proc ?pool = num_proc pool'"
    using rot by (simp_all add: rotating_def same_pool_def)
  show "pool_ok ?pool" using same pool' pool(3) by (simp add: pool_ok_def children_ready_def)
  show "num_proc ?pool = nat n" using same pool'(2) pool(5) by simp
  have "\<not> stopped ?pool" using set_up pool(4)
    by (auto simp: parent_setup_def rbind_eq_Inr_iff SetupEpoll_Inr Let_def
        dest!: sym [of _ "sy_parent S"] split: if_splits)
  moreover have "rotating ?pool [] 0 (sy_parent S)"
    using rot same \<open>\<not> stopped ?pool\<close> by (simp add: rotating_def same_pool_def)
  moreover have "addressed ?pool (pa_trace (sy_parent S)) i = []" for i
    using rot by (intro addressed_no_send) (simp add: rotating_def)
  ultimately show "pool_inv ?pool S"
    using assms(1) by (auto simp: pool_inv_def pool_starts_def)
qed

end
