(* ===== verification/PoolServing.thy ===== *)
theory PoolServing
  imports PoolSystemLemmas
begin

text \<open>
  What a child does with its notices: every message it can find on its pipe sends it to the accept
  loop; and the turns in which a child that is notified accepts a connection and answers its request.
\<close>

section \<open>A notice is a notice\<close>

text \<open>Any ten consecutive bytes of a sequence of notices hold a NUL.\<close>

lemma notices_nth: "j < 2 * m \<Longrightarrow> odd j \<Longrightarrow> concat (replicate m [a, b]) ! j = b"
proof (induction m arbitrary: j)
  case (Suc m)
  show ?case
  proof (cases "j = 1")
    case False
    then obtain i where i: "j = Suc (Suc i)" "odd i"
      using Suc.prems(2) by (cases j; cases "j - 1") auto
    with Suc show ?thesis by simp
  qed simp
qed simp

lemma notices_length: "length (concat (replicate m [a, b])) = 2 * m"
  by (induction m) simp_all

lemma notices_suffix_NUL:
  assumes "xs @ ys = concat (replicate m [a, b])" "2 \<le> length ys"
  shows "b \<in> set (take 2 ys)"
proof -
  have len: "length xs + length ys = 2 * m" using assms(1) notices_length by (metis length_append)
  define j where "j = (if even (length xs) then 1 else 0 :: nat)"
  have "odd (length xs + j)" "j < 2" by (auto simp: j_def)
  moreover from this have "(xs @ ys) ! (length xs + j) = b"
    using notices_nth [of "length xs + j" m a b] assms len by simp
  ultimately have "take 2 ys ! j = b" "j < length (take 2 ys)" using assms(2) by simp_all
  then show ?thesis by (metis nth_mem)
qed

lemma message_terminated:
  assumes "xs @ ys = concat (replicate m (''1'' @ [NUL]))"
  shows "cstr_at (overwrite (replicate 10 NUL) 0 (take 10 ys)) 0 \<noteq> None"
proof (cases "10 \<le> length ys")
  case True
  have "NUL \<in> set (take 2 ys)" using notices_suffix_NUL assms True by fastforce
  moreover have "set (take 2 ys) \<subseteq> set (take 10 ys)" by (rule set_take_subset_set_take) simp
  ultimately show ?thesis by (auto simp: cstr_at_def overwrite_def)
next
  case False
  then have "NUL \<in> set (drop (length ys) (replicate 10 NUL))"
    by (simp only: drop_replicate set_replicate_conv_if) simp
  with False show ?thesis by (simp only: cstr_at_def overwrite_def) simp
qed

lemma notified_accepts:
  assumes "xs @ d = concat (replicate m (''1'' @ [NUL]))"
  shows "child_notified T (piped f d sigs k) f c =
    accept_loop T (piped f d sigs k) f k_max_accept_n (log [Recv (cf_ipc_pipefd f) 10] c)"
  using message_terminated [OF assms]
  by (auto simp: child_notified_def piped_def pipe_answer_def Let_def)

section \<open>The turn of the parent that notifies\<close>

lemma rotating_count:
  assumes "rotating pool [] c' p" "filter is_send (pa_trace p) = map (notice pool) [0..<c]"
  shows "c' = c"
  using arg_cong [OF assms(2), of length] assms(1) by (simp add: rotating_def)

lemma addressed_notice:
  assumes "pool_ok pool"
  shows "addressed pool [notice pool c] (c mod num_proc pool + 1) = ''1'' @ [NUL]"
proof -
  let ?i = "c mod num_proc pool + 1"
  have i: "1 \<le> ?i" "?i \<le> num_proc pool" using assms by (simp_all add: pool_ok_def Suc_le_eq)
  then obtain r w where "pr_fa_pipefd (procs pool ! ?i) = Some (r, w)"
    using children_readyD assms by (metis pool_ok_def)
  with i show ?thesis by (simp add: addressed_def is_child_def kPaWfd_def notice_def sent_on_def)
qed

lemma unsignalled:
  assumes "\<And>p. kills_to p cs = []"
  shows "sy_child (deliver F cs S) = sy_child S"
proof -
  have "(if i \<in> sy_left S then [] else signals_for (pa_pool (sy_parent S)) cs i) = []" for i
    using assms by (simp add: signals_for_def)
  then show ?thesis by (simp add: deliver_def signalled_def handle_signals_of_def Let_def)
qed

lemma parent_turn_notifies:
  assumes "pool_inv pool S" "pool_ok pool" "sy_todo S 0 = ev # evs" "listen_event pool ev"
    "filter is_send (pa_trace (sy_parent S)) = map (notice pool) [0..<c]"
  shows "\<exists>S1. parent_turn F k S = Inr S1 \<and> same_pool pool (sy_parent S1) \<and>
    filter is_send (pa_trace (sy_parent S1)) = map (notice pool) [0..<Suc c] \<and>
    sy_pipe S1 (c mod num_proc pool + 1) = sy_pipe S (c mod num_proc pool + 1) @ ''1'' @ [NUL] \<and>
    sy_child S1 = sy_child S \<and> sy_left S1 = sy_left S \<and> sy_todo S1 = (sy_todo S)(0 := evs)"
proof -
  let ?n = "[notice pool c]"
  have ready: "children_ready pool" "1 \<le> num_proc pool" using assms(2) by (simp_all add: pool_ok_def)
  obtain c' where "rotating pool [] c' (sy_parent S)" using assms(1) by (auto simp: pool_inv_def)
  with rotating_count [OF this assms(5)]
  have same: "same_pool pool (sy_parent S)" "in_turn (num_proc pool) (pa_sub_process_idx (sy_parent S)) c"
    by (simp_all add: rotating_def)
  from parent_accept_ready [OF ready same] obtain t where
    t: "parent_accept 0 (sy_parent S) = Inr t" "pa_trace t = pa_trace (sy_parent S) @ ?n"
      "pa_pool t = pa_pool (sy_parent S)" by blast
  let ?S = "S\<lparr>sy_todo := (sy_todo S)(0 := evs), sy_parent := t\<rparr>"
  have "parent_event k 0 ev (sy_parent S) = Inr t"
    using t(1) assms(4) same(1) by (simp add: parent_event_def listen_event_def same_pool_def)
  then have "parent_turn F k S = Inr (deliver F ?n ?S)"
    using assms(3) t(2) by (simp add: parent_turn_def parent_handles_def)
  moreover have same_t: "same_pool pool t" using same(1) t(3) by (simp add: same_pool_def)
  moreover have "sy_child (deliver F ?n ?S) = sy_child S"
    by (subst unsignalled) (simp_all add: kills_to_def notice_def)
  ultimately show ?thesis
    using t(2) assms(5) addressed_notice [OF assms(2), of c] same_pool_addressed [OF same_t]
    by (simp add: notice_def)
qed

section \<open>The turns of a child that serves a connection\<close>

lemma piped_simps:
  "k_accept (piped f d sigs k) = k_accept k" "k_getfl (piped f d sigs k) = k_getfl k"
  "k_epoll_wait (piped f d sigs k) = k_epoll_wait k"
  by (simp_all add: piped_def)

lemma delivers_piped:
  "fd \<noteq> cf_ipc_pipefd f \<Longrightarrow> fd \<noteq> fst (cf_sig_pipefd f) \<Longrightarrow>
     delivers (piped f d sigs k) h fd n ds = delivers k h fd n ds"
  by (induction ds arbitrary: h n) (simp_all add: piped_def)

text \<open>The first turn: nothing to do, so \<open>epoll_wait\<close>.\<close>

lemma child_turn_waits:
  assumes "sy_todo S i = []" "\<not> ch_stop (sy_child S i)" "i \<notin> sy_left S"
    "k_epoll_wait k (ch_trace (sy_child S i)) (cf_epollfd (F i)) k_max_num_epoll_event = EpollEvents evs"
    "length evs \<le> k_max_num_epoll_event"
  shows "child_turn T F k i S =
    Inr (S\<lparr>sy_child := (sy_child S)(i := log [EpollWait (cf_epollfd (F i)) k_max_num_epoll_event] (sy_child S i)),
           sy_todo := (sy_todo S)(i := evs)\<rparr>)"
  using assms by (simp add: child_turn_def child_waits_def)

text \<open>A turn with an event that the child handles without a fault.\<close>

lemma child_turn_handles:
  assumes "sy_todo S i = ev # evs"
    "child_event T (piped (F i) (sy_pipe S i) (sy_sigs S i) k) (F i) ev (sy_child S i) = Inr c"
  shows "\<exists>S'. child_turn T F k i S = Inr S' \<and> sy_child S' = (sy_child S)(i := c) \<and>
    sy_todo S' = (sy_todo S)(i := evs) \<and> sy_left S' = sy_left S \<and> sy_parent S' = sy_parent S \<and>
    sy_pipe S' i = (if on_pipe (cf_ipc_pipefd (F i)) ev then drop 10 (sy_pipe S i) else sy_pipe S i)"
  using assms by (simp add: child_turn_def child_handles_def Let_def)

text \<open>The accept loop when there is exactly one connection.\<close>

lemma accept_one:
  assumes "k_accept k (ch_trace c) (cf_listenfd f) = Accepted fd a" "in_array fd"
    "c_is_init T (ch_clients c (nat fd)) (-1)"
    "k_accept k (ch_trace (registered T k f fd a c)) (cf_listenfd f) = AcceptErr e"
  shows "accept_loop T k f k_max_accept_n c =
    Inr (log [Accept (cf_listenfd f)] (registered T k f fd a c))"
proof -
  have "\<exists>m. k_max_accept_n = Suc (Suc m)" by (rule exI [of _ 98]) (simp add: k_max_accept_n_def)
  then obtain m where m: "k_max_accept_n = Suc (Suc m)" ..
  have "\<not> fd < 0" using assms(2) by (simp add: in_array_def)
  then show ?thesis using assms unfolding m
    by (simp add: accept_loop_round del: accept_loop.simps)
qed

lemma child_turns_steps:
  assumes "child_turns T F k i n S = Inr S'" "is_child (pa_pool (sy_parent S)) i"
    "recv_bounded k" "epoll_bounded k" "i \<notin> sy_left S'"
  shows "pool_steps T F S S'"
  using assms
proof (induction n arbitrary: S)
  case (Suc n)
  then obtain S1 where s1: "child_turn T F k i S = Inr S1" "child_turns T F k i n S1 = Inr S'"
    by (auto simp: rbind_eq_Inr_iff)
  have left: "sy_left S \<subseteq> sy_left S'" if "child_turns T F k i n S = Inr S'" for n S
    using that by (induction n arbitrary: S) (auto simp: rbind_eq_Inr_iff dest!: child_turn_others(4))
  have "pool_step T F S S1"
    using Suc.prems child_turn_others(4) [OF s1(1)] left [OF s1(2)] s1(1)
    by (intro pool_step.child [where k = k and i = i]) auto
  moreover have "pool_steps T F S1 S'"
    using Suc.IH [OF s1(2)] Suc.prems child_turn_others(1) [OF s1(1)] by simp
  ultimately show ?case by (rule converse_rtranclp_into_rtranclp)
qed simp

text \<open>
  The environment brings a child one connection: its \<open>epoll_wait\<close> reports the pipe, \<open>accept\<close> returns
  the connection and then none, the next \<open>epoll_wait\<close> reports the connection and the receives deliver
  the batches \<open>ds\<close>.
\<close>

definition wait_call :: "child_fds \<Rightarrow> syscall" where
  "wait_call f = EpollWait (cf_epollfd f) k_max_num_epoll_event"

definition accept_calls :: "kernel \<Rightarrow> child_fds \<Rightarrow> fd \<Rightarrow> trace \<Rightarrow> trace" where
  "accept_calls k f fd h = [wait_call f, Recv (cf_ipc_pipefd f) 10] @
     register_calls f fd (k_getfl k (h @ [wait_call f, Recv (cf_ipc_pipefd f) 10, Accept (cf_listenfd f),
       EpollCtlAdd (cf_epollfd f) fd (EPOLLIN OR EPOLLET), FcntlGetFl fd]) fd)"

definition brings :: "kernel \<Rightarrow> child_fds \<Rightarrow> trace \<Rightarrow> fd \<Rightarrow> sockaddr_in \<Rightarrow> char list list \<Rightarrow> bool" where
  "brings k f h fd a ds \<longleftrightarrow>
     (let h1 = h @ [wait_call f, Recv (cf_ipc_pipefd f) 10];
          h2 = h @ accept_calls k f fd h; h3 = h2 @ [Accept (cf_listenfd f)] in
      k_epoll_wait k h (cf_epollfd f) k_max_num_epoll_event =
        EpollEvents [\<lparr>events = EPOLLIN, data_fd = cf_ipc_pipefd f\<rparr>] \<and>
      k_accept k h1 (cf_listenfd f) = Accepted fd a \<and>
      (\<exists>e. k_accept k h2 (cf_listenfd f) = AcceptErr e) \<and>
      k_epoll_wait k h3 (cf_epollfd f) k_max_num_epoll_event =
        EpollEvents [\<lparr>events = EPOLLIN, data_fd = fd\<rparr>] \<and>
      delivers k (h3 @ [wait_call f]) fd k_recvbuf_size ds)"

lemma child_event_notified:
  "child_event T k f \<lparr>events = EPOLLIN, data_fd = cf_ipc_pipefd f\<rparr> c = child_notified T k f c"
  by (simp add: child_event_def)

lemma child_accepts_one:
  assumes "xs @ d = concat (replicate m (''1'' @ [NUL]))" "in_array fd"
    "c_is_init T (ch_clients c (nat fd)) (-1)" "brings k f h fd a ds" "ch_trace c = h @ [wait_call f]"
  shows "\<exists>c'. child_event T (piped f d sigs k) f \<lparr>events = EPOLLIN, data_fd = cf_ipc_pipefd f\<rparr> c = Inr c' \<and>
    ch_trace c' = h @ accept_calls k f fd h @ [Accept (cf_listenfd f)] \<and> ch_stop c' = ch_stop c \<and>
    ch_clients c' = (ch_clients c)(nat fd := c_init T (cf_epollfd f) fd a (ch_clients c (nat fd)))"
proof -
  let ?k = "piped f d sigs k" and ?c = "log [Recv (cf_ipc_pipefd f) 10] c"
  have tr: "ch_trace (registered T ?k f fd a ?c) = h @ accept_calls k f fd h"
    using assms(5) by (simp add: registered_def accept_calls_def piped_simps)
  obtain e where "accept_loop T ?k f k_max_accept_n ?c =
      Inr (log [Accept (cf_listenfd f)] (registered T ?k f fd a ?c))"
    using accept_one [of ?k ?c f fd a T] assms tr by (auto simp: brings_def piped_simps Let_def)
  with tr show ?thesis
    by (simp add: child_event_notified notified_accepts [OF assms(1)]) (simp add: registered_def)
qed

text \<open>Two turns: \<open>epoll_wait\<close> reports the pipe, and the child takes the connection.\<close>

lemma child_turns_accept:
  assumes "sy_got S i @ sy_pipe S i = concat (replicate m (''1'' @ [NUL]))"
    and idle: "sy_todo S i = []" "\<not> ch_stop (sy_child S i)" "i \<notin> sy_left S"
    and "in_array fd" "c_is_init T (ch_clients (sy_child S i) (nat fd)) (-1)"
    and env: "brings k (F i) (ch_trace (sy_child S i)) fd a ds"
  shows "\<exists>S'. child_turns T F k i 2 S = Inr S' \<and> sy_todo S' i = [] \<and> sy_left S' = sy_left S \<and>
    \<not> ch_stop (sy_child S' i) \<and>
    ch_trace (sy_child S' i) = ch_trace (sy_child S i) @
      accept_calls k (F i) fd (ch_trace (sy_child S i)) @ [Accept (cf_listenfd (F i))] \<and>
    ch_clients (sy_child S' i) = (ch_clients (sy_child S i))
      (nat fd := c_init T (cf_epollfd (F i)) fd a (ch_clients (sy_child S i) (nat fd)))"
proof -
  let ?f = "F i" and ?ev = "\<lparr>events = EPOLLIN, data_fd = cf_ipc_pipefd (F i)\<rparr>"
  let ?c = "log [wait_call ?f] (sy_child S i)"
  have "child_turn T F k i S = Inr (S\<lparr>sy_child := (sy_child S)(i := ?c), sy_todo := (sy_todo S)(i := [?ev])\<rparr>)"
    using child_turn_waits [OF idle, of k F "[?ev]" T] env
    by (simp add: brings_def wait_call_def k_max_num_epoll_event_def Let_def)
  then obtain S1 where S1: "child_turn T F k i S = Inr S1" "sy_child S1 i = ?c" "sy_todo S1 i = [?ev]"
      "sy_left S1 = sy_left S" "sy_pipe S1 i = sy_pipe S i" by simp
  obtain c where c: "child_event T (piped ?f (sy_pipe S1 i) (sy_sigs S1 i) k) ?f ?ev (sy_child S1 i) = Inr c"
      "ch_trace c = ch_trace (sy_child S i) @ accept_calls k ?f fd (ch_trace (sy_child S i)) @
         [Accept (cf_listenfd ?f)]" "ch_stop c = ch_stop (sy_child S i)"
      "ch_clients c = (ch_clients (sy_child S i))
         (nat fd := c_init T (cf_epollfd ?f) fd a (ch_clients (sy_child S i) (nat fd)))"
    using child_accepts_one [of "sy_got S i" "sy_pipe S i" m fd T ?c k ?f "ch_trace (sy_child S i)" a ds
        "sy_sigs S1 i"] assms S1(2,5) by auto
  from child_turn_handles [of S1 i ?ev "[]" T F k c] c(1) S1(3) obtain S2 where
    "child_turn T F k i S1 = Inr S2" "sy_child S2 i = c" "sy_todo S2 i = []" "sy_left S2 = sy_left S1"
    by auto
  with S1(1,4) c idle show ?thesis by (simp add: numeral_eq_Suc)
qed

text \<open>Two more: \<open>epoll_wait\<close> reports the connection, and the child answers its request.\<close>

lemma child_turns_answer:
  assumes idle: "sy_todo S i = []" "\<not> ch_stop (sy_child S i)" "i \<notin> sy_left S"
    and conn: "in_array fd" "ch_clients (sy_child S i) (nat fd) = init (cf_epollfd (F i)) fd a c0"
      "fd \<noteq> cf_ipc_pipefd (F i)" "fd \<noteq> fst (cf_sig_pipefd (F i))"
    and env: "k_epoll_wait k (ch_trace (sy_child S i)) (cf_epollfd (F i)) k_max_num_epoll_event =
        EpollEvents [\<lparr>events = EPOLLIN, data_fd = fd\<rparr>]"
      "delivers k (ch_trace (sy_child S i) @ [wait_call (F i)]) fd k_recvbuf_size ds"
    and req: "good_request rl hs" "concat ds = http_request rl hs"
      "length (http_request rl hs) < k_recvbuf_size"
  shows "\<exists>S' rs. child_turns reqstat_class F k i 2 S = Inr S' \<and> sy_left S' = sy_left S \<and>
    ch_trace (sy_child S' i) = ch_trace (sy_child S i) @ [wait_call (F i)] @ rs @
      [FcntlGetFl fd, Writev fd [hello_head, hello_body], EpollCtlDel (cf_epollfd (F i)) fd, Close fd] \<and>
    only_recv fd rs \<and> is_init (ch_clients (sy_child S' i) (nat fd)) (-1) \<and>
    (\<forall>j. j \<noteq> nat fd \<longrightarrow> ch_clients (sy_child S' i) j = ch_clients (sy_child S i) j)"
proof -
  let ?f = "F i" and ?T = reqstat_class and ?ev = "\<lparr>events = EPOLLIN, data_fd = fd\<rparr>"
  let ?c = "log [wait_call ?f] (sy_child S i)"
  have "child_turn ?T F k i S = Inr (S\<lparr>sy_child := (sy_child S)(i := ?c), sy_todo := (sy_todo S)(i := [?ev])\<rparr>)"
    using child_turn_waits [OF idle, of k F "[?ev]" ?T] env(1)
    by (simp add: wait_call_def k_max_num_epoll_event_def)
  then obtain S1 where S1: "child_turn ?T F k i S = Inr S1" "sy_child S1 i = ?c" "sy_todo S1 i = [?ev]"
      "sy_left S1 = sy_left S" by simp
  let ?k = "piped ?f (sy_pipe S1 i) (sy_sigs S1 i) k"
  have "\<exists>t rs. child_event ?T ?k ?f ?ev ?c = Inr t \<and>
      ch_trace t = ch_trace ?c @ rs @ [FcntlGetFl fd, Writev fd [hello_head, hello_body],
        EpollCtlDel (cf_epollfd ?f) fd, Close fd] \<and>
      only_recv fd rs \<and> is_init (ch_clients t (nat fd)) (-1) \<and>
      (\<forall>j. j \<noteq> nat fd \<longrightarrow> ch_clients t j = ch_clients ?c j)"
    by (rule connection_answered [where ds = ds and addr = a and c = c0, OF req])
       (use conn env(2) in \<open>simp_all add: delivers_piped\<close>)
  then obtain t rs where t: "child_event ?T ?k ?f ?ev ?c = Inr t"
      "ch_trace t = ch_trace ?c @ rs @ [FcntlGetFl fd, Writev fd [hello_head, hello_body],
        EpollCtlDel (cf_epollfd ?f) fd, Close fd]"
      "only_recv fd rs" "is_init (ch_clients t (nat fd)) (-1)"
      "\<forall>j. j \<noteq> nat fd \<longrightarrow> ch_clients t j = ch_clients ?c j" by auto
  from child_turn_handles [of S1 i ?ev "[]" ?T F k t] t(1) S1(2,3) obtain S2 where
    "child_turn ?T F k i S1 = Inr S2" "sy_child S2 i = t" "sy_left S2 = sy_left S1" by auto
  with S1(1,4) t(2-5) show ?thesis by (simp add: numeral_eq_Suc)
qed

lemma child_turns_add:
  "child_turns T F k i (m + n) S = rbind (child_turns T F k i m S) (child_turns T F k i n)"
  by (induction m arbitrary: S) (simp_all add: rbind_assoc, metis rbind_cong)

lemma child_serves:
  assumes notices: "sy_got S i @ sy_pipe S i = concat (replicate m (''1'' @ [NUL]))"
    and idle: "sy_todo S i = []" "\<not> ch_stop (sy_child S i)" "i \<notin> sy_left S"
    and conn: "in_array fd" "is_init (ch_clients (sy_child S i) (nat fd)) (-1)"
      "fd \<noteq> cf_ipc_pipefd (F i)" "fd \<noteq> fst (cf_sig_pipefd (F i))"
    and env: "brings k (F i) (ch_trace (sy_child S i)) fd a ds"
    and req: "good_request rl hs" "concat ds = http_request rl hs"
      "length (http_request rl hs) < k_recvbuf_size"
  shows "\<exists>S' rs. child_turns reqstat_class F k i 4 S = Inr S' \<and> i \<notin> sy_left S' \<and>
    ch_trace (sy_child S' i) = ch_trace (sy_child S i) @
      accept_calls k (F i) fd (ch_trace (sy_child S i)) @ [Accept (cf_listenfd (F i)), wait_call (F i)] @
      rs @ [FcntlGetFl fd, Writev fd [hello_head, hello_body], EpollCtlDel (cf_epollfd (F i)) fd, Close fd] \<and>
    only_recv fd rs \<and> is_init (ch_clients (sy_child S' i) (nat fd)) (-1) \<and>
    (\<forall>j. j \<noteq> nat fd \<longrightarrow> ch_clients (sy_child S' i) j = ch_clients (sy_child S i) j)"
proof -
  let ?h = "ch_trace (sy_child S i)"
  have "c_is_init reqstat_class (ch_clients (sy_child S i) (nat fd)) (-1)" using conn(2) by simp
  from child_turns_accept [where T = reqstat_class and S = S and i = i and F = F, OF notices idle conn(1) this env] obtain S1 where
    S1: "child_turns reqstat_class F k i 2 S = Inr S1" "sy_todo S1 i = []" "sy_left S1 = sy_left S"
      "\<not> ch_stop (sy_child S1 i)"
      "ch_trace (sy_child S1 i) = ?h @ accept_calls k (F i) fd ?h @ [Accept (cf_listenfd (F i))]"
      "ch_clients (sy_child S1 i) = (ch_clients (sy_child S i))
         (nat fd := init (cf_epollfd (F i)) fd a (ch_clients (sy_child S i) (nat fd)))" by auto
  have "\<exists>S' rs. child_turns reqstat_class F k i 2 S1 = Inr S' \<and> sy_left S' = sy_left S1 \<and>
    ch_trace (sy_child S' i) = ch_trace (sy_child S1 i) @ [wait_call (F i)] @ rs @
      [FcntlGetFl fd, Writev fd [hello_head, hello_body], EpollCtlDel (cf_epollfd (F i)) fd, Close fd] \<and>
    only_recv fd rs \<and> is_init (ch_clients (sy_child S' i) (nat fd)) (-1) \<and>
    (\<forall>j. j \<noteq> nat fd \<longrightarrow> ch_clients (sy_child S' i) j = ch_clients (sy_child S1 i) j)"
    by (rule child_turns_answer [where ds = ds and a = a])
       (use S1 conn env req idle in \<open>auto simp: brings_def Let_def\<close>)
  moreover have "child_turns reqstat_class F k i 4 S = rbind (Inr S1) (child_turns reqstat_class F k i 2)"
    using child_turns_add [of reqstat_class F k i 2 2 S] S1(1) by simp
  ultimately show ?thesis using S1(3,5,6) idle(3) by auto
qed

end
