(* ===== verification/PoolSystemProps.thy ===== *)
theory PoolSystemProps
  imports PoolServing
begin

text \<open>
  The properties of the pool as a system: how the processes are wired, that no notice is lost or
  invented, that the parent never fails, a request on its way through both processes, the stop of the
  whole pool, and a dead child. At the end of each statement stands the run of a pool of two at which
  it is applied.
\<close>

section \<open>A concrete pool\<close>

definition two_children :: "nat \<Rightarrow> kernel" where
  "two_children i = pool_kernel i [] []"

definition demo_F :: "nat \<Rightarrow> child_fds" where
  "demo_F i = \<lparr>cf_epollfd = 5, cf_listenfd = 4, cf_ipc_pipefd = 8 + 2 * int i,
     cf_sig_pipefd = (10 + 2 * int i, 11 + 2 * int i)\<rparr>"

definition demo_parent :: parent where
  "demo_parent = \<lparr>pa_pool = demo_pool\<lparr>procs := (procs demo_pool)[0 := (procs demo_pool ! 0)\<lparr>pr_epollfd := 5\<rparr>]\<rparr>,
     pa_sig_pipefd = (14, 15), pa_sub_process_idx = 0,
     pa_trace = demo_trace @ [EpollCreate 5, EpollCtlAdd 5 4 EPOLLIN, SocketPair, Sigaction SIGTERM,
       Sigaction SIGINT, Sigaction SIGCHLD, EpollCtlAdd 5 14 (EPOLLIN OR EPOLLET)]\<rparr>"

definition demo_child_trace :: "nat \<Rightarrow> trace" where
  "demo_child_trace i =
     (if i = 1 then [SocketPair, Fork, FcntlGetFl 10, FcntlSetFl 10 O_NONBLOCK, Close 11]
      else [SocketPair, Fork, FcntlGetFl 11, FcntlSetFl 11 O_NONBLOCK, Close 10,
            SocketPair, Fork, FcntlGetFl 12, FcntlSetFl 12 O_NONBLOCK, Close 13]) @
     [EpollCreate 5, FcntlGetFl 4, FcntlSetFl 4 O_NONBLOCK,
      EpollCtlAdd 5 (8 + 2 * int i) (EPOLLIN OR EPOLLET), SocketPair, Sigaction SIGTERM,
      Sigaction SIGINT, Sigaction SIGCHLD, EpollCtlAdd 5 (10 + 2 * int i) (EPOLLIN OR EPOLLET)]"

definition demo_system :: "req_stat_mach pool_system" where
  "demo_system = \<lparr>sy_parent = demo_parent,
     sy_child = (\<lambda>i. \<lparr>ch_stop = False, ch_clients = (\<lambda>i. zero_machine), ch_trace = demo_child_trace i\<rparr>),
     sy_todo = (\<lambda>i. []), sy_left = {}, sy_pipe = (\<lambda>i. []), sy_got = (\<lambda>i. []), sy_sigs = (\<lambda>i. [])\<rparr>"

lemma two_children_forked: "1 \<le> i \<Longrightarrow> forked_as i demo_kernel (two_children i)"
proof -
  assume "1 \<le> i"
  have "filter (\<lambda>c. c = Fork) h = filter is_fork h" for h
    by (induction h) (auto simp: is_fork_def split: syscall.split)
  with \<open>1 \<le> i\<close> show ?thesis
    by (auto simp: forked_as_def demo_kernel_def two_children_def pool_kernel_def Let_def)
qed

lemma demo_parent_starts: "parent_starts demo_kernel 4 2 [] demo_parent"
proof -
  have "parent_setup demo_kernel 0 demo_pool demo_trace = Inr demo_parent" by code_simp
  then show ?thesis using demo_new demo_pool_ready(5) unfolding parent_starts_def by blast
qed

lemma demo_child_starts:
  assumes "i = 1 \<or> i = 2"
  shows "child_starts (two_children i) 4 2 [] clients0 (demo_F i)
    \<lparr>ch_stop = False, ch_clients = clients0, ch_trace = demo_child_trace i\<rparr>"
proof -
  let ?launch = "\<lambda>i. rbind (ProcessPool_new (two_children i) 4 2 []) (\<lambda>(pool, h).
    rbind (run_role pool) (\<lambda>r. case r of Parent j \<Rightarrow> Inl AssertFail
      | Child j \<Rightarrow> map_res (\<lambda>(f, pool, h). (f, stopped pool, h)) (child_setup (two_children i) j pool h)))"
  have "?launch 1 = Inr (demo_F 1, False, demo_child_trace 1)"
    "?launch 2 = Inr (demo_F 2, False, demo_child_trace 2)" by code_simp+
  then have "?launch i = Inr (demo_F i, False, demo_child_trace i)"
    by (rule_tac disjE [OF assms]) (simp_all only:)
  then show ?thesis
    by (auto simp: child_starts_def rbind_eq_Inr_iff map_res_eq_simps split: prod.splits)
       (case_tac x; auto simp: map_res_eq_simps)
qed

lemma demo_starts: "pool_starts demo_kernel two_children 4 2 [] (\<lambda>i. zero_machine) demo_F demo_system"
proof -
  have "i = 1 \<or> i = 2" if "1 \<le> i" "i \<le> nat 2" for i using that by linarith
  then show ?thesis using demo_child_starts two_children_forked
    unfolding pool_starts_def by (auto simp: demo_system_def demo_parent_starts)
qed

text \<open>The parent after its first round (two notices) and after its second (a notice, and the stop).\<close>

definition demo_parent1 :: parent where
  "demo_parent1 = demo_parent\<lparr>pa_trace := pa_trace demo_parent @
     [EpollWait 5 1000, Send 11 (''1'' @ [NUL]), Send 13 (''1'' @ [NUL])]\<rparr>"

definition demo_parent2 :: parent where
  "demo_parent2 = demo_parent1\<lparr>pa_pool := (pa_pool demo_parent1)\<lparr>stopped := True\<rparr>,
     pa_sub_process_idx := 2,
     pa_trace := pa_trace demo_parent1 @ [EpollWait 5 1000, Send 11 (''1'' @ [NUL]), Recv 14 10,
       Kill 101 SIGTERM, Kill 102 SIGTERM]\<rparr>"

lemma demo_rounds:
  "parent_round demo_kernel 0 demo_parent = Inr (False, demo_parent1)"
  "parent_round demo_kernel 0 demo_parent1 = Inr (False, demo_parent2)"
  by code_simp+

lemma demo_wires: "wires_distinct (pa_pool (sy_parent demo_system))"
  by code_simp

lemma demo_bounded: "recv_bounded demo_kernel" "epoll_bounded demo_kernel"
  by (simp_all add: demo_kernel_def pool_kernel_bounded)

lemma demo_round_reached:
  assumes "pool_steps T demo_F demo_system S" "sy_todo S 0 = []" "0 \<notin> sy_left S"
    "\<not> stopped (pa_pool (sy_parent S))" "parent_round demo_kernel 0 (sy_parent S) = Inr (False, p)"
  obtains S' where "pool_steps T demo_F demo_system S'" "sy_parent S' = p" "sy_todo S' 0 = []"
    "sy_left S' = sy_left S" "sy_todo S' 2 = sy_todo S 2"
proof -
  from parent_turns_round [OF assms(2-5), of demo_F] obtain m S' where
    "parent_turns demo_F demo_kernel m S = Inr S'" "sy_parent S' = p" "sy_todo S' 0 = []"
    "sy_left S' = sy_left S" by auto
  with rtranclp_trans [OF assms(1) parent_turns_steps [OF this(1) demo_bounded]]
    parent_turns_todo [OF this(1), of 2] show ?thesis by (intro that [of S']) auto
qed

lemma demo_first_round:
  obtains S where "pool_steps T demo_F demo_system S" "sy_parent S = demo_parent1" "sy_todo S 0 = []"
    "sy_left S = {}" "sy_todo S 2 = []"
  by (rule demo_round_reached [of T demo_system demo_parent1])
     (simp_all add: demo_system_def demo_rounds, simp add: demo_parent_def demo_pool_def)

lemma demo_second_round:
  obtains S where "pool_steps T demo_F demo_system S" "sy_parent S = demo_parent2" "sy_left S = {}"
    "sy_todo S 2 = []"
proof -
  obtain S1 where S1: "pool_steps T demo_F demo_system S1" "sy_parent S1 = demo_parent1" "sy_todo S1 0 = []"
    "sy_left S1 = {}" "sy_todo S1 2 = []" by (rule demo_first_round)
  have "\<not> stopped (pa_pool demo_parent1)" by code_simp
  then show ?thesis using that
    by (rule_tac demo_round_reached [of T S1 demo_parent2]) (use S1 demo_rounds in auto)
qed

section \<open>Wiring\<close>

lemma child_setup_Inr:
  assumes "child_setup k (int i) pool h = Inr (f, pool', h')" "i < length (procs pool)"
  shows "kChRfd (procs pool ! i) = Inr (cf_ipc_pipefd f)" "cf_listenfd f = pr_listenfd (procs pool ! i)"
    "stopped pool' = stopped pool" "\<exists>cs. h' = h @ cs"
  using assms
  by (auto simp: child_setup_def rbind_eq_Inr_iff SetupEpoll_Inr kChRfd_def SetNonBlocking_def
      EpollAddFd_def Let_def dest!: SetupSigPipe_Inr split: if_splits option.splits)

lemma parent_setup_extends: "parent_setup k 0 pool h = Inr p \<Longrightarrow> \<exists>cs. pa_trace p = h @ cs"
  by (auto simp: parent_setup_def rbind_eq_Inr_iff SetupEpoll_Inr TestEpollAddFdLT_def Let_def
      dest!: SetupSigPipe_Inr split: if_splits)

text \<open>
  C9. The two ends of every pipe meet: in a pool that has started, the descriptor child \<open>i\<close> waits on is
  the read end of the very socket pair whose write end the parent keeps for \<open>i\<close>; parent and child
  have the same listening socket; and the calls they have in common are those up to the \<open>i\<close>-th \<open>fork\<close>.
\<close>

theorem pool_wiring:
  assumes "pool_starts k kc l n h clients0 F S" "1 \<le> n" "forks h = 0" "1 \<le> i" "i \<le> nat n"
  shows "\<exists>w h1 cs cs'. pr_fa_pipefd (procs (pa_pool (sy_parent S)) ! i) = Some (cf_ipc_pipefd (F i), w) \<and>
    cf_listenfd (F i) = l \<and> pr_listenfd (procs (pa_pool (sy_parent S)) ! 0) = l \<and>
    \<not> ch_stop (sy_child S i) \<and>
    pa_trace (sy_parent S) = h1 @ cs \<and> ch_trace (sy_child S i) = h1 @ cs' \<and>
    last h1 = Fork \<and> forks h1 = i \<and> Close w \<in> set cs'"
proof -
  obtain pool h' where new: "ProcessPool_new k l n h = Inr (pool, h')" "run_role pool = Inr (Parent 0)"
    and set_up: "parent_setup k 0 pool h' = Inr (sy_parent S)"
    using assms(1) by (auto simp: pool_starts_def parent_starts_def)
  have pool: "pool_wf pool" "children_ready pool" "1 \<le> num_proc pool" "\<not> stopped pool"
      "num_proc pool = nat n" "pr_listenfd (procs pool ! 0) = l"
    using ProcessPool_new_roles [OF new(1)] new(2) assms(2) by auto
  have fk: "forked_as i k (kc i)" "child_starts (kc i) l n h clients0 (F i) (sy_child S i)"
    using assms(1,4,5) by (simp_all add: pool_starts_def)
  have le: "i \<le> num_proc pool" using assms(5) pool(5) by simp
  from fork_wiring [OF new assms(3,4) le fk(1)] obtain ch h1 rest r w where
    ch: "ProcessPool_new (kc i) l n h = Inr (ch, SetNonBlocking (kc i) r h1 @ [Close w])"
    "h' = h1 @ rest" "forks h1 = i" "last h1 = Fork" "run_role ch = Inr (Child (int i))"
    "pr_fa_pipefd (procs pool ! i) = Some (r, w)" "pr_fa_pipefd (procs ch ! i) = Some (r, w)"
    "pr_listenfd (procs ch ! i) = l" "\<not> stopped ch" "length (procs ch) = num_proc pool + 1"
    by metis
  obtain pool2 h2 where "child_setup (kc i) (int i) ch (SetNonBlocking (kc i) r h1 @ [Close w]) = Inr (F i, pool2, h2)"
    "sy_child S i = \<lparr>ch_stop = stopped pool2, ch_clients = clients0, ch_trace = h2\<rparr>"
    using fk(2) ch(1,5) by (auto simp: child_starts_def)
  note child = child_setup_Inr [OF this(1)] this(2)
  have "procs (pa_pool (sy_parent S)) ! i = procs pool ! i"
      "pr_listenfd (procs (pa_pool (sy_parent S)) ! 0) = l"
    using parent_setup_Inr [OF set_up pool(1-4)] assms(4) pool(6) by (auto simp: rotating_def same_pool_def)
  moreover obtain cs where "pa_trace (sy_parent S) = h1 @ rest @ cs"
    using parent_setup_extends [OF set_up] ch(2) by auto
  moreover obtain cs' where "h2 = SetNonBlocking (kc i) r h1 @ [Close w] @ cs'"
    using child(4) ch(10) assms(5) pool(5) by auto
  then have "h2 = h1 @ [FcntlGetFl r, FcntlSetFl r (k_getfl (kc i) h1 r OR O_NONBLOCK), Close w] @ cs'"
    by (simp add: SetNonBlocking_def Let_def)
  moreover have "cf_ipc_pipefd (F i) = r" "cf_listenfd (F i) = l" "\<not> ch_stop (sy_child S i)"
    using child ch assms(5) pool(5) by (auto simp: kChRfd_def)
  ultimately show ?thesis using ch(3,4,6) child(5)
    by (rule_tac exI [of _ w], rule_tac exI [of _ h1]) auto
qed

lemma pool_wiring_witness:
  "\<exists>w. pr_fa_pipefd (procs (pa_pool (sy_parent demo_system)) ! 2) = Some (cf_ipc_pipefd (demo_F 2), w) \<and>
     cf_listenfd (demo_F 2) = 4"
  using pool_wiring [OF demo_starts, of 2] by auto

section \<open>Notices\<close>

lemma reachable_pool:
  assumes "pool_starts k kc l n h clients0 F S0" "1 \<le> n" "filter is_send h = []" "pool_steps T F S0 S"
  shows "pool_ok (pa_pool (sy_parent S0))" "pool_inv (pa_pool (sy_parent S0)) S"
    "num_proc (pa_pool (sy_parent S0)) = nat n"
  using pool_starts_inv [OF assms(1-3)] pool_steps_inv [OF assms(4)] by auto

lemma reachable_notices:
  assumes "pool_starts k kc l n h clients0 F S0" "1 \<le> n" "filter is_send h = []"
    "wires_distinct (pa_pool (sy_parent S0))" "pool_steps T F S0 S"
    "filter is_send (pa_trace (sy_parent S)) = map (notice (pa_pool (sy_parent S0))) [0..<c]"
    "1 \<le> i" "i \<le> nat n"
  shows "sy_got S i @ sy_pipe S i = concat (replicate (share (nat n) i c) (''1'' @ [NUL]))"
proof -
  note inv = reachable_pool [OF assms(1-3,5)]
  have i: "is_child (pa_pool (sy_parent S0)) i" using inv(3) assms(7,8) by (simp add: is_child_def)
  then have "sy_got S i @ sy_pipe S i =
      addressed (pa_pool (sy_parent S0)) (filter is_send (pa_trace (sy_parent S))) i"
    using inv(2) by (simp add: pool_inv_def addressed_filter)
  then show ?thesis
    using addressed_rotation [OF _ assms(4) i] inv assms(6) by (simp add: pool_ok_def)
qed

lemma reachable_sends:
  assumes "pool_starts k kc l n h clients0 F S0" "1 \<le> n" "filter is_send h = []" "pool_steps T F S0 S"
  shows "\<exists>c. filter is_send (pa_trace (sy_parent S)) = map (notice (pa_pool (sy_parent S0))) [0..<c]"
  using reachable_pool(2) [OF assms] by (auto simp: pool_inv_def rotating_def)





section \<open>A request on its way through the pool\<close>

text \<open>
  C1. A connection through both processes: from every reachable state in which the parent
  has a readiness event of the listening socket before it, with \<open>c\<close> notices sent, the turn of the
  parent notifies child \<open>c mod n + 1\<close>; and when that child, which has nothing else to do, takes its
  next four turns in an environment that brings it the connection and its request, it accepts the
  connection, sends the response on it, removes it from epoll and closes it, without touching
  another client.
\<close>

theorem request_through_pool:
  assumes start: "pool_starts k0 kc l n h clients0 F S0" "1 \<le> n" "filter is_send h = []"
      "wires_distinct (pa_pool (sy_parent S0))" "pool_steps reqstat_class F S0 S"
    and parent: "recv_bounded kp" "epoll_bounded kp" "sy_todo S 0 = ev # evs"
      "listen_event (pa_pool (sy_parent S0)) ev"
      "filter is_send (pa_trace (sy_parent S)) = map (notice (pa_pool (sy_parent S0))) [0..<c]"
    and child: "i = c mod nat n + 1" "recv_bounded k" "epoll_bounded k"
      "sy_todo S i = []" "\<not> ch_stop (sy_child S i)" "i \<notin> sy_left S"
    and conn: "in_array fd" "is_init (ch_clients (sy_child S i) (nat fd)) (-1)"
      "fd \<noteq> cf_ipc_pipefd (F i)" "fd \<noteq> fst (cf_sig_pipefd (F i))"
      "brings k (F i) (ch_trace (sy_child S i)) fd a ds"
    and req: "good_request rl hs" "concat ds = http_request rl hs"
      "length (http_request rl hs) < k_recvbuf_size"
  shows "\<exists>S1 S2 rs. parent_turn F kp S = Inr S1 \<and>
    filter is_send (pa_trace (sy_parent S1)) = map (notice (pa_pool (sy_parent S0))) [0..<Suc c] \<and>
    sy_pipe S1 i = sy_pipe S i @ ''1'' @ [NUL] \<and>
    child_turns reqstat_class F k i 4 S1 = Inr S2 \<and> pool_steps reqstat_class F S0 S2 \<and>
    ch_trace (sy_child S2 i) = ch_trace (sy_child S i) @
      accept_calls k (F i) fd (ch_trace (sy_child S i)) @ [Accept (cf_listenfd (F i)), wait_call (F i)] @
      rs @ [FcntlGetFl fd, Writev fd [hello_head, hello_body], EpollCtlDel (cf_epollfd (F i)) fd, Close fd] \<and>
    only_recv fd rs \<and> is_init (ch_clients (sy_child S2 i) (nat fd)) (-1) \<and>
    (\<forall>j. j \<noteq> nat fd \<longrightarrow> ch_clients (sy_child S2 i) j = ch_clients (sy_child S i) j)"
proof -
  let ?pool = "pa_pool (sy_parent S0)"
  note inv = reachable_pool [OF start(1-3,5)]
  from parent_turn_notifies [OF inv(2,1) parent(3-5)] inv(3) child(1) obtain S1 where
    S1: "parent_turn F kp S = Inr S1" "same_pool ?pool (sy_parent S1)"
      "filter is_send (pa_trace (sy_parent S1)) = map (notice ?pool) [0..<Suc c]"
      "sy_pipe S1 i = sy_pipe S i @ ''1'' @ [NUL]" "sy_child S1 = sy_child S" "sy_left S1 = sy_left S"
      "sy_todo S1 = (sy_todo S)(0 := evs)" by metis
  have i: "is_child ?pool i" "1 \<le> i" "i \<le> nat n" "i \<noteq> 0"
    using child(1) start(2) inv(3) by (simp_all add: is_child_def Suc_le_eq)
  have reach1: "pool_steps reqstat_class F S0 S1"
    using start(5) pool_step.parent [OF parent(1,2) S1(1)] by (rule rtranclp.rtrancl_into_rtrancl)
  note notices = reachable_notices [OF start(1-4) reach1 S1(3) i(2,3)]
  from child_serves [of S1 i "share (nat n) i (Suc c)" fd F k a ds rl hs] notices child conn req i(4) S1(5-7)
  obtain S2 rs where S2: "child_turns reqstat_class F k i 4 S1 = Inr S2" "i \<notin> sy_left S2"
    "ch_trace (sy_child S2 i) = ch_trace (sy_child S i) @
      accept_calls k (F i) fd (ch_trace (sy_child S i)) @ [Accept (cf_listenfd (F i)), wait_call (F i)] @
      rs @ [FcntlGetFl fd, Writev fd [hello_head, hello_body], EpollCtlDel (cf_epollfd (F i)) fd, Close fd]"
    "only_recv fd rs" "is_init (ch_clients (sy_child S2 i) (nat fd)) (-1)"
    "\<forall>j. j \<noteq> nat fd \<longrightarrow> ch_clients (sy_child S2 i) j = ch_clients (sy_child S i) j" by auto
  have "is_child (pa_pool (sy_parent S1)) i" using S1(2) i(1) by (simp add: is_child_def same_pool_def)
  then have "pool_steps reqstat_class F S0 S2"
    using reach1 child_turns_steps [OF S2(1) _ child(2,3) S2(2)] by (meson rtranclp_trans)
  with S1(1,3,4) S2 show ?thesis by blast
qed

definition demo_waiting :: "req_stat_mach pool_system" where
  "demo_waiting = demo_system
     \<lparr>sy_parent := demo_parent\<lparr>pa_trace := pa_trace demo_parent @ [EpollWait 5 1000]\<rparr>,
      sy_todo := (\<lambda>i. [])(0 := [on_listen, on_listen])\<rparr>"

text \<open>A visitor of child 1: the connection 20 with its request in one piece.\<close>

definition demo_visitor :: kernel where
  "demo_visitor = idle_kernel
     \<lparr>k_epoll_wait := (\<lambda>h fd n. EpollEvents (take n
        [\<lparr>events = EPOLLIN, data_fd = if filter is_wait h = [] then 10 else 20\<rparr>])),
      k_accept := (\<lambda>h fd. if filter is_accept h = [] then Accepted 20 a_peer else AcceptErr EAGAIN),
      k_recv := (\<lambda>h fd n. if fd = 20 \<and> n = k_recvbuf_size
        then RecvData (take n (http_request ''GET /a HTTP/1.0'' [])) else RecvErr EAGAIN)\<rparr>"

lemma demo_visitor_bounded: "recv_bounded demo_visitor" "epoll_bounded demo_visitor"
  by (auto simp: recv_bounded_def epoll_bounded_def demo_visitor_def)

lemma demo_waiting_reached: "pool_steps T demo_F demo_system demo_waiting"
proof -
  have "k_epoll_wait demo_kernel (pa_trace demo_parent) 5 1000 = EpollEvents [on_listen, on_listen]"
    by code_simp
  then have "parent_turn demo_F demo_kernel demo_system = Inr demo_waiting"
    by (simp add: parent_turn_def parent_waits_def demo_system_def demo_waiting_def Let_def
        k_max_num_epoll_event_def) (simp add: demo_parent_def demo_pool_def k_max_num_epoll_event_def)
  with demo_bounded show ?thesis by (blast intro: pool_step.parent)
qed

lemma demo_visitor_brings:
  "brings demo_visitor (demo_F 1) (demo_child_trace 1) 20 a_peer [http_request ''GET /a HTTP/1.0'' []]"
proof -
  have len: "length (http_request ''GET /a HTTP/1.0'' []) = 19" by (simp add: http_request_def)
  have "k_recvbuf_size - 19 \<noteq> k_recvbuf_size" "19 \<le> k_recvbuf_size" by (simp_all add: k_recvbuf_size_eq)
  with len have "delivers demo_visitor h 20 k_recvbuf_size [http_request ''GET /a HTTP/1.0'' []]" for h
    by (simp add: demo_visitor_def idle_kernel_def) auto
  then show ?thesis
    by (simp add: brings_def accept_calls_def register_calls_def wait_call_def Let_def)
       (simp add: demo_visitor_def demo_F_def demo_child_trace_def is_wait_def is_accept_def
         k_max_num_epoll_event_def)
qed

lemma request_through_pool_witness:
  "\<exists>S1 S2 rs. parent_turn demo_F demo_kernel demo_waiting = Inr S1 \<and>
     sy_pipe S1 1 = ''1'' @ [NUL] \<and> child_turns reqstat_class demo_F demo_visitor 1 4 S1 = Inr S2 \<and>
     pool_steps reqstat_class demo_F demo_system S2 \<and>
     ch_trace (sy_child S2 1) = demo_child_trace 1 @ accept_calls demo_visitor (demo_F 1) 20 (demo_child_trace 1) @
       [Accept 4, EpollWait 5 1000] @ rs @
       [FcntlGetFl 20, Writev 20 [hello_head, hello_body], EpollCtlDel 5 20, Close 20]"
proof -
  have ok: "request_line_ok ''GET /a HTTP/1.0''"
    unfolding request_line_ok_def
    by (intro exI [of _ "''GET''"] exI [of _ SPACE] exI [of _ "''/a''"] exI [of _ "''HTTP/1.0''"])
       (simp add: blanks_def method_ok_def version_ok_def strcasecmp_eq_def)
  have fds: "cf_ipc_pipefd (demo_F 1) = 10" "fst (cf_sig_pipefd (demo_F 1)) = 12" "cf_listenfd (demo_F 1) = 4"
    "cf_epollfd (demo_F 1) = 5" by (simp_all add: demo_F_def)
  have child: "sy_child demo_waiting 1 = \<lparr>ch_stop = False, ch_clients = (\<lambda>i. zero_machine),
      ch_trace = demo_child_trace 1\<rparr>" "sy_todo demo_waiting 1 = []" "sy_left demo_waiting = {}"
      "sy_pipe demo_waiting 1 = []" "sy_todo demo_waiting 0 = [on_listen, on_listen]"
    by (simp_all add: demo_waiting_def demo_system_def)
  have sends: "filter is_send (pa_trace (sy_parent demo_waiting)) =
      map (notice (pa_pool (sy_parent demo_system))) [0..<0]" by code_simp
  have listen: "listen_event (pa_pool (sy_parent demo_system)) on_listen" by code_simp
  let ?ds = "[http_request ''GET /a HTTP/1.0'' []]"
  have "in_array 20" "is_init (ch_clients (sy_child demo_waiting 1) (nat 20)) (-1)"
    "(20 :: int) \<noteq> cf_ipc_pipefd (demo_F 1)" "20 \<noteq> fst (cf_sig_pipefd (demo_F 1))"
    "brings demo_visitor (demo_F 1) (ch_trace (sy_child demo_waiting 1)) 20 a_peer ?ds"
    "\<not> ch_stop (sy_child demo_waiting 1)" "1 \<notin> sy_left demo_waiting"
    using demo_visitor_brings by (simp_all only: child fds child.select_convs)
       (simp_all add: in_array_def k_max_clientfd_def is_init_def zero_machine_def ReqStatMach_new_def)
  note conn = this
  have req: "good_request ''GET /a HTTP/1.0'' []" "concat ?ds = http_request ''GET /a HTTP/1.0'' []"
    "length (http_request ''GET /a HTTP/1.0'' []) < k_recvbuf_size"
    by (simp_all add: good_request_def ok text_line_def http_request_def k_recvbuf_size_eq)
  have n: "1 \<le> (2 :: int)" "filter is_send [] = []" "(1 :: nat) = 0 mod nat 2 + 1" by simp_all
  from request_through_pool [OF demo_starts n(1,2) demo_wires demo_waiting_reached demo_bounded child(5)
      listen sends n(3) demo_visitor_bounded child(2) conn(6,7,1,2,3,4,5) req]
  obtain S1 S2 rs where "parent_turn demo_F demo_kernel demo_waiting = Inr S1" "sy_pipe S1 1 = ''1'' @ [NUL]"
    "child_turns reqstat_class demo_F demo_visitor 1 4 S1 = Inr S2"
    "pool_steps reqstat_class demo_F demo_system S2"
    "ch_trace (sy_child S2 1) = demo_child_trace 1 @ accept_calls demo_visitor (demo_F 1) 20 (demo_child_trace 1) @
       [Accept 4, wait_call (demo_F 1)] @ rs @
       [FcntlGetFl 20, Writev 20 [hello_head, hello_body], EpollCtlDel 5 20, Close 20]"
    unfolding child fds by auto
  then show ?thesis by (auto simp: wait_call_def k_max_num_epoll_event_def demo_F_def)
qed

section \<open>The stop of the pool, and a dead child\<close>

text \<open>A child that reads its signal pipe stops, or has ten bytes less to read.\<close>

lemma signal_turn:
  assumes "sy_todo S i = ev # evs" "on_pipe (fst (cf_sig_pipefd (F i))) ev"
    "\<not> on_pipe (cf_ipc_pipefd (F i)) ev" "b \<in> set (sy_sigs S i)" "is_stop_signal b"
  shows "\<exists>S'. child_turn T F k i S = Inr S' \<and>
    (ch_stop (sy_child S' i) \<or> length (sy_sigs S' i) + 10 = length (sy_sigs S i))"
proof -
  let ?f = "F i" and ?d = "take 10 (sy_sigs S i)"
  have "fst (cf_sig_pipefd ?f) \<noteq> cf_ipc_pipefd ?f" using assms(2,3) by (auto simp: on_pipe_def)
  moreover have "sy_sigs S i \<noteq> []" using assms(4) by auto
  ultimately have "child_event T (piped ?f (sy_pipe S i) (sy_sigs S i) k) ?f ev (sy_child S i) =
      Inr (fold child_signal ?d (log [Recv (fst (cf_sig_pipefd ?f)) 10] (sy_child S i)))" (is "_ = Inr ?c")
    using assms(2,3)
    by (auto simp: child_event_def child_signals_def on_pipe_def piped_def pipe_answer_def Let_def)
  then have turn: "child_turn T F k i S = Inr (S\<lparr>sy_todo := (sy_todo S)(i := evs),
      sy_child := (sy_child S)(i := ?c), sy_sigs := (sy_sigs S)(i := drop 10 (sy_sigs S i))\<rparr>)"
    using assms(1-3) by (simp add: child_turn_def child_handles_def)
  have "ch_stop ?c \<or> 10 \<le> length (sy_sigs S i)"
  proof (cases "10 \<le> length (sy_sigs S i)")
    case False
    then have "?d = sy_sigs S i" by simp
    then show ?thesis using assms(4,5) by (auto simp: child_signals_fold)
  qed simp
  then show ?thesis unfolding turn by auto
qed

text \<open>
  The stop reaches the whole pool: in every reachable state in which the parent has stopped, a
  child whose loop is not over has stopped too or has a stop signal in its signal pipe; and each
  time it reads the pipe it stops or has ten bytes less to read.
\<close>

theorem shutdown_reaches_children:
  assumes "pool_starts k kc l n h clients0 F S0" "1 \<le> n" "filter is_send h = []" "pool_steps T F S0 S"
    "stopped (pa_pool (sy_parent S))" "1 \<le> i" "i \<le> nat n" "i \<notin> sy_left S"
  shows "ch_stop (sy_child S i) \<or>
    (\<exists>b \<in> set (sy_sigs S i). is_stop_signal b) \<and>
    (\<forall>k' ev evs. sy_todo S i = ev # evs \<and> on_pipe (fst (cf_sig_pipefd (F i))) ev \<and>
       \<not> on_pipe (cf_ipc_pipefd (F i)) ev \<longrightarrow>
       (\<exists>S'. child_turn T F k' i S = Inr S' \<and>
          (ch_stop (sy_child S' i) \<or> length (sy_sigs S' i) + 10 = length (sy_sigs S i))))"
proof -
  note inv = reachable_pool [OF assms(1-4)]
  have "is_child (pa_pool (sy_parent S0)) i" using inv(3) assms(6,7) by (simp add: is_child_def)
  then have "will_stop S i" using inv(2) assms(5) by (simp add: pool_inv_def)
  then consider "ch_stop (sy_child S i)" | b where "b \<in> set (sy_sigs S i)" "is_stop_signal b"
    using assms(8) by (auto simp: will_stop_def)
  then show ?thesis
  proof cases
    case 2
    then show ?thesis using signal_turn [of S i _ _ F b] by blast
  qed blast
qed

lemma shutdown_reaches_children_witness:
  "\<exists>S. pool_steps reqstat_class demo_F demo_system S \<and> stopped (pa_pool (sy_parent S)) \<and>
     (ch_stop (sy_child S 2) \<or> (\<exists>b \<in> set (sy_sigs S 2). is_stop_signal b))"
proof -
  obtain S where S: "pool_steps reqstat_class demo_F demo_system S" "sy_parent S = demo_parent2" "sy_left S = {}"
    using demo_second_round by blast
  have "stopped (pa_pool (sy_parent S))" by (simp add: S(2) demo_parent2_def)
  with shutdown_reaches_children [OF demo_starts _ _ S(1) this, of 2] S(1,3) show ?thesis
    by (intro exI [of _ S]) auto
qed



end
