(* ===== verification/PoolShutdown.thy ===== *)
theory PoolShutdown
  imports PoolSystemProps
begin

text \<open>
  The end of a pool: how a child whose parent has stopped comes to the end of its own loop, and
  what it closes then.
\<close>

section \<open>The array of clients in the reachable states\<close>

text \<open>
  The contract of a class (\<open>PoolClient\<close>), carried to the system: in every reachable state every
  element of every child's array is free or answers for its own index.
\<close>

context pool_client
begin

lemma child_turn_slots:
  assumes "child_turn T F k i S = Inr S'" "slots_ok (ch_clients (sy_child S j))"
  shows "slots_ok (ch_clients (sy_child S' j))"
proof (cases "j = i")
  case False
  then show ?thesis using child_turn_others(2) [OF assms(1)] assms(2) by simp
next
  case True
  then show ?thesis
    using assms child_event_slots [of "sy_child S i" "piped (F i) (sy_pipe S i) (sy_sigs S i) k" "F i"]
    by (auto simp: child_turn_def child_waits_def child_handles_def rbind_eq_Inr_iff Let_def
        split: list.splits epoll_ret.splits if_splits)
qed

lemma pool_step_slots:
  assumes "pool_step T F S S'" "slots_ok (ch_clients (sy_child S j))"
  shows "slots_ok (ch_clients (sy_child S' j))"
  using assms
proof (induction rule: pool_step.induct)
  case (parent k S S')
  then show ?case
    by (auto simp: parent_turn_def parent_waits_def parent_handles_def rbind_eq_Inr_iff Let_def
        split: list.splits epoll_ret.splits if_splits)
next
  case (child S i k S')
  then show ?case using child_turn_slots by blast
qed simp_all

lemma pool_steps_slots:
  assumes "pool_steps T F S S'" "slots_ok (ch_clients (sy_child S j))"
  shows "slots_ok (ch_clients (sy_child S' j))"
  using assms by (induction rule: rtranclp_induct) (auto intro: pool_step_slots)

text \<open>So what a child closes at its end is exactly what is in use.\<close>

lemma child_end_slots:
  assumes "slots_ok (ch_clients s)"
  shows "child_end T f s = ch_trace s @
    map (\<lambda>fd. Close (int fd)) (filter (\<lambda>fd. \<not> c_is_init T (ch_clients s fd) (-1)) [0..<k_max_clientfd]) @
    [Close (cf_epollfd f)]"
  by (simp add: child_end_def close_clients_owned free_iff [OF assms])

end

lemma started_slots:
  assumes "pool_starts k kc l n h (\<lambda>i. ReqStatMach_new (junk i)) F S" "1 \<le> i" "i \<le> nat n"
  shows "reqstat.slots_ok (ch_clients (sy_child S i))"
proof -
  have "child_starts (kc i) l n h (\<lambda>i. ReqStatMach_new (junk i)) (F i) (sy_child S i)"
    using assms by (simp add: pool_starts_def)
  then have "ch_clients (sy_child S i) = (\<lambda>i. ReqStatMach_new (junk i))"
    by (auto simp: child_starts_def)
  then show ?thesis by (simp add: new_slots_free)
qed

section \<open>Reading the signal pipe to the stop\<close>

definition sig_read :: "child_fds \<Rightarrow> trace" where
  "sig_read f = [wait_call f, Recv (fst (cf_sig_pipefd f)) 10]"

text \<open>The environment reports the signal pipe of child \<open>i\<close> whenever it is asked.\<close>

definition reports :: "kernel \<Rightarrow> child_fds \<Rightarrow> epoll_event \<Rightarrow> bool" where
  "reports k f ev \<longleftrightarrow>
     on_pipe (fst (cf_sig_pipefd f)) ev \<and> \<not> on_pipe (cf_ipc_pipefd f) ev \<and>
     (\<forall>h. k_epoll_wait k h (cf_epollfd f) k_max_num_epoll_event = EpollEvents [ev])"

lemma sig_read_turns:
  assumes "reports k (F i) ev" "sy_todo S i = []" "\<not> ch_stop (sy_child S i)" "i \<notin> sy_left S"
    "sy_sigs S i \<noteq> []"
  shows "child_turns T F k i 2 S = Inr (S\<lparr>
    sy_child := (sy_child S)(i := (sy_child S i)\<lparr>
      ch_stop := \<exists>b \<in> set (take 10 (sy_sigs S i)). is_stop_signal b,
      ch_trace := ch_trace (sy_child S i) @ sig_read (F i)\<rparr>),
    sy_sigs := (sy_sigs S)(i := drop 10 (sy_sigs S i))\<rparr>)"
proof -
  let ?f = "F i"
  let ?S = "S\<lparr>sy_child := (sy_child S)(i := log [wait_call ?f] (sy_child S i)), sy_todo := (sy_todo S)(i := [ev])\<rparr>"
  have ev: "on_pipe (fst (cf_sig_pipefd ?f)) ev" "\<not> on_pipe (cf_ipc_pipefd ?f) ev"
    using assms(1) by (simp_all add: reports_def)
  then have "fst (cf_sig_pipefd ?f) \<noteq> cf_ipc_pipefd ?f" by (auto simp: on_pipe_def)
  with ev assms(3,5) have event: "child_event T (piped ?f (sy_pipe S i) (sy_sigs S i) k) ?f ev
      (log [wait_call ?f] (sy_child S i)) = Inr ((sy_child S i)\<lparr>
        ch_stop := \<exists>b \<in> set (take 10 (sy_sigs S i)). is_stop_signal b,
        ch_trace := ch_trace (sy_child S i) @ sig_read ?f\<rparr>)"
    by (auto simp: child_event_def child_signals_def child_signals_fold on_pipe_def piped_def
        pipe_answer_def sig_read_def log_def Let_def)
  have "child_turn T F k i S = Inr ?S"
    unfolding wait_call_def by (rule child_turn_waits)
      (use assms(1-4) in \<open>simp_all add: reports_def k_max_num_epoll_event_def\<close>)
  moreover have "(sy_todo S)(i := []) = sy_todo S" using assms(2) by auto
  ultimately show ?thesis
    using ev event by (simp add: numeral_2_eq_2 child_turn_def child_handles_def Let_def)
qed

text \<open>Each reading stops the child or takes ten signals without a stop off the pipe.\<close>

definition after_reads :: "child_fds \<Rightarrow> nat \<Rightarrow> nat \<Rightarrow> 'c pool_system \<Rightarrow> 'c pool_system" where
  "after_reads f i m S = S\<lparr>
     sy_child := (sy_child S)(i := (sy_child S i)\<lparr>
       ch_stop := True,
       ch_trace := ch_trace (sy_child S i) @ concat (replicate m (sig_read f))\<rparr>),
     sy_sigs := (sy_sigs S)(i := drop (10 * m) (sy_sigs S i))\<rparr>"

lemma sig_reads:
  assumes "reports k (F i) ev" "sy_todo S i = []" "i \<notin> sy_left S"
    "ch_stop (sy_child S i) \<or> (\<exists>b \<in> set (sy_sigs S i). is_stop_signal b)"
  shows "\<exists>m \<le> length (sy_sigs S i) div 10 + 1.
    child_turns T F k i (2 * m) S = Inr (after_reads (F i) i m S)"
  using assms(2-)
proof (induction "length (sy_sigs S i)" arbitrary: S rule: less_induct)
  case less
  show ?case
  proof (cases "ch_stop (sy_child S i)")
    case True
    then have "(sy_child S i)\<lparr>ch_stop := True\<rparr> = sy_child S i" by (cases "sy_child S i") simp
    then have "after_reads (F i) i 0 S = S" by (simp add: after_reads_def)
    then show ?thesis by (intro exI [of _ 0]) simp
  next
    case False
    with less.prems(3) obtain b where b: "b \<in> set (sy_sigs S i)" "is_stop_signal b" by blast
    have "sy_sigs S i \<noteq> []" using b(1) by auto
    from sig_read_turns [where F = F and i = i and T = T, OF assms(1) less.prems(1) False less.prems(2) this]
    obtain S1 where turns: "child_turns T F k i 2 S = Inr S1" and
      S1: "S1 = S\<lparr>sy_child := (sy_child S)(i := (sy_child S i)\<lparr>
          ch_stop := \<exists>b \<in> set (take 10 (sy_sigs S i)). is_stop_signal b,
          ch_trace := ch_trace (sy_child S i) @ sig_read (F i)\<rparr>),
        sy_sigs := (sy_sigs S)(i := drop 10 (sy_sigs S i))\<rparr>" by blast
    show ?thesis
    proof (cases "\<exists>b \<in> set (take 10 (sy_sigs S i)). is_stop_signal b")
      case True
      then have "S1 = after_reads (F i) i 1 S" by (simp add: S1 after_reads_def)
      with turns show ?thesis by (intro exI [of _ 1]) simp
    next
      case none: False
      then have more: "10 < length (sy_sigs S i)" and rest: "\<exists>b \<in> set (drop 10 (sy_sigs S i)). is_stop_signal b"
        using b by (auto simp: not_less intro: ccontr)
          (metis UnE append_take_drop_id set_append)
      have "length (sy_sigs S1 i) < length (sy_sigs S i)" "sy_todo S1 i = []" "i \<notin> sy_left S1"
        "ch_stop (sy_child S1 i) \<or> (\<exists>b \<in> set (sy_sigs S1 i). is_stop_signal b)"
        using more rest less.prems(1,2) by (simp_all add: S1)
      from less.hyps [OF this] obtain m where m: "m \<le> length (sy_sigs S1 i) div 10 + 1"
        "child_turns T F k i (2 * m) S1 = Inr (after_reads (F i) i m S1)" by blast
      have "after_reads (F i) i m S1 = after_reads (F i) i (Suc m) S"
        by (simp add: S1 after_reads_def add.commute)
      with m(2) turns have "child_turns T F k i (2 * Suc m) S = Inr (after_reads (F i) i (Suc m) S)"
        using child_turns_add [of T F k i 2 "2 * m" S] by simp
      moreover have "Suc m \<le> length (sy_sigs S i) div 10 + 1"
        using m(1) more by (simp add: S1)
      ultimately show ?thesis by blast
    qed
  qed
qed

section \<open>The end of a child\<close>


text \<open>
  The demonstration pool after its second round: child 2 has a SIGTERM to read, and no connection; the
  array is the one its constructors leave.
\<close>

definition demo_ending :: kernel where
  "demo_ending = idle_kernel\<lparr>k_epoll_wait := (\<lambda>h fd n. EpollEvents (take n [\<lparr>events = EPOLLIN, data_fd = 14\<rparr>]))\<rparr>"

lemma demo_ending_kernel: "recv_bounded demo_ending" "epoll_bounded demo_ending"
  "reports demo_ending (demo_F 2) \<lparr>events = EPOLLIN, data_fd = 14\<rparr>"
  by (auto simp: recv_bounded_def epoll_bounded_def reports_def on_pipe_def demo_ending_def demo_F_def
      idle_kernel_def k_max_num_epoll_event_def)


end
