(* ===== verification/ChatRoom.thy ===== *)
theory ChatRoom
  imports Posix
begin

text \<open>
  What the three chat servers of \<^verbatim>\<open>examples/framework-intro\<close> have in common, word for word: the array
  of pollfds, the array of client data indexed by descriptor, the removal of a client by moving
  the last pollfd into its place, and the broadcast of a received buffer. The servers differ in
  the index of the first client's pollfd, which is the argument \<open>st\<close> here (1 in
  \<^verbatim>\<open>group_chat_service.cc\<close>, kStIdxClient = 2 in the other two), and in the data they add to a client
  and to the globals, which the record extensions leave open.
\<close>

section \<open>Globals\<close>

definition kMaxnClient :: int where "kMaxnClient = 2"
definition kBufSizeRecv :: nat where "kBufSizeRecv = 32"
definition kMaxnFD :: int where "kMaxnFD = 65535"

record pollfd =
  pfd_fd :: fd
  pfd_events :: "16 word"
  pfd_revents :: "16 word"

record client_data =
  client_sockaddr :: sockaddr_in
  buf_to_write :: "nat option"
  recv_buf :: "char list"

record 'c chat =
  kClient :: "fd \<Rightarrow> 'c"
  kCntClient :: int
  kFDS :: "pollfd list"
  kStop :: bool
  kTrace :: trace

definition call :: "syscall \<Rightarrow> ('c, 'x) chat_scheme \<Rightarrow> ('c, 'x) chat_scheme" where
  "call c s = s\<lparr>kTrace := kTrace s @ [c]\<rparr>"

definition revents_has :: "pollfd \<Rightarrow> 16 word \<Rightarrow> bool" where
  "revents_has p flag \<longleftrightarrow> pfd_revents p AND flag \<noteq> 0"

section \<open>The two arrays\<close>

definition fds_at :: "int \<Rightarrow> ('c, 'x) chat_scheme \<Rightarrow> pollfd res" where
  "fds_at i s = (if 0 \<le> i \<and> i < int (length (kFDS s)) then Inr (kFDS s ! nat i) else Inl OutOfBounds)"

definition set_fds :: "int \<Rightarrow> pollfd \<Rightarrow> ('c, 'x) chat_scheme \<Rightarrow> ('c, 'x) chat_scheme res" where
  "set_fds i p s =
     (if 0 \<le> i \<and> i < int (length (kFDS s)) then Inr (s\<lparr>kFDS := (kFDS s)[nat i := p]\<rparr>)
      else Inl OutOfBounds)"

definition client_at :: "fd \<Rightarrow> ('c, 'x) chat_scheme \<Rightarrow> 'c res" where
  "client_at fd s = (if 0 \<le> fd \<and> fd < kMaxnFD then Inr (kClient s fd) else Inl OutOfBounds)"

definition set_client :: "fd \<Rightarrow> 'c \<Rightarrow> ('c, 'x) chat_scheme \<Rightarrow> ('c, 'x) chat_scheme res" where
  "set_client fd c s =
     (if 0 \<le> fd \<and> fd < kMaxnFD then Inr (s\<lparr>kClient := (kClient s)(fd := c)\<rparr>) else Inl OutOfBounds)"

text \<open>\<open>poll(kFDS, n, -1)\<close>: the kernel fills \<open>revents\<close> of the first \<open>n\<close> elements.\<close>

definition poll_fds ::
  "kernel \<Rightarrow> int \<Rightarrow> ('c, 'x) chat_scheme \<Rightarrow> (errno option \<times> ('c, 'x) chat_scheme) res" where
  "poll_fds k n s =
     (if \<not> (0 \<le> n \<and> n \<le> int (length (kFDS s))) then Inl OutOfBounds
      else
        let watched = take (nat n) (kFDS s);
            (err, revents) = k_poll k (kTrace s) (map (\<lambda>p. (pfd_fd p, pfd_events p)) watched) in
        Inr (err, call (Poll (map pfd_fd watched))
          (s\<lparr>kFDS := map (\<lambda>i. (kFDS s ! i)\<lparr>pfd_revents := revents i\<rparr>) [0..<nat n] @
                     drop (nat n) (kFDS s)\<rparr>)))"

section \<open>The listening socket\<close>

text \<open>
  The address is the one the arguments name. \<open>exit(EXIT_FAILURE)\<close> is \<open>Inl\<close> of the calls made
  until then.
\<close>

definition CreateSocketAndListen :: "kernel \<Rightarrow> sockaddr_in \<Rightarrow> int \<Rightarrow> trace \<Rightarrow> trace + (fd \<times> trace)" where
  "CreateSocketAndListen k addr backlog h =
     (let my_sockfd = k_socket k h; h = h @ [SocketCreate] in
      if my_sockfd = -1 then Inl h
      else
        let ret = k_bind k h my_sockfd; h = h @ [Bind my_sockfd addr] in
        if ret = -1 then Inl h
        else
          let ret = k_listen k h my_sockfd; h = h @ [Listen my_sockfd backlog] in
          if ret = -1 then Inl h else Inr (my_sockfd, h))"

section \<open>Signals through the pipe\<close>

definition GenSigIO :: "fd \<times> fd \<Rightarrow> int \<Rightarrow> ('c, 'x) chat_scheme \<Rightarrow> ('c, 'x) chat_scheme" where
  "GenSigIO kSigPipeFD sig s = call (Send (snd kSigPipeFD) [char_of (nat sig)]) s"

definition AddSignal :: "kernel \<Rightarrow> int \<Rightarrow> trace \<Rightarrow> trace + trace" where
  "AddSignal k sig h =
     (let ret = k_sigaction k h sig; h = h @ [Sigaction sig] in if ret \<noteq> 0 then Inl h else Inr h)"

section \<open>Removing a client\<close>

definition ReplaceAndClosePollfd :: "int \<Rightarrow> int \<Rightarrow> ('c, 'x) chat_scheme \<Rightarrow> ('c, 'x) chat_scheme res" where
  "ReplaceAndClosePollfd dst src s =
     rbind (fds_at dst s) (\<lambda>d.
     let s = call (Close (pfd_fd d)) s in
     rbind (fds_at src s) (\<lambda>p.
     rbind (client_at (pfd_fd p) s) (\<lambda>c.
     rbind (set_client (pfd_fd d) c s) (\<lambda>s.
     set_fds dst p s))))"

definition remove_client :: "int \<Rightarrow> int \<Rightarrow> ('c, 'x) chat_scheme \<Rightarrow> ('c, 'x) chat_scheme res" where
  "remove_client st fds_i s =
     map_res (\<lambda>s. s\<lparr>kCntClient := kCntClient s - 1\<rparr>)
       (ReplaceAndClosePollfd fds_i (st + kCntClient s - 1) s)"

section \<open>Reading from a client and broadcasting\<close>

function broadcast ::
  "int \<Rightarrow> fd \<Rightarrow> int \<Rightarrow> ('c client_data_scheme, 'x) chat_scheme \<Rightarrow>
   ('c client_data_scheme, 'x) chat_scheme res" where
  "broadcast st peer_sockfd j s =
     (if j < st + kCntClient s then
        rbind (fds_at j s) (\<lambda>p.
        broadcast st peer_sockfd (j + 1)
          (if pfd_fd p \<noteq> peer_sockfd
           then call (Send (pfd_fd p) (recv_buf (kClient s peer_sockfd))) s else s))
      else Inr s)"
  by pat_completeness auto
termination
  by (relation "measure (\<lambda>(st, p, j, s). nat (st + kCntClient s - j))") (auto simp: call_def)

declare broadcast.simps [simp del]

text \<open>
  The branch for POLLIN of a client; the boolean says whether something was received.
\<close>

definition read_client ::
  "kernel \<Rightarrow> int \<Rightarrow> fd \<Rightarrow> ('c client_data_scheme, 'x) chat_scheme \<Rightarrow>
   (bool \<times> ('c client_data_scheme, 'x) chat_scheme) res" where
  "read_client k st peer_sockfd s =
     rbind (client_at peer_sockfd s) (\<lambda>c.
     let buf = replicate kBufSizeRecv NUL;
         ret = k_recv k (kTrace s) peer_sockfd (kBufSizeRecv - 1);
         s = call (Recv peer_sockfd (kBufSizeRecv - 1)) s in
     case ret of
       RecvErr e \<Rightarrow> map_res (Pair False) (set_client peer_sockfd (c\<lparr>recv_buf := buf\<rparr>) s)
     | RecvData d \<Rightarrow>
         if kBufSizeRecv < length d then Inl OutOfBounds
         else
           rbind (set_client peer_sockfd (c\<lparr>recv_buf := overwrite buf 0 d\<rparr>) s) (\<lambda>s.
           if d = [] then Inr (False, s)
           else map_res (Pair True) (broadcast st peer_sockfd st s)))"

section \<open>Lemmas about the arrays\<close>

lemma call_simps [simp]:
  "kFDS (call c s) = kFDS s" "kCntClient (call c s) = kCntClient s" "kStop (call c s) = kStop s"
  "kClient (call c s) = kClient s" "kTrace (call c s) = kTrace s @ [c]"
  by (simp_all add: call_def)

lemma call_call: "call d (call c s) = s\<lparr>kTrace := kTrace s @ [c, d]\<rparr>"
  by (simp add: call_def)

named_theorems array_simps \<open>accesses inside the arrays of the chat\<close>

lemma fds_at_ok [array_simps]:
  "0 \<le> i \<Longrightarrow> i < int (length (kFDS s)) \<Longrightarrow> fds_at i s = Inr (kFDS s ! nat i)"
  by (simp add: fds_at_def)

lemma set_fds_ok [array_simps]:
  "0 \<le> i \<Longrightarrow> i < int (length (kFDS s)) \<Longrightarrow> set_fds i p s = Inr (s\<lparr>kFDS := (kFDS s)[nat i := p]\<rparr>)"
  by (simp add: set_fds_def)

lemma client_at_ok [array_simps]: "0 \<le> fd \<Longrightarrow> fd < kMaxnFD \<Longrightarrow> client_at fd s = Inr (kClient s fd)"
  by (simp add: client_at_def)

lemma set_client_ok [array_simps]:
  "0 \<le> fd \<Longrightarrow> fd < kMaxnFD \<Longrightarrow> set_client fd c s = Inr (s\<lparr>kClient := (kClient s)(fd := c)\<rparr>)"
  by (simp add: set_client_def)

text \<open>The accesses that succeed.\<close>

named_theorems array_Inr \<open>what a successful access of an array says\<close>

lemma fds_at_Inr [array_Inr]:
  "fds_at i s = Inr p \<longleftrightarrow> 0 \<le> i \<and> i < int (length (kFDS s)) \<and> p = kFDS s ! nat i"
  by (auto simp: fds_at_def)

lemma set_fds_Inr [array_Inr]:
  "set_fds i p s = Inr t \<longleftrightarrow>
     0 \<le> i \<and> i < int (length (kFDS s)) \<and> t = s\<lparr>kFDS := (kFDS s)[nat i := p]\<rparr>"
  by (auto simp: set_fds_def)

lemma client_at_Inr [array_Inr]:
  "client_at fd s = Inr c \<longleftrightarrow> 0 \<le> fd \<and> fd < kMaxnFD \<and> c = kClient s fd"
  by (auto simp: client_at_def)

lemma set_client_Inr [array_Inr]:
  "set_client fd c s = Inr t \<longleftrightarrow>
     0 \<le> fd \<and> fd < kMaxnFD \<and> t = s\<lparr>kClient := (kClient s)(fd := c)\<rparr>"
  by (auto simp: set_client_def)

lemmas chat_Inr = array_Inr rbind_eq_Inr_iff map_res_eq_simps

section \<open>What the shared operations keep\<close>

lemma broadcast_count: "broadcast st p j s = Inr t \<Longrightarrow> kCntClient t = kCntClient s"
proof (induction st p j s rule: broadcast.induct)
  case (1 st p j s)
  from "1.prems" show ?case
    by (subst (asm) broadcast.simps) (auto simp: rbind_eq_Inr_iff split: if_splits dest: "1.IH")
qed

lemma remove_client_count: "remove_client st i s = Inr t \<Longrightarrow> kCntClient t = kCntClient s - 1"
  by (auto simp: remove_client_def ReplaceAndClosePollfd_def Let_def chat_Inr)

lemma read_client_count:
  assumes "read_client k st p s = Inr (b, t)"
  shows "kCntClient t = kCntClient s"
  using assms
  by (cases "k_recv k (kTrace s) p (kBufSizeRecv - 1)")
     (auto simp: read_client_def Let_def chat_Inr split: if_splits dest!: broadcast_count)

end
