(* ===== verification/ChatLemmas.thy ===== *)
theory ChatLemmas
  imports ChatRoom "HOL-Library.Multiset"
begin

text \<open>
  The shared operations of the chats seen through the list of the clients' pollfds: the state a
  chat keeps, the exact effect of broadcasting, reading and removing on that list and on the trace.
\<close>

section \<open>The members of a room\<close>

definition members :: "int \<Rightarrow> ('c, 'x) chat_scheme \<Rightarrow> pollfd list" where
  "members st s = take (nat (kCntClient s)) (drop (nat st) (kFDS s))"

definition valid_fd :: "fd \<Rightarrow> bool" where "valid_fd fd \<longleftrightarrow> 0 \<le> fd \<and> fd < kMaxnFD"

definition room_ok :: "int \<Rightarrow> ('c, 'x) chat_scheme \<Rightarrow> bool" where
  "room_ok st s \<longleftrightarrow>
     0 \<le> st \<and> 0 \<le> kCntClient s \<and> kCntClient s \<le> kMaxnClient \<and>
     int (length (kFDS s)) = st + kMaxnClient \<and> (\<forall>p \<in> set (members st s). valid_fd (pfd_fd p))"

named_theorems member_simps \<open>members after updates of other fields\<close>

lemma members_upd [member_simps]:
  "members st (s\<lparr>kTrace := h\<rparr>) = members st s" "members st (s\<lparr>kClient := c\<rparr>) = members st s"
  "members st (call x s) = members st s" "members st (s\<lparr>kStop := b\<rparr>) = members st s"
  by (simp_all add: members_def)

lemma room_ok_upd [member_simps]:
  "room_ok st (s\<lparr>kTrace := h\<rparr>) = room_ok st s" "room_ok st (s\<lparr>kClient := c\<rparr>) = room_ok st s"
  "room_ok st (call x s) = room_ok st s" "room_ok st (s\<lparr>kStop := b\<rparr>) = room_ok st s"
  by (simp_all add: room_ok_def member_simps)

lemma room_ok_room: "room_ok st s \<Longrightarrow> nat st + nat (kCntClient s) \<le> length (kFDS s)"
  by (auto simp: room_ok_def)

lemma length_members: "room_ok st s \<Longrightarrow> length (members st s) = nat (kCntClient s)"
  using room_ok_room [of st s] by (simp add: members_def)

lemma members_nth:
  assumes "room_ok st s" "n < length (members st s)"
  shows "members st s ! n = kFDS s ! nat (st + int n)"
proof -
  have "nat (st + int n) = nat st + n" using assms(1) by (simp add: room_ok_def nat_add_distrib)
  with assms room_ok_room [OF assms(1)] show ?thesis by (simp add: members_def)
qed

lemma member_fds_at:
  "room_ok st s \<Longrightarrow> n < length (members st s) \<Longrightarrow> fds_at (st + int n) s = Inr (members st s ! n)"
  using length_members [of st s] by (auto simp: members_nth fds_at_def room_ok_def)

lemma member_valid: "room_ok st s \<Longrightarrow> p \<in> set (members st s) \<Longrightarrow> valid_fd (pfd_fd p)"
  by (simp add: room_ok_def)

lemma member_client_at: "valid_fd fd \<Longrightarrow> client_at fd s = Inr (kClient s fd)"
  by (simp add: client_at_def valid_fd_def)

lemma member_set_client: "valid_fd fd \<Longrightarrow> set_client fd c s = Inr (s\<lparr>kClient := (kClient s)(fd := c)\<rparr>)"
  by (simp add: set_client_def valid_fd_def)

section \<open>Broadcasting and reading\<close>

definition relay_to :: "fd \<Rightarrow> char list \<Rightarrow> pollfd list \<Rightarrow> trace" where
  "relay_to peer buf ps = map (\<lambda>p. Send (pfd_fd p) buf) (filter (\<lambda>p. pfd_fd p \<noteq> peer) ps)"

lemma broadcast_members:
  assumes "room_ok st s" "j = st + int n" "n \<le> length (members st s)"
  shows "broadcast st peer j s = Inr (s\<lparr>kTrace := kTrace s @
    relay_to peer (recv_buf (kClient s peer)) (drop n (members st s))\<rparr>)"
  using assms
proof (induction st peer j s arbitrary: n rule: broadcast.induct)
  case (1 st peer j s)
  show ?case
  proof (cases "n < length (members st s)")
    case False
    with "1.prems" have "\<not> j < st + kCntClient s" "drop n (members st s) = []"
      using length_members [OF "1.prems"(1)] by (auto simp: room_ok_def)
    then show ?thesis by (subst broadcast.simps) (simp add: relay_to_def)
  next
    case True
    let ?p = "members st s ! n"
    let ?s = "if pfd_fd ?p \<noteq> peer then call (Send (pfd_fd ?p) (recv_buf (kClient s peer))) s else s"
    have j: "j < st + kCntClient s" and at: "fds_at j s = Inr ?p"
      using True "1.prems" length_members [OF "1.prems"(1)] member_fds_at [OF "1.prems"(1) True] by auto
    have d: "drop n (members st s) = ?p # drop (Suc n) (members st s)"
      using True by (simp add: Cons_nth_drop_Suc)
    have ok: "room_ok st ?s" "members st ?s = members st s" using "1.prems"(1) by (simp_all add: member_simps)
    have "broadcast st peer (j + 1) ?s = Inr (?s\<lparr>kTrace := kTrace ?s @
        relay_to peer (recv_buf (kClient ?s peer)) (drop (Suc n) (members st ?s))\<rparr>)"
      using "1.IH" [OF j at ok(1), of "Suc n"] True "1.prems"(2) ok(2) by simp
    with j at ok(2) show ?thesis
      by (subst broadcast.simps) (simp add: d relay_to_def call_def)
  qed
qed

definition pad :: "char list \<Rightarrow> char list" where
  "pad d = d @ replicate (kBufSizeRecv - length d) NUL"

text \<open>What a client that is readable makes the server do.\<close>

definition client_says :: "kernel \<Rightarrow> trace \<Rightarrow> fd \<Rightarrow> char list" where
  "client_says k h fd = (case k_recv k h fd 31 of RecvErr e \<Rightarrow> [] | RecvData d \<Rightarrow> d)"

definition relay :: "kernel \<Rightarrow> trace \<Rightarrow> fd \<Rightarrow> pollfd list \<Rightarrow> trace" where
  "relay k h peer ps =
     Recv peer 31 # (if client_says k h peer = [] then []
                     else relay_to peer (pad (client_says k h peer)) ps)"

lemma client_says_bounded: "recv_bounded k \<Longrightarrow> length (client_says k h fd) \<le> 31"
  by (auto simp: client_says_def recv_bounded_def split: recv_ret.split)

lemma overwrite_zeros: "length d \<le> kBufSizeRecv \<Longrightarrow> overwrite (replicate kBufSizeRecv NUL) 0 d = pad d"
  by (simp add: overwrite_def pad_def)

lemma read_client_members:
  assumes "room_ok st s" "recv_bounded k" "valid_fd peer"
  shows "\<exists>c. read_client k st peer s = Inr (client_says k (kTrace s) peer \<noteq> [],
      s\<lparr>kClient := (kClient s)(peer := c), kTrace := kTrace s @ relay k (kTrace s) peer (members st s)\<rparr>) \<and>
    c = (kClient s peer)\<lparr>recv_buf := recv_buf c\<rparr>"
proof -
  have b: "kBufSizeRecv - Suc 0 = 31" by (simp add: kBufSizeRecv_def)
  show ?thesis
  proof (cases "k_recv k (kTrace s) peer 31")
    case (RecvErr e)
    with assms(3) show ?thesis
      by (auto simp: read_client_def Let_def b member_client_at member_set_client relay_def client_says_def call_def
          intro!: exI [of _ "(kClient s peer)\<lparr>recv_buf := replicate kBufSizeRecv NUL\<rparr>"])
  next
    case (RecvData d)
    let ?c = "(kClient s peer)\<lparr>recv_buf := pad d\<rparr>"
    let ?s = "(call (Recv peer 31) s)\<lparr>kClient := (kClient s)(peer := ?c)\<rparr>"
    have d: "length d \<le> kBufSizeRecv"
      using assms(2) RecvData by (force simp: recv_bounded_def kBufSizeRecv_def)
    have "broadcast st peer st ?s = Inr (?s\<lparr>kTrace := kTrace ?s @ relay_to peer (pad d) (members st s)\<rparr>)"
      using broadcast_members [of st ?s st 0 peer] assms(1) by (simp add: member_simps)
    with d RecvData assms(3) show ?thesis
      by (auto simp: read_client_def Let_def b member_client_at member_set_client relay_def client_says_def
          call_def overwrite_zeros intro!: exI [of _ ?c])
  qed
qed

section \<open>Removing\<close>

text \<open>The last element takes the place of the removed one.\<close>

definition swap_remove :: "nat \<Rightarrow> 'a list \<Rightarrow> 'a list" where
  "swap_remove n xs = butlast (xs[n := last xs])"

lemma length_swap_remove [simp]: "length (swap_remove n xs) = length xs - 1"
  by (simp add: swap_remove_def)

lemma mset_swap_remove:
  assumes "n < length xs"
  shows "add_mset (xs ! n) (mset (swap_remove n xs)) = mset xs"
proof -
  obtain ys y where xs: "xs = ys @ [y]" using assms by (cases xs rule: rev_cases) auto
  show ?thesis
  proof (cases "n = length ys")
    case True
    with xs show ?thesis by (simp add: swap_remove_def)
  next
    case False
    with xs assms have "n < length ys" by simp
    with xs show ?thesis
      by (simp add: swap_remove_def list_update_append nth_append butlast_append mset_update)
  qed
qed

lemma members_removed:
  assumes "room_ok st s" "n < length (members st s)"
  shows "members st (s\<lparr>kFDS := (kFDS s)[nat (st + int n) := last (members st s)],
      kCntClient := kCntClient s - 1\<rparr>) = swap_remove n (members st s)"
proof -
  let ?m = "members st s"
  have len: "length ?m = nat (kCntClient s)" by (rule length_members [OF assms(1)])
  have st: "0 \<le> st" using assms(1) by (simp add: room_ok_def)
  have "swap_remove n ?m = take (nat (kCntClient s) - 1) (?m[n := last ?m])"
    by (simp add: swap_remove_def butlast_conv_take len)
  moreover have "?m[n := last ?m] = take (nat (kCntClient s)) (drop (nat st) ((kFDS s)[nat (st + int n) := last ?m]))"
    using st by (simp add: members_def take_update_swap drop_update_swap nat_add_distrib)
  moreover have "nat (kCntClient s - 1) = nat (kCntClient s) - 1" by simp
  moreover have "min (nat (kCntClient s)) (nat (kCntClient s) - 1) = nat (kCntClient s) - 1" by simp
  ultimately show ?thesis unfolding members_def by simp
qed

lemma remove_client_members:
  assumes "room_ok st s" "n < length (members st s)" "i = st + int n"
  shows "\<exists>c. remove_client st i s = Inr (s\<lparr>kClient := (kClient s)(pfd_fd (members st s ! n) := c),
      kFDS := (kFDS s)[nat i := last (members st s)], kCntClient := kCntClient s - 1,
      kTrace := kTrace s @ [Close (pfd_fd (members st s ! n))]\<rparr>) \<and>
    c = kClient s (pfd_fd (last (members st s)))"
proof -
  let ?m = "members st s"
  have ne: "?m \<noteq> []" using assms(2) by auto
  have len: "length ?m = nat (kCntClient s)" by (rule length_members [OF assms(1)])
  let ?s = "call (Close (pfd_fd (?m ! n))) s"
  have ok: "room_ok st ?s" "members st ?s = ?m" using assms(1) by (simp_all add: member_simps)
  have 1: "fds_at i s = Inr (?m ! n)" using member_fds_at [OF assms(1,2)] assms(3) by simp
  have "fds_at (st + int (length ?m - 1)) ?s = Inr (?m ! (length ?m - 1))"
    using member_fds_at [OF ok(1), of "length ?m - 1"] ne ok(2) by simp
  moreover have "0 < length ?m" using ne by simp
  then have "st + int (length ?m - 1) = st + kCntClient s - 1" using len by linarith
  ultimately have 2: "fds_at (st + kCntClient s - 1) ?s = Inr (last ?m)"
    using ne by (simp add: last_conv_nth add_diff_eq)
  have v: "valid_fd (pfd_fd (?m ! n))" "valid_fd (pfd_fd (last ?m))"
    using member_valid [OF assms(1)] assms(2) ne by auto
  have i: "0 \<le> i" "i < int (length (kFDS s))"
    using assms len by (auto simp: room_ok_def)
  show ?thesis
    using 1 2 v i by (simp add: remove_client_def ReplaceAndClosePollfd_def member_client_at
        member_set_client set_fds_def call_def)
qed

lemma room_ok_removed:
  assumes "room_ok st s" "n < length (members st s)"
  shows "room_ok st (s\<lparr>kClient := f, kFDS := (kFDS s)[nat (st + int n) := last (members st s)],
    kCntClient := kCntClient s - 1, kTrace := h\<rparr>)" (is "room_ok st ?t")
proof -
  have "members st ?t = swap_remove n (members st s)"
    using members_removed [OF assms] by (simp add: members_def)
  moreover have "set (swap_remove n (members st s)) \<subseteq> set (members st s)"
    using assms(2) set_update_subset_insert [of "members st s" n "last (members st s)"]
    by (cases "members st s = []") (auto simp: swap_remove_def dest!: in_set_butlastD)
  moreover have "1 \<le> kCntClient s" using assms length_members [OF assms(1)] by auto
  ultimately show ?thesis using assms(1) by (auto simp: room_ok_def)
qed

end
