(* ===== verification/PlainChat.thy ===== *)
theory PlainChat
  imports ChatRoom
begin

text \<open>
  The two chat servers without timers. \<^verbatim>\<open>group_chat_service.cc\<close> stops when the handler of SIGTERM has
  set a flag or \<open>poll\<close> fails; \<^verbatim>\<open>group_chat_service_sio.cc\<close> turns signals into bytes on a pipe that it
  polls together with the clients. Accepting and the loop over the clients are the same code at
  another first index \<open>st\<close>.
\<close>

type_synonym room = "client_data chat"

section \<open>Accepting\<close>

definition client_events :: "16 word" where
  "client_events = POLLIN OR POLLRDHUP OR POLLERR"

definition accept_client :: "kernel \<Rightarrow> int \<Rightarrow> fd \<Rightarrow> room \<Rightarrow> room res" where
  "accept_client k st my_sockfd s =
     (let ret = k_accept k (kTrace s) my_sockfd; s = call (Accept my_sockfd) s in
      case ret of
        AcceptErr e \<Rightarrow> Inr s
      | Accepted peer_sockfd peer_sockaddr \<Rightarrow>
          if kCntClient s \<ge> kMaxnClient then Inr (call (Close peer_sockfd) s)
          else if \<not> peer_sockfd < kMaxnFD then Inl AssertFail
          else
            rbind (client_at peer_sockfd s) (\<lambda>c.
            rbind (set_client peer_sockfd (c\<lparr>client_sockaddr := peer_sockaddr, buf_to_write := None\<rparr>) s) (\<lambda>s.
            let s = s\<lparr>kCntClient := kCntClient s + 1\<rparr> in
            set_fds (st + kCntClient s - 1)
              \<lparr>pfd_fd = peer_sockfd, pfd_events = client_events, pfd_revents = 0\<rparr> s)))"

definition accept_phase :: "kernel \<Rightarrow> int \<Rightarrow> fd \<Rightarrow> room \<Rightarrow> room res" where
  "accept_phase k st my_sockfd s =
     rbind (fds_at 0 s) (\<lambda>p.
     if revents_has p POLLIN then accept_client k st my_sockfd s else Inr s)"

section \<open>The loop over the clients\<close>

text \<open>One turn of the loop at index \<open>fds_i\<close>: the index of the next turn, and the state.\<close>

definition client_turn :: "kernel \<Rightarrow> int \<Rightarrow> int \<Rightarrow> room \<Rightarrow> (int \<times> room) res" where
  "client_turn k st fds_i s =
     rbind (fds_at fds_i s) (\<lambda>client_pollfd.
     if revents_has client_pollfd POLLOUT then Inr (fds_i + 1, s)
     else if revents_has client_pollfd POLLERR then map_res (Pair fds_i) (remove_client st fds_i s)
     else if revents_has client_pollfd POLLRDHUP then map_res (Pair fds_i) (remove_client st fds_i s)
     else if revents_has client_pollfd POLLIN then
       map_res (\<lambda>(_, s). (fds_i + 1, s)) (read_client k st (pfd_fd client_pollfd) s)
     else Inr (fds_i + 1, s))"

text \<open>A turn goes on to the next index or removes a client, so the loop ends.\<close>

lemma client_turn_measure:
  assumes "client_turn k st i s = Inr (i', s')" "i < st + kCntClient s"
  shows "nat (st + kCntClient s' - i') < nat (st + kCntClient s - i)"
  using assms
  by (auto simp: client_turn_def chat_Inr split: if_splits
      dest!: remove_client_count read_client_count)

function client_loop :: "kernel \<Rightarrow> int \<Rightarrow> int \<Rightarrow> room \<Rightarrow> room res" where
  "client_loop k st fds_i s =
     (if fds_i < st + kCntClient s then
        rbind (client_turn k st fds_i s) (\<lambda>(fds_i, s). client_loop k st fds_i s)
      else Inr s)"
  by pat_completeness auto
termination
  by (relation "measure (\<lambda>(k, st, i, s). nat (st + kCntClient s - i))")
     (use client_turn_measure in auto)

declare client_loop.simps [simp del]

section \<open>\<open>group_chat_service.cc\<close>\<close>

text \<open>The first pollfd is the listening socket, the clients follow from index 1.\<close>

definition no_client :: pollfd where
  "no_client = \<lparr>pfd_fd = -1, pfd_events = 0, pfd_revents = 0\<rparr>"

definition zero_client :: client_data where
  "zero_client = \<lparr>client_sockaddr = \<lparr>sin_addr = 0, sin_port = 0\<rparr>, buf_to_write = None,
     recv_buf = replicate kBufSizeRecv NUL\<rparr>"

definition group_init :: "fd \<Rightarrow> trace \<Rightarrow> room" where
  "group_init my_sockfd h =
     \<lparr>kClient = (\<lambda>fd. zero_client), kCntClient = 0,
      kFDS = \<lparr>pfd_fd = my_sockfd, pfd_events = POLLIN OR POLLERR, pfd_revents = 0\<rparr> #
             replicate (nat kMaxnClient) no_client,
      kStop = False, kTrace = h\<rparr>"

definition HandleTERM :: "room \<Rightarrow> room" where "HandleTERM s = s\<lparr>kStop := True\<rparr>"

text \<open>The handler runs when the kernel delivers the signal; the loop sees it at its head.\<close>

definition deliver_SIGTERM :: "kernel \<Rightarrow> room \<Rightarrow> room" where
  "deliver_SIGTERM k s = (if k_sigterm k (kTrace s) then HandleTERM s else s)"

definition group_clients :: "kernel \<Rightarrow> room \<Rightarrow> room res" where
  "group_clients k s = client_loop k 1 1 s"

definition group_round :: "kernel \<Rightarrow> fd \<Rightarrow> room \<Rightarrow> (bool \<times> room) res" where
  "group_round k my_sockfd s =
     rbind (poll_fds k (1 + kCntClient s) s) (\<lambda>(err, s).
     if err \<noteq> None then Inr (True, s)
     else rbind (accept_phase k 1 my_sockfd s) (\<lambda>s.
          rbind (group_clients k s) (\<lambda>s. Inr (False, s))))"

fun group_loop :: "nat \<Rightarrow> kernel \<Rightarrow> fd \<Rightarrow> room \<Rightarrow> room res option" where
  "group_loop fuel k my_sockfd s =
     (let s = deliver_SIGTERM k s in
      if kStop s then Some (Inr s)
      else case fuel of
        0 \<Rightarrow> None
      | Suc n \<Rightarrow>
          (case group_round k my_sockfd s of
             Inl f \<Rightarrow> Some (Inl f)
           | Inr (brk, s) \<Rightarrow> if brk then Some (Inr s) else group_loop n k my_sockfd s))"

declare group_loop.simps [simp del]

definition group_main :: "nat \<Rightarrow> kernel \<Rightarrow> sockaddr_in \<Rightarrow> (int \<times> trace) res option" where
  "group_main fuel k addr =
     (case CreateSocketAndListen k addr kMaxnClient [] of
        Inl h \<Rightarrow> Some (Inr (1, h))
      | Inr (my_sockfd, h) \<Rightarrow>
          map_option (map_res (\<lambda>s. (0, kTrace s @ [Close my_sockfd])))
            (group_loop fuel k my_sockfd (group_init my_sockfd h)))"

section \<open>\<open>group_chat_service_sio.cc\<close>\<close>

definition kStIdxClient :: int where "kStIdxClient = 2"

definition sio_init :: "fd \<Rightarrow> fd \<times> fd \<Rightarrow> trace \<Rightarrow> room" where
  "sio_init my_sockfd kSigPipeFD h =
     \<lparr>kClient = (\<lambda>fd. zero_client), kCntClient = 0,
      kFDS = [\<lparr>pfd_fd = my_sockfd, pfd_events = POLLIN OR POLLERR, pfd_revents = 0\<rparr>,
              \<lparr>pfd_fd = fst kSigPipeFD, pfd_events = POLLIN OR POLLERR, pfd_revents = 0\<rparr>] @
             replicate (nat kMaxnClient) no_client,
      kStop = False, kTrace = h\<rparr>"

definition sio_signal :: "char \<Rightarrow> room \<Rightarrow> room" where
  "sio_signal c s = (if of_char c = SIGTERM then s\<lparr>kStop := True\<rparr> else s)"

text \<open>Phase 0: the signal pipe, with a buffer of 1025 bytes.\<close>

definition sio_signals :: "kernel \<Rightarrow> room \<Rightarrow> room res" where
  "sio_signals k s =
     rbind (fds_at 1 s) (\<lambda>p.
     if revents_has p POLLIN then
       (let ret = k_recv k (kTrace s) (pfd_fd p) 1025; s = call (Recv (pfd_fd p) 1025) s in
        case ret of
          RecvErr e \<Rightarrow> Inr s
        | RecvData sigpipe_buf \<Rightarrow>
            if 1025 < length sigpipe_buf then Inl OutOfBounds else Inr (fold sio_signal sigpipe_buf s))
     else Inr s)"

definition sio_clients :: "kernel \<Rightarrow> room \<Rightarrow> room res" where
  "sio_clients k s = client_loop k kStIdxClient kStIdxClient s"

definition sio_round :: "kernel \<Rightarrow> fd \<Rightarrow> room \<Rightarrow> (bool \<times> room) res" where
  "sio_round k my_sockfd s =
     rbind (poll_fds k (kStIdxClient + kCntClient s) s) (\<lambda>(err, s).
     if err \<noteq> None \<and> err \<noteq> Some EINTR then Inr (True, s)
     else rbind (sio_signals k s) (\<lambda>s.
          rbind (accept_phase k kStIdxClient my_sockfd s) (\<lambda>s.
          rbind (sio_clients k s) (\<lambda>s. Inr (False, s)))))"

fun sio_loop :: "nat \<Rightarrow> kernel \<Rightarrow> fd \<Rightarrow> room \<Rightarrow> room res option" where
  "sio_loop fuel k my_sockfd s =
     (if kStop s then Some (Inr s)
      else case fuel of
        0 \<Rightarrow> None
      | Suc n \<Rightarrow>
          (case sio_round k my_sockfd s of
             Inl f \<Rightarrow> Some (Inl f)
           | Inr (brk, s) \<Rightarrow> if brk then Some (Inr s) else sio_loop n k my_sockfd s))"

declare sio_loop.simps [simp del]

text \<open>The set-up: an \<open>exit\<close> before the loop is \<open>Inl\<close> of the calls made.\<close>

definition sio_setup :: "kernel \<Rightarrow> sockaddr_in \<Rightarrow> trace + (fd \<times> room)" where
  "sio_setup k addr =
     (case CreateSocketAndListen k addr kMaxnClient [] of
        Inl h \<Rightarrow> Inl h
      | Inr (my_sockfd, h) \<Rightarrow>
          (case k_socketpair k h of
             None \<Rightarrow> Inl (h @ [SocketPair])
           | Some kSigPipeFD \<Rightarrow>
               (case AddSignal k SIGURG (h @ [SocketPair]) of
                  Inl h \<Rightarrow> Inl h
                | Inr h \<Rightarrow>
                    (case AddSignal k SIGTERM h of
                       Inl h \<Rightarrow> Inl h
                     | Inr h \<Rightarrow> Inr (my_sockfd, sio_init my_sockfd kSigPipeFD h)))))"

definition sio_main :: "nat \<Rightarrow> kernel \<Rightarrow> sockaddr_in \<Rightarrow> (int \<times> trace) res option" where
  "sio_main fuel k addr =
     (case sio_setup k addr of
        Inl h \<Rightarrow> Some (Inr (1, h))
      | Inr (my_sockfd, s) \<Rightarrow>
          map_option (map_res (\<lambda>s. (0, kTrace s @ [Close my_sockfd]))) (sio_loop fuel k my_sockfd s))"

end
