(* ===== verification/ChatPhase.thy ===== *)
theory ChatPhase
  imports ChatLemmas PlainChat
begin

text \<open>
  The loop over the clients as a function of the list of members alone, the refinement of that
  function by the code, and what a round and a run of either chat keep.
\<close>

section \<open>The loop on the members alone\<close>

definition stays :: "pollfd \<Rightarrow> bool" where
  "stays p \<longleftrightarrow> revents_has p POLLOUT \<or> \<not> revents_has p POLLERR \<and> \<not> revents_has p POLLRDHUP"

definition speaks :: "pollfd \<Rightarrow> bool" where
  "speaks p \<longleftrightarrow> \<not> revents_has p POLLOUT \<and> \<not> revents_has p POLLERR \<and> \<not> revents_has p POLLRDHUP \<and>
     revents_has p POLLIN"

function room_phase :: "kernel \<Rightarrow> nat \<Rightarrow> pollfd list \<Rightarrow> trace \<Rightarrow> pollfd list \<times> trace" where
  "room_phase k n ps h =
     (if n < length ps then
        let p = ps ! n in
        if stays p then room_phase k (Suc n) ps (if speaks p then h @ relay k h (pfd_fd p) ps else h)
        else room_phase k n (swap_remove n ps) (h @ [Close (pfd_fd p)])
      else (ps, h))"
  by pat_completeness auto
termination by (relation "measure (\<lambda>(k, n, ps, h). length ps - n)") auto

declare room_phase.simps [simp del]

section \<open>The code refines it\<close>

lemma client_turn_members:
  assumes "room_ok st s" "recv_bounded k" "n < length (members st s)"
  defines "p \<equiv> members st s ! n"
  shows "\<exists>s'. client_turn k st (st + int n) s = Inr (if stays p then st + int (Suc n) else st + int n, s') \<and>
    room_ok st s' \<and> kStop s' = kStop s \<and> take (nat st) (kFDS s') = take (nat st) (kFDS s) \<and>
    members st s' = (if stays p then members st s else swap_remove n (members st s)) \<and>
    kTrace s' = kTrace s @ (if \<not> stays p then [Close (pfd_fd p)]
                            else if speaks p then relay k (kTrace s) (pfd_fd p) (members st s) else [])"
proof -
  have at: "fds_at (st + int n) s = Inr p" using member_fds_at [OF assms(1,3)] by (simp add: p_def)
  have v: "valid_fd (pfd_fd p)" using member_valid [OF assms(1)] assms(3) by (simp add: p_def)
  have st: "0 \<le> st" using assms(1) by (simp add: room_ok_def)
  show ?thesis
  proof (cases "stays p")
    case True
    then show ?thesis
      using at assms(1) read_client_members [OF assms(1,2) v]
      by (auto simp: client_turn_def stays_def speaks_def map_res_eq_simps member_simps algebra_simps)
  next
    case False
    obtain c where "remove_client st (st + int n) s = Inr (s\<lparr>kClient := (kClient s)(pfd_fd p := c),
        kFDS := (kFDS s)[nat (st + int n) := last (members st s)], kCntClient := kCntClient s - 1,
        kTrace := kTrace s @ [Close (pfd_fd p)]\<rparr>)" (is "_ = Inr ?t")
      using remove_client_members [OF assms(1,3) refl] by (auto simp: p_def)
    moreover have "room_ok st ?t" by (rule room_ok_removed [OF assms(1,3)])
    moreover have "members st ?t = swap_remove n (members st s)"
      using members_removed [OF assms(1,3)] by (simp add: members_def)
    ultimately show ?thesis
      using False at st by (auto simp: client_turn_def stays_def)
  qed
qed

lemma client_loop_room_phase:
  assumes "room_ok st s" "recv_bounded k" "n \<le> length (members st s)"
  shows "\<exists>s'. client_loop k st (st + int n) s = Inr s' \<and> room_ok st s' \<and> kStop s' = kStop s \<and>
    take (nat st) (kFDS s') = take (nat st) (kFDS s) \<and>
    room_phase k n (members st s) (kTrace s) = (members st s', kTrace s')"
  using assms
proof (induction k n "members st s" "kTrace s" arbitrary: s rule: room_phase.induct)
  case (1 k n s)
  let ?p = "members st s ! n"
  show ?case
  proof (cases "n < length (members st s)")
    case False
    with "1.prems" have "\<not> st + int n < st + kCntClient s" using length_members [OF "1.prems"(1)] by simp
    with False "1.prems"(1) show ?thesis by (subst client_loop.simps, subst room_phase.simps) auto
  next
    case True
    then have lt: "st + int n < st + kCntClient s" using length_members [OF "1.prems"(1)] by simp
    obtain s' where s': "client_turn k st (st + int n) s = Inr (if stays ?p then st + int (Suc n) else st + int n, s')"
      "room_ok st s'" "kStop s' = kStop s" "take (nat st) (kFDS s') = take (nat st) (kFDS s)"
      "members st s' = (if stays ?p then members st s else swap_remove n (members st s))"
      "kTrace s' = kTrace s @ (if \<not> stays ?p then [Close (pfd_fd ?p)]
                               else if speaks ?p then relay k (kTrace s) (pfd_fd ?p) (members st s) else [])"
      using client_turn_members [OF "1.prems"(1,2) True] by blast
    have step: "client_loop k st (st + int n) s =
        client_loop k st (if stays ?p then st + int (Suc n) else st + int n) s'"
      using lt s'(1) by (subst client_loop.simps) simp
    show ?thesis
    proof (cases "stays ?p")
      case stay: True
      have tr: "(if speaks ?p then kTrace s @ relay k (kTrace s) (pfd_fd ?p) (members st s) else kTrace s) = kTrace s'"
        using s'(6) stay by simp
      show ?thesis
        using "1.hyps"(1) [OF True refl stay _ tr s'(2) "1.prems"(2)] True s' stay
        by (subst step, subst room_phase.simps) (auto simp: Let_def)
    next
      case leave: False
      show ?thesis
        using "1.hyps"(2) [OF True refl leave _ _ s'(2) "1.prems"(2)] True s' leave
        by (subst step, subst room_phase.simps) (auto simp: Let_def)
    qed
  qed
qed

section \<open>What the loop does to the members and the clients\<close>

definition is_close :: "syscall \<Rightarrow> bool" where
  "is_close c = (case c of Close _ \<Rightarrow> True | _ \<Rightarrow> False)"

lemma relay_calls:
  "filter is_close (relay k h fd ps) = []" "filter is_recv (relay k h fd ps) = [Recv fd 31]"
  by (auto simp: relay_def relay_to_def is_close_def is_recv_def filter_empty_conv)

lemma mset_relay_calls:
  "filter_mset is_close (mset (relay k h fd ps)) = {#}"
  "filter_mset is_recv (mset (relay k h fd ps)) = {#Recv fd 31#}"
  "c \<in> set (relay k h fd ps) \<Longrightarrow> \<not> is_close c"
proof -
  note [simp del] = mset_filter
  show "filter_mset is_close (mset (relay k h fd ps)) = {#}"
    "filter_mset is_recv (mset (relay k h fd ps)) = {#Recv fd 31#}"
    by (simp_all add: relay_calls mset_filter [symmetric])
  show "c \<in> set (relay k h fd ps) \<Longrightarrow> \<not> is_close c"
    using relay_calls(1) [of k h fd ps] by (auto simp: filter_empty_conv)
qed

lemma drop_swap_remove:
  assumes "n < length ps"
  shows "take n (swap_remove n ps) = take n ps"
    "add_mset (ps ! n) (mset (drop n (swap_remove n ps))) = mset (drop n ps)"
proof -
  show t: "take n (swap_remove n ps) = take n ps"
    using assms by (auto simp: swap_remove_def butlast_conv_take min_def)
  have "mset (take n ps) + add_mset (ps ! n) (mset (drop n (swap_remove n ps))) =
      add_mset (ps ! n) (mset (take n (swap_remove n ps) @ drop n (swap_remove n ps)))"
    unfolding mset_append t by simp
  also have "\<dots> = mset (take n ps @ drop n ps)"
    unfolding append_take_drop_id by (rule mset_swap_remove [OF assms])
  finally show "add_mset (ps ! n) (mset (drop n (swap_remove n ps))) = mset (drop n ps)"
    unfolding mset_append by (rule add_left_imp_eq)
qed

lemma room_phase_effect:
  "n \<le> length ps \<Longrightarrow> room_phase k n ps h = (ps', h') \<Longrightarrow>
     mset ps' = mset (take n ps) + filter_mset stays (mset (drop n ps)) \<and>
     (\<exists>cs. h' = h @ cs \<and>
       mset (filter is_close cs) = {#Close (pfd_fd p). p \<in># filter_mset (\<lambda>p. \<not> stays p) (mset (drop n ps))#} \<and>
       mset (filter is_recv cs) = {#Recv (pfd_fd p) 31. p \<in># filter_mset speaks (mset (drop n ps))#})"
proof (induction k n ps h rule: room_phase.induct)
  case (1 k n ps h)
  let ?p = "ps ! n"
  show ?case
  proof (cases "n < length ps")
    case False
    with "1.prems" show ?thesis by (subst (asm) room_phase.simps) auto
  next
    case True
    then have d: "drop n ps = ?p # drop (Suc n) ps" by (simp add: Cons_nth_drop_Suc)
    have t: "take (Suc n) ps = take n ps @ [?p]" using True by (simp add: take_Suc_conv_app_nth)
    show ?thesis
    proof (cases "stays ?p")
      case stay: True
      let ?h = "if speaks ?p then h @ relay k h (pfd_fd ?p) ps else h"
      have r: "room_phase k (Suc n) ps ?h = (ps', h')"
        using "1.prems" True stay by (subst (asm) room_phase.simps) (simp add: Let_def)
      obtain cs where cs: "mset ps' = mset (take (Suc n) ps) + filter_mset stays (mset (drop (Suc n) ps))" "h' = ?h @ cs"
        "mset (filter is_close cs) = {#Close (pfd_fd p). p \<in># filter_mset (\<lambda>p. \<not> stays p) (mset (drop (Suc n) ps))#}"
        "mset (filter is_recv cs) = {#Recv (pfd_fd p) 31. p \<in># filter_mset speaks (mset (drop (Suc n) ps))#}"
        using "1.IH"(1) [OF True refl stay _ r] True by (auto simp: Suc_le_eq)
      show ?thesis
        using cs stay unfolding d t
        by (intro conjI exI [of _ "(if speaks ?p then relay k h (pfd_fd ?p) ps else []) @ cs"])
           (auto simp: mset_relay_calls)
    next
      case leave: False
      note sw = drop_swap_remove [OF True]
      have r: "room_phase k n (swap_remove n ps) (h @ [Close (pfd_fd ?p)]) = (ps', h')"
        using "1.prems" True leave by (subst (asm) room_phase.simps) (simp add: Let_def)
      obtain cs where cs: "mset ps' = mset (take n ps) + filter_mset stays (mset (drop n (swap_remove n ps)))"
        "h' = (h @ [Close (pfd_fd ?p)]) @ cs"
        "mset (filter is_close cs) = {#Close (pfd_fd p). p \<in># filter_mset (\<lambda>p. \<not> stays p) (mset (drop n (swap_remove n ps)))#}"
        "mset (filter is_recv cs) = {#Recv (pfd_fd p) 31. p \<in># filter_mset speaks (mset (drop n (swap_remove n ps)))#}"
        using "1.IH"(2) [OF True refl leave _ r, unfolded sw(1) length_swap_remove] True by fastforce
      have "\<not> speaks ?p" using leave by (auto simp: speaks_def stays_def)
      with cs leave show ?thesis unfolding sw(2) [symmetric]
        by (intro conjI exI [of _ "Close (pfd_fd ?p) # cs"]) (auto simp: is_close_def)
    qed
  qed
qed

end
