(* ===== verification/ChatRounds.thy ===== *)
theory ChatRounds
  imports ChatPhase
begin

text \<open>What polling, accepting, the signal pipe and a whole round keep, in both plain chats.\<close>

section \<open>Polling\<close>

text \<open>The members with the \<open>revents\<close> that a poll answered.\<close>

definition polled :: "int \<Rightarrow> (nat \<Rightarrow> 16 word) \<Rightarrow> pollfd list \<Rightarrow> pollfd list" where
  "polled st revents ps = map (\<lambda>i. (ps ! i)\<lparr>pfd_revents := revents (nat st + i)\<rparr>) [0..<length ps]"

lemma polled_fds [simp]: "map pfd_fd (polled st r ps) = map pfd_fd ps" "length (polled st r ps) = length ps"
  by (auto simp: polled_def intro: nth_equalityI)

lemma poll_fds_members:
  assumes "room_ok st s"
  obtains t err r where "poll_fds k (st + kCntClient s) s = Inr (err, t)"
    "k_poll k (kTrace s) (map (\<lambda>p. (pfd_fd p, pfd_events p)) (take (nat (st + kCntClient s)) (kFDS s))) = (err, r)"
    "room_ok st t" "members st t = polled st r (members st s)" "kStop t = kStop s" "kCntClient t = kCntClient s"
    "kTrace t = kTrace s @ [Poll (map pfd_fd (take (nat (st + kCntClient s)) (kFDS s)))]"
    "take (nat st) (kFDS t) = map (\<lambda>i. (kFDS s ! i)\<lparr>pfd_revents := r i\<rparr>) [0..<nat st]"
    "kClient t = kClient s" "length (kFDS t) = length (kFDS s)"
proof -
  let ?n = "st + kCntClient s"
  let ?q = "k_poll k (kTrace s) (map (\<lambda>p. (pfd_fd p, pfd_events p)) (take (nat ?n) (kFDS s)))"
  obtain err r where q: "?q = (err, r)" by (cases ?q)
  have n: "0 \<le> ?n" "nat ?n \<le> length (kFDS s)" "nat ?n = nat st + nat (kCntClient s)"
    using assms room_ok_room [OF assms] by (auto simp: room_ok_def nat_add_distrib)
  define fds where "fds = map (\<lambda>i. (kFDS s ! i)\<lparr>pfd_revents := r i\<rparr>) [0..<nat ?n] @ drop (nat ?n) (kFDS s)"
  define t where "t = call (Poll (map pfd_fd (take (nat ?n) (kFDS s)))) (s\<lparr>kFDS := fds\<rparr>)"
  have len: "length fds = length (kFDS s)" using n(2) by (simp add: fds_def)
  have m: "members st t = polled st r (members st s)"
    using n length_members [OF assms]
    by (intro nth_equalityI) (auto simp: members_def t_def fds_def polled_def nth_append)
  have "poll_fds k ?n s = Inr (err, t)" using n q by (simp add: poll_fds_def Let_def t_def fds_def)
  moreover have "\<forall>p \<in> set (members st t). valid_fd (pfd_fd p)"
  proof -
    have "pfd_fd ` set (members st t) = pfd_fd ` set (members st s)"
      unfolding m by (metis list.set_map polled_fds(1))
    with assms show ?thesis by (metis (no_types, lifting) image_iff room_ok_def)
  qed
  then have "room_ok st t" using assms len by (simp add: room_ok_def t_def)
  moreover have "take (nat st) (kFDS t) = map (\<lambda>i. (kFDS s ! i)\<lparr>pfd_revents := r i\<rparr>) [0..<nat st]"
    using n by (simp add: t_def fds_def take_map)
  ultimately show thesis using that q m len by (simp add: t_def)
qed

section \<open>Accepting\<close>

text \<open>A client that joins takes the place behind the last member.\<close>

lemma members_added:
  assumes "room_ok st s" "kCntClient s < kMaxnClient" "kFDS t = (kFDS s)[nat (st + kCntClient s) := q]"
    "kCntClient t = kCntClient s + 1"
  shows "members st t = members st s @ [q]"
proof -
  let ?i = "nat st + nat (kCntClient s)"
  have i: "nat (st + kCntClient s) = ?i" "?i < length (kFDS s)" "nat (kCntClient t) = Suc (nat (kCntClient s))"
    using assms by (auto simp: room_ok_def nat_add_distrib)
  have "members st t = take (Suc (nat (kCntClient s))) (drop (nat st) ((kFDS s)[?i := q]))"
    using assms(3) i by (simp add: members_def)
  also have "\<dots> = take (nat (kCntClient s)) (drop (nat st) ((kFDS s)[?i := q])) @ [q]"
    using i(2) by (subst take_Suc_conv_app_nth) auto
  also have "take (nat (kCntClient s)) (drop (nat st) ((kFDS s)[?i := q])) = members st s"
    by (simp add: members_def drop_update_swap)
  finally show ?thesis .
qed

definition new_pollfd :: "fd \<Rightarrow> pollfd" where
  "new_pollfd fd = \<lparr>pfd_fd = fd, pfd_events = client_events, pfd_revents = 0\<rparr>"

lemma room_ok_added:
  assumes "room_ok st s" "kCntClient s < kMaxnClient" "valid_fd fd"
    "kFDS t = (kFDS s)[nat (st + kCntClient s) := new_pollfd fd]" "kCntClient t = kCntClient s + 1"
  shows "room_ok st t"
  using members_added [OF assms(1,2,4,5)] assms by (auto simp: room_ok_def new_pollfd_def)

text \<open>The three answers: no connection, a full room, a new member.\<close>

lemma accept_client_cases:
  assumes "room_ok st s" "accept_valid k"
  obtains (none) e where "k_accept k (kTrace s) l = AcceptErr e" "accept_client k st l s = Inr (call (Accept l) s)"
  | (full) p a where "k_accept k (kTrace s) l = Accepted p a" "kMaxnClient \<le> kCntClient s"
      "accept_client k st l s = Inr (call (Close p) (call (Accept l) s))"
  | (above) p a where "k_accept k (kTrace s) l = Accepted p a" "kCntClient s < kMaxnClient" "kMaxnFD \<le> p"
      "accept_client k st l s = Inl AssertFail"
  | (joins) p a t where "k_accept k (kTrace s) l = Accepted p a" "kCntClient s < kMaxnClient" "valid_fd p"
      "accept_client k st l s = Inr t" "room_ok st t" "members st t = members st s @ [new_pollfd p]"
      "kTrace t = kTrace s @ [Accept l]" "kStop t = kStop s" "take (nat st) (kFDS t) = take (nat st) (kFDS s)"
proof (cases "k_accept k (kTrace s) l")
  case (AcceptErr e)
  then show thesis by (intro none) (simp_all add: accept_client_def Let_def)
next
  case (Accepted p a)
  have "0 \<le> p" using assms(2) Accepted by (auto simp: accept_valid_def)
  consider "kMaxnClient \<le> kCntClient s" | "kCntClient s < kMaxnClient" "kMaxnFD \<le> p"
    | "kCntClient s < kMaxnClient" "p < kMaxnFD" by linarith
  then show thesis
  proof cases
    case 1
    with Accepted show thesis by (intro full) (simp_all add: accept_client_def Let_def)
  next
    case 2
    with Accepted show thesis by (intro above) (simp_all add: accept_client_def Let_def)
  next
    case 3
    let ?s = "call (Accept l) s"
    let ?t = "?s\<lparr>kClient := (kClient s)(p := (kClient s p)\<lparr>client_sockaddr := a, buf_to_write := None\<rparr>),
      kCntClient := kCntClient s + 1, kFDS := (kFDS s)[nat (st + kCntClient s) := new_pollfd p]\<rparr>"
    have i: "0 \<le> st + kCntClient s" "st + kCntClient s < int (length (kFDS s))"
      using assms(1) 3 by (auto simp: room_ok_def)
    have v: "valid_fd p" using 3 \<open>0 \<le> p\<close> by (simp add: valid_fd_def)
    have "accept_client k st l s = Inr ?t"
      using Accepted 3 i v
      by (simp add: accept_client_def Let_def member_client_at member_set_client set_fds_def new_pollfd_def)
    moreover have "room_ok st ?t" by (rule room_ok_added [OF assms(1) 3(1) v]) simp_all
    moreover have "members st ?t = members st s @ [new_pollfd p]"
      by (rule members_added [OF assms(1) 3(1)]) simp_all
    moreover have "take (nat st) (kFDS ?t) = take (nat st) (kFDS s)"
      using assms(1) by (simp add: room_ok_def take_update_cancel nat_mono)
    ultimately show thesis using joins [OF Accepted 3(1) v, of ?t] by simp
  qed
qed

text \<open>A room grows by at most one member, and the set-up slots stay as they are.\<close>

definition grown :: "int \<Rightarrow> room \<Rightarrow> room \<Rightarrow> bool" where
  "grown st s t \<longleftrightarrow> room_ok st t \<and> kStop t = kStop s \<and> take (nat st) (kFDS t) = take (nat st) (kFDS s) \<and>
     (members st t = members st s \<or> (\<exists>p. members st t = members st s @ [new_pollfd p]))"

lemma accept_phase_grown:
  assumes "room_ok st s" "accept_valid k" "0 < st"
  shows "accept_phase k st l s = Inl AssertFail \<or> (\<exists>t. accept_phase k st l s = Inr t \<and> grown st s t)"
proof -
  have at: "fds_at 0 s = Inr (kFDS s ! 0)"
    using assms(1,3) by (simp add: fds_at_def room_ok_def kMaxnClient_def)
  show ?thesis
  proof (cases "revents_has (kFDS s ! 0) POLLIN")
    case False
    with at assms(1) show ?thesis by (simp add: accept_phase_def grown_def)
  next
    case True
    then have "accept_phase k st l s = accept_client k st l s" using at by (simp add: accept_phase_def)
    with assms(1) show ?thesis
      by (cases rule: accept_client_cases [OF assms(1,2), of l]) (auto simp: grown_def member_simps)
  qed
qed

section \<open>The signal pipe\<close>

lemma fold_sio_signal:
  "fold sio_signal sigs s = s\<lparr>kStop := kStop s \<or> (\<exists>c \<in> set sigs. of_char c = SIGTERM)\<rparr>"
proof (induction sigs arbitrary: s)
  case (Cons c sigs)
  show ?case unfolding fold_simps comp_apply Cons.IH by (simp add: sio_signal_def)
qed simp

definition SIGTERM_pending :: "kernel \<Rightarrow> room \<Rightarrow> bool" where
  "SIGTERM_pending k s \<longleftrightarrow> revents_has (kFDS s ! 1) POLLIN \<and>
     (case k_recv k (kTrace s) (pfd_fd (kFDS s ! 1)) 1025 of
        RecvErr e \<Rightarrow> False | RecvData sigs \<Rightarrow> \<exists>c \<in> set sigs. of_char c = SIGTERM)"

lemma sio_signals_effect:
  assumes "room_ok kStIdxClient s" "recv_bounded k"
  shows "\<exists>h. sio_signals k s = Inr (s\<lparr>kTrace := kTrace s @ h, kStop := kStop s \<or> SIGTERM_pending k s\<rparr>) \<and>
    (h = [] \<or> h = [Recv (pfd_fd (kFDS s ! 1)) 1025])"
proof -
  let ?fd = "pfd_fd (kFDS s ! 1)"
  have at: "fds_at 1 s = Inr (kFDS s ! 1)"
    using assms(1) by (simp add: fds_at_def room_ok_def kMaxnClient_def kStIdxClient_def)
  show ?thesis
  proof (cases "revents_has (kFDS s ! 1) POLLIN")
    case False
    with at show ?thesis by (intro exI [of _ "[]"]) (simp add: sio_signals_def SIGTERM_pending_def)
  next
    case True
    show ?thesis
    proof (cases "k_recv k (kTrace s) ?fd 1025")
      case (RecvErr e)
      with at True show ?thesis
        by (intro exI [of _ "[Recv ?fd 1025]"])
           (simp add: sio_signals_def SIGTERM_pending_def Let_def call_def)
    next
      case (RecvData sigs)
      then have "length sigs \<le> 1025" using assms(2) by (auto simp: recv_bounded_def)
      with at True RecvData have "sio_signals k s = Inr (fold sio_signal sigs (call (Recv ?fd 1025) s))"
        by (simp add: sio_signals_def Let_def)
      moreover have "SIGTERM_pending k s \<longleftrightarrow> (\<exists>c \<in> set sigs. of_char c = SIGTERM)"
        by (simp only: SIGTERM_pending_def True RecvData recv_ret.case simp_thms)
      ultimately show ?thesis unfolding fold_sio_signal
        by (intro exI [of _ "[Recv ?fd 1025]"]) (simp add: call_def)
    qed
  qed
qed

end
