(* ===== verification/ChatProtocol.thy ===== *)
theory ChatProtocol
  imports ChatRounds
begin

text \<open>
  The abstract specification of the plain chats: a transition system whose state is the list of
  the members' descriptors and the calls made so far. Every round and every run of the code is a
  path of it, so its invariants, proved by induction over the steps, hold for the code.
\<close>

section \<open>The protocol\<close>

text \<open>What a member's turn to speak makes the server call.\<close>

definition said :: "kernel \<Rightarrow> trace \<Rightarrow> fd \<Rightarrow> fd list \<Rightarrow> trace" where
  "said k h p ms =
     Recv p 31 # (if client_says k h p = [] then []
                  else map (\<lambda>q. Send q (pad (client_says k h p))) (filter (\<lambda>q. q \<noteq> p) ms))"

text \<open>\<open>ctl\<close> are the control descriptors: the listening socket, and the signal pipe if there is one.\<close>

inductive room_step :: "kernel \<Rightarrow> fd list \<Rightarrow> fd list \<times> trace \<Rightarrow> fd list \<times> trace \<Rightarrow> bool"
  for k :: kernel and ctl :: "fd list" where
  waits: "room_step k ctl (ms, h) (ms, h @ [Poll (ctl @ ms)])"
| signalled: "1 < length ctl \<Longrightarrow> room_step k ctl (ms, h) (ms, h @ [Recv (ctl ! 1) 1025])"
| no_peer: "k_accept k h (hd ctl) = AcceptErr e \<Longrightarrow> room_step k ctl (ms, h) (ms, h @ [Accept (hd ctl)])"
| refuses: "k_accept k h (hd ctl) = Accepted p a \<Longrightarrow> kMaxnClient \<le> int (length ms) \<Longrightarrow>
    room_step k ctl (ms, h) (ms, h @ [Accept (hd ctl), Close p])"
| joins: "k_accept k h (hd ctl) = Accepted p a \<Longrightarrow> int (length ms) < kMaxnClient \<Longrightarrow> valid_fd p \<Longrightarrow>
    room_step k ctl (ms, h) (ms @ [p], h @ [Accept (hd ctl)])"
| leaves: "n < length ms \<Longrightarrow> room_step k ctl (ms, h) (swap_remove n ms, h @ [Close (ms ! n)])"
| says: "p \<in> set ms \<Longrightarrow> room_step k ctl (ms, h) (ms, h @ said k h p ms)"

abbreviation room_path :: "kernel \<Rightarrow> fd list \<Rightarrow> fd list \<times> trace \<Rightarrow> fd list \<times> trace \<Rightarrow> bool" where
  "room_path k ctl \<equiv> (room_step k ctl)\<^sup>*\<^sup>*"

section \<open>Invariants of the protocol\<close>

text \<open>A room never has more than two members.\<close>

lemma room_path_bound:
  "room_path k ctl (ms, h) (ms', h') \<Longrightarrow> int (length ms) \<le> kMaxnClient \<Longrightarrow> int (length ms') \<le> kMaxnClient"
proof (induction rule: rtranclp_induct2)
  case (step ms1 h1 ms2 h2)
  from step.hyps(2) step.IH [OF step.prems] show ?case by (cases rule: room_step.cases) auto
qed simp

text \<open>
  The calls are only polls of the control descriptors and at most two members, receives, accepts,
  closes, and messages of exactly the size of the buffer.
\<close>

definition chat_call :: "fd list \<Rightarrow> syscall \<Rightarrow> bool" where
  "chat_call ctl c = (case c of
      Poll fds \<Rightarrow> (\<exists>ms. fds = ctl @ ms \<and> int (length ms) \<le> kMaxnClient)
    | Send fd d \<Rightarrow> length d = kBufSizeRecv
    | Recv fd n \<Rightarrow> True | Accept fd \<Rightarrow> fd = hd ctl | Close fd \<Rightarrow> True | _ \<Rightarrow> False)"

lemma length_pad: "length d \<le> kBufSizeRecv \<Longrightarrow> length (pad d) = kBufSizeRecv"
  by (simp add: pad_def)

lemma said_calls: "recv_bounded k \<Longrightarrow> c \<in> set (said k h p ms) \<Longrightarrow> chat_call ctl c"
  using client_says_bounded [of k h p] length_pad [of "client_says k h p"]
  by (auto simp: said_def chat_call_def kBufSizeRecv_def split: if_splits)

lemma room_path_calls:
  assumes "room_path k ctl (ms, h) (ms', h')" "int (length ms) \<le> kMaxnClient" "recv_bounded k"
  shows "\<exists>cs. h' = h @ cs \<and> list_all (chat_call ctl) cs"
  using assms(1,2)
proof (induction rule: rtranclp_induct2)
  case (step ms1 h1 ms2 h2)
  then obtain cs where cs: "h1 = h @ cs" "list_all (chat_call ctl) cs" by auto
  have bound: "int (length ms1) \<le> kMaxnClient" by (rule room_path_bound [OF step.hyps(1) step.prems])
  from step.hyps(2) have "\<exists>c. h2 = h1 @ c \<and> list_all (chat_call ctl) c"
    by (cases rule: room_step.cases)
       (use bound said_calls [OF assms(3)] in \<open>auto simp: chat_call_def list_all_iff\<close>)
  with cs show ?case by auto
qed simp

section \<open>The loop over the clients is a path\<close>

lemma map_swap_remove: "xs \<noteq> [] \<Longrightarrow> map f (swap_remove n xs) = swap_remove n (map f xs)"
  by (simp add: swap_remove_def map_butlast map_update last_map)

lemma relay_said: "relay k h p ps = said k h p (map pfd_fd ps)"
  by (simp add: relay_def said_def relay_to_def filter_map comp_def)

lemma room_phase_path:
  "n \<le> length ps \<Longrightarrow> room_phase k n ps h = (ps', h') \<Longrightarrow>
     room_path k ctl (map pfd_fd ps, h) (map pfd_fd ps', h')"
proof (induction k n ps h rule: room_phase.induct)
  case (1 k n ps h)
  let ?p = "ps ! n"
  have unf: "(if n < length ps then
        if stays ?p then room_phase k (Suc n) ps (if speaks ?p then h @ relay k h (pfd_fd ?p) ps else h)
        else room_phase k n (swap_remove n ps) (h @ [Close (pfd_fd ?p)])
      else (ps, h)) = (ps', h')"
    using "1.prems"(2) by (subst (asm) room_phase.simps) (simp only: Let_def)
  show ?case
  proof (cases "n < length ps")
    case False
    with unf show ?thesis by simp
  next
    case True
    then have p: "pfd_fd ?p \<in> set (map pfd_fd ps)" "ps \<noteq> []" by auto
    show ?thesis
    proof (cases "stays ?p")
      case stay: True
      let ?h = "if speaks ?p then h @ relay k h (pfd_fd ?p) ps else h"
      have "room_path k ctl (map pfd_fd ps, h) (map pfd_fd ps, ?h)"
        using says [OF p(1), of k ctl h] by (auto simp: relay_said)
      moreover have "room_phase k (Suc n) ps ?h = (ps', h')" using unf True stay by simp
      then have "room_path k ctl (map pfd_fd ps, ?h) (map pfd_fd ps', h')"
        using "1.IH"(1) [OF True refl stay] True by simp
      ultimately show ?thesis by (rule rtranclp_trans)
    next
      case leave: False
      have "room_step k ctl (map pfd_fd ps, h) (map pfd_fd (swap_remove n ps), h @ [Close (pfd_fd ?p)])"
        using leaves [of n "map pfd_fd ps" k ctl h] True p(2) by (simp add: map_swap_remove)
      moreover have "room_phase k n (swap_remove n ps) (h @ [Close (pfd_fd ?p)]) = (ps', h')"
        using unf True leave by simp
      then have "room_path k ctl (map pfd_fd (swap_remove n ps), h @ [Close (pfd_fd ?p)]) (map pfd_fd ps', h')"
        using "1.IH"(2) [OF True refl leave] True by simp
      ultimately show ?thesis by (rule converse_rtranclp_into_rtranclp)
    qed
  qed
qed

end
