(* ===== verification/ChatRuns.thy ===== *)
theory ChatRuns
  imports ChatProtocol
begin

text \<open>Whole rounds and runs of the two plain chats are paths of the protocol.\<close>

section \<open>Rounds\<close>

text \<open>
  What holds between the rounds of a chat with the control descriptors \<open>ctl\<close>, whose set-up made
  the calls \<open>h0\<close>: the room is well formed and the run so far is a path of the protocol.
\<close>

abbreviation first_client :: "fd list \<Rightarrow> int" where "first_client ctl \<equiv> int (length ctl)"

definition chat_inv :: "kernel \<Rightarrow> fd list \<Rightarrow> trace \<Rightarrow> room \<Rightarrow> bool" where
  "chat_inv k ctl h0 s \<longleftrightarrow>
     room_ok (first_client ctl) s \<and> map pfd_fd (take (length ctl) (kFDS s)) = ctl \<and>
     room_path k ctl ([], h0) (map pfd_fd (members (first_client ctl) s), kTrace s)"

lemma chat_inv_step:
  assumes "chat_inv k ctl h0 s" "room_ok (first_client ctl) t"
    "map pfd_fd (take (length ctl) (kFDS t)) = map pfd_fd (take (length ctl) (kFDS s))"
    "room_path k ctl (map pfd_fd (members (first_client ctl) s), kTrace s)
       (map pfd_fd (members (first_client ctl) t), kTrace t)"
  shows "chat_inv k ctl h0 t"
  using assms unfolding chat_inv_def by (auto intro: rtranclp_trans)

lemma chat_inv_bound: "chat_inv k ctl h0 s \<Longrightarrow> 0 \<le> kCntClient s \<and> kCntClient s \<le> kMaxnClient"
  by (simp add: chat_inv_def room_ok_def)

lemma poll_inv:
  assumes "chat_inv k ctl h0 s"
  obtains t err where "poll_fds k (first_client ctl + kCntClient s) s = Inr (err, t)"
    "chat_inv k ctl h0 t" "kStop t = kStop s"
proof -
  let ?st = "first_client ctl"
  from assms have ok: "room_ok ?st s" and ctl: "map pfd_fd (take (length ctl) (kFDS s)) = ctl"
    by (simp_all add: chat_inv_def)
  show thesis
  proof (rule poll_fds_members [OF ok, of k])
    fix t err r
    assume t: "poll_fds k (?st + kCntClient s) s = Inr (err, t)" "room_ok ?st t" "kStop t = kStop s"
      "members ?st t = polled ?st r (members ?st s)"
      "kTrace t = kTrace s @ [Poll (map pfd_fd (take (nat (?st + kCntClient s)) (kFDS s)))]"
      "take (nat ?st) (kFDS t) = map (\<lambda>i. (kFDS s ! i)\<lparr>pfd_revents := r i\<rparr>) [0..<nat ?st]"
    have "nat (?st + kCntClient s) = length ctl + nat (kCntClient s)"
      using ok by (simp add: room_ok_def nat_add_distrib)
    then have "map pfd_fd (take (nat (?st + kCntClient s)) (kFDS s)) = ctl @ map pfd_fd (members ?st s)"
      by (simp add: take_add members_def ctl)
    then have "room_step k ctl (map pfd_fd (members ?st s), kTrace s) (map pfd_fd (members ?st t), kTrace t)"
      using waits [of k ctl "map pfd_fd (members ?st s)" "kTrace s"] t(4,5) by simp
    moreover have "map pfd_fd (take (length ctl) (kFDS t)) = map pfd_fd (take (length ctl) (kFDS s))"
      using t(6) room_ok_room [OF ok] by (auto intro!: nth_equalityI)
    ultimately have "chat_inv k ctl h0 t"
      using t(2) by (intro chat_inv_step [OF assms]) auto
    with t show thesis using that by blast
  qed
qed

lemma accept_inv:
  assumes "chat_inv k ctl h0 s" "accept_valid k" "ctl \<noteq> []"
  shows "accept_phase k (first_client ctl) (hd ctl) s = Inl AssertFail \<or>
    (\<exists>t. accept_phase k (first_client ctl) (hd ctl) s = Inr t \<and> chat_inv k ctl h0 t \<and> kStop t = kStop s)"
proof -
  let ?st = "first_client ctl"
  from assms have ok: "room_ok ?st s" by (simp add: chat_inv_def)
  have at: "fds_at 0 s = Inr (kFDS s ! 0)"
    using ok assms(3) by (simp add: fds_at_def room_ok_def kMaxnClient_def)
  show ?thesis
  proof (cases "revents_has (kFDS s ! 0) POLLIN")
    case False
    with at assms show ?thesis by (simp add: accept_phase_def)
  next
    case True
    then have eq: "accept_phase k ?st (hd ctl) s = accept_client k ?st (hd ctl) s"
      using at by (simp add: accept_phase_def)
    have len: "int (length (map pfd_fd (members ?st s))) = kCntClient s"
      using length_members [OF ok] ok by (simp add: room_ok_def)
    show ?thesis
    proof (rule accept_client_cases [OF ok assms(2), of "hd ctl"], goal_cases none full above joins)
      case (none e)
      have "chat_inv k ctl h0 (call (Accept (hd ctl)) s)"
        by (rule chat_inv_step [OF assms(1)])
           (use ok no_peer [OF none(1), of "map pfd_fd (members ?st s)"] in \<open>auto simp: member_simps\<close>)
      with none eq show ?thesis by simp
    next
      case (full p a)
      have "chat_inv k ctl h0 (call (Close p) (call (Accept (hd ctl)) s))"
        by (rule chat_inv_step [OF assms(1)])
           (use ok len full refuses [OF full(1), of "map pfd_fd (members ?st s)"] in \<open>auto simp: member_simps\<close>)
      with full eq show ?thesis by simp
    next
      case (above p a)
      with eq show ?thesis by simp
    next
      case (joins p a t)
      have "chat_inv k ctl h0 t"
        by (rule chat_inv_step [OF assms(1)])
           (use joins ok len room_step.joins [OF joins(1), of "map pfd_fd (members ?st s)"]
            in \<open>auto simp: new_pollfd_def\<close>)
      with joins eq show ?thesis by simp
    qed
  qed
qed

lemma clients_inv:
  assumes "chat_inv k ctl h0 s" "recv_bounded k"
  obtains t where "client_loop k (first_client ctl) (first_client ctl) s = Inr t"
    "chat_inv k ctl h0 t" "kStop t = kStop s"
proof -
  let ?st = "first_client ctl"
  from assms have ok: "room_ok ?st s" by (simp add: chat_inv_def)
  obtain t where t: "client_loop k ?st ?st s = Inr t" "room_ok ?st t" "kStop t = kStop s"
    "take (nat ?st) (kFDS t) = take (nat ?st) (kFDS s)"
    "room_phase k 0 (members ?st s) (kTrace s) = (members ?st t, kTrace t)"
    using client_loop_room_phase [OF ok assms(2), of 0] by auto
  have "chat_inv k ctl h0 t"
    by (rule chat_inv_step [OF assms(1) t(2)]) (use t(4) room_phase_path [OF _ t(5)] in auto)
  with t show thesis using that by blast
qed

lemma signals_inv:
  assumes "chat_inv k ctl h0 s" "recv_bounded k" "length ctl = 2"
  obtains t where "sio_signals k s = Inr t" "chat_inv k ctl h0 t"
    "kStop t \<longleftrightarrow> kStop s \<or> SIGTERM_pending k s"
proof -
  let ?st = "first_client ctl"
  from assms have ok: "room_ok ?st s" by (simp add: chat_inv_def)
  then have ok2: "room_ok kStIdxClient s" using assms(3) by (simp add: kStIdxClient_def)
  have "ctl ! 1 = map pfd_fd (take (length ctl) (kFDS s)) ! 1" using assms(1) by (simp add: chat_inv_def)
  also have "\<dots> = pfd_fd (kFDS s ! 1)" using assms(3) room_ok_room [OF ok] by simp
  finally have fd: "pfd_fd (kFDS s ! 1) = ctl ! 1" by simp
  obtain h where h: "sio_signals k s = Inr (s\<lparr>kTrace := kTrace s @ h, kStop := kStop s \<or> SIGTERM_pending k s\<rparr>)"
    "h = [] \<or> h = [Recv (ctl ! 1) 1025]"
    using sio_signals_effect [OF ok2 assms(2)] unfolding fd by blast
  have "chat_inv k ctl h0 (s\<lparr>kTrace := kTrace s @ h, kStop := kStop s \<or> SIGTERM_pending k s\<rparr>)"
    by (rule chat_inv_step [OF assms(1)])
       (use h(2) ok assms(3) signalled [of ctl k "map pfd_fd (members ?st s)" "kTrace s"]
        in \<open>auto simp: member_simps\<close>)
  with h(1) show thesis using that by simp
qed

lemma group_round_inv:
  assumes "chat_inv k [l] h0 s" "accept_valid k" "recv_bounded k"
  shows "group_round k l s = Inl AssertFail \<or> (\<exists>b t. group_round k l s = Inr (b, t) \<and> chat_inv k [l] h0 t)"
proof -
  have st: "first_client [l] = 1" by simp
  obtain t err where t: "poll_fds k (1 + kCntClient s) s = Inr (err, t)" "chat_inv k [l] h0 t"
    using poll_inv [OF assms(1)] unfolding st by metis
  show ?thesis
  proof (cases err)
    case (Some e)
    with t have "group_round k l s = Inr (True, t)" by (simp add: group_round_def)
    with t show ?thesis by blast
  next
    case None
    consider "accept_phase k 1 l t = Inl AssertFail" | u where "accept_phase k 1 l t = Inr u" "chat_inv k [l] h0 u"
      using accept_inv [OF t(2) assms(2)] by auto
    then show ?thesis
    proof cases
      case 1
      with t None show ?thesis by (simp add: group_round_def)
    next
      case 2
      then obtain v where "client_loop k 1 1 u = Inr v" "chat_inv k [l] h0 v"
        using clients_inv [OF 2(2) assms(3)] unfolding st by metis
      with t 2 None have "group_round k l s = Inr (False, v) \<and> chat_inv k [l] h0 v"
        by (simp add: group_round_def group_clients_def)
      then show ?thesis by blast
    qed
  qed
qed

lemma sio_round_inv:
  assumes "chat_inv k [l, r] h0 s" "accept_valid k" "recv_bounded k"
  shows "sio_round k l s = Inl AssertFail \<or> (\<exists>b t. sio_round k l s = Inr (b, t) \<and> chat_inv k [l, r] h0 t \<and>
    (\<forall>err p. poll_fds k (kStIdxClient + kCntClient s) s = Inr (err, p) \<and> (err = None \<or> err = Some EINTR) \<and>
       SIGTERM_pending k p \<longrightarrow> \<not> b \<and> kStop t))"
proof -
  let ?st = kStIdxClient
  have st: "first_client [l, r] = ?st" by (simp add: kStIdxClient_def)
  obtain p err where p: "poll_fds k (?st + kCntClient s) s = Inr (err, p)" "chat_inv k [l, r] h0 p"
    using poll_inv [OF assms(1)] unfolding st by metis
  show ?thesis
  proof (cases "err = None \<or> err = Some EINTR")
    case False
    with p show ?thesis by (auto simp: sio_round_def)
  next
    case True
    obtain t where t: "sio_signals k p = Inr t" "chat_inv k [l, r] h0 t" "kStop t \<longleftrightarrow> kStop p \<or> SIGTERM_pending k p"
      using signals_inv [OF p(2) assms(3)] by auto
    consider "accept_phase k ?st l t = Inl AssertFail"
      | u where "accept_phase k ?st l t = Inr u" "chat_inv k [l, r] h0 u" "kStop u = kStop t"
      using accept_inv [OF t(2) assms(2)] unfolding st by auto
    then show ?thesis
    proof cases
      case 2
      then obtain v where "client_loop k ?st ?st u = Inr v" "chat_inv k [l, r] h0 v" "kStop v = kStop u"
        using clients_inv [OF 2(2) assms(3)] unfolding st by metis
      with p t 2 True show ?thesis by (auto simp: sio_round_def sio_clients_def)
    qed (use p t True in \<open>auto simp: sio_round_def\<close>)
  qed
qed

section \<open>Loops\<close>

lemma deliver_inv: "chat_inv k ctl h0 s \<Longrightarrow> chat_inv k ctl h0 (deliver_SIGTERM k' s)"
  by (simp add: chat_inv_def deliver_SIGTERM_def HandleTERM_def member_simps)

lemma group_loop_inv:
  assumes "group_loop n k l s = Some r" "chat_inv k [l] h0 s" "accept_valid k" "recv_bounded k"
  shows "r = Inl AssertFail \<or> (\<exists>t. r = Inr t \<and> chat_inv k [l] h0 t)"
  using assms(1,2)
proof (induction n arbitrary: s)
  case 0
  with deliver_inv show ?case by (subst (asm) group_loop.simps) (auto simp: Let_def split: if_splits)
next
  case (Suc n)
  let ?s = "deliver_SIGTERM k s"
  have inv: "chat_inv k [l] h0 ?s" by (rule deliver_inv [OF Suc.prems(2)])
  note unf = Suc.prems(1) [unfolded group_loop.simps [of "Suc n"] Let_def nat.case]
  consider "group_round k l ?s = Inl AssertFail" | b t where "group_round k l ?s = Inr (b, t)" "chat_inv k [l] h0 t"
    using group_round_inv [OF inv assms(3,4)] by metis
  then show ?case
  proof cases
    case 1
    with unf inv show ?thesis by (auto split: if_splits)
  next
    case 2
    with unf inv Suc.IH [of t] show ?thesis by (auto split: if_splits)
  qed
qed

lemma sio_loop_inv:
  assumes "sio_loop n k l s = Some res" "chat_inv k [l, r] h0 s" "accept_valid k" "recv_bounded k"
  shows "res = Inl AssertFail \<or> (\<exists>t. res = Inr t \<and> chat_inv k [l, r] h0 t)"
  using assms(1,2)
proof (induction n arbitrary: s)
  case 0
  then show ?case by (subst (asm) sio_loop.simps) (auto split: if_splits)
next
  case (Suc n)
  note unf = Suc.prems(1) [unfolded sio_loop.simps [of "Suc n"] nat.case]
  consider "sio_round k l s = Inl AssertFail" | b t where "sio_round k l s = Inr (b, t)" "chat_inv k [l, r] h0 t"
    using sio_round_inv [OF Suc.prems(2) assms(3,4)] by metis
  then show ?case
  proof cases
    case 1
    with unf Suc.prems(2) show ?thesis by (auto split: if_splits)
  next
    case 2
    with unf Suc.prems(2) Suc.IH [of t] show ?thesis by (auto split: if_splits)
  qed
qed

lemma sio_loop_stop: "kStop s \<Longrightarrow> sio_loop n k l s = Some (Inr s)"
  by (subst sio_loop.simps) simp

section \<open>The set-up\<close>

lemma group_init_inv: "chat_inv k [l] h (group_init l h)"
  by (simp add: chat_inv_def room_ok_def members_def group_init_def kMaxnClient_def)

lemma sio_init_inv: "chat_inv k [l, fst sp] h (sio_init l sp h)"
  by (simp add: chat_inv_def room_ok_def members_def sio_init_def kMaxnClient_def)

lemma sio_setup_inv:
  assumes "sio_setup k addr = Inr (l, s)"
  shows "\<exists>r. chat_inv k [l, r] (kTrace s) s"
proof -
  from assms obtain sp h where "s = sio_init l sp h"
    by (auto simp: sio_setup_def split: sum.splits option.splits prod.splits)
  moreover have "kTrace (sio_init l sp h) = h" by (simp add: sio_init_def)
  ultimately show ?thesis using sio_init_inv [of k l sp h] by auto
qed

end
