(* ===== verification/ChatProps.thy ===== *)
theory ChatProps
  imports ChatRuns
begin

text \<open>The properties of the two plain chats, and the concrete rooms and kernels they are applied at.\<close>

section \<open>A concrete room and a concrete run\<close>

text \<open>Two clients: descriptor 7 has sent something, descriptor 8 has hung up.\<close>

definition demo_room :: room where
  "demo_room = (sio_init 3 (5, 6) [])\<lparr>kCntClient := 2,
     kFDS := [\<lparr>pfd_fd = 3, pfd_events = 9, pfd_revents = 0\<rparr>, \<lparr>pfd_fd = 5, pfd_events = 9, pfd_revents = 0\<rparr>,
              \<lparr>pfd_fd = 7, pfd_events = client_events, pfd_revents = POLLIN\<rparr>,
              \<lparr>pfd_fd = 8, pfd_events = client_events, pfd_revents = POLLRDHUP\<rparr>]\<rparr>"

lemma demo_room_ok: "room_ok kStIdxClient demo_room"
  by (simp add: room_ok_def members_def demo_room_def sio_init_def kStIdxClient_def kMaxnClient_def
      valid_fd_def kMaxnFD_def)

lemma demo_members:
  "members kStIdxClient demo_room =
     [\<lparr>pfd_fd = 7, pfd_events = client_events, pfd_revents = POLLIN\<rparr>,
      \<lparr>pfd_fd = 8, pfd_events = client_events, pfd_revents = POLLRDHUP\<rparr>]"
  by (simp add: members_def demo_room_def sio_init_def kStIdxClient_def)

text \<open>
  A kernel that plays a script of \<open>revents\<close>, one list per poll, and then fails; descriptors are
  accepted from 10 on, every client says hi, and the signal pipe (descriptor 5) delivers SIGTERM.
\<close>

definition count_polls :: "trace \<Rightarrow> nat" where
  "count_polls h = length (filter (\<lambda>c. case c of Poll _ \<Rightarrow> True | _ \<Rightarrow> False) h)"

definition count_accepts :: "trace \<Rightarrow> nat" where
  "count_accepts h = length (filter (\<lambda>c. case c of Accept _ \<Rightarrow> True | _ \<Rightarrow> False) h)"

definition chat_kernel :: "16 word list list \<Rightarrow> kernel" where
  "chat_kernel script = idle_kernel\<lparr>
     k_socket := (\<lambda>h. 3), k_bind := (\<lambda>h fd. 0), k_listen := (\<lambda>h fd. 0),
     k_socketpair := (\<lambda>h. Some (5, 6)),
     k_accept := (\<lambda>h fd. Accepted (10 + int (count_accepts h)) a_peer),
     k_recv := (\<lambda>h fd n. RecvData (take n (if fd = 5 then [char_of (15 :: nat)] else ''hi''))),
     k_poll := (\<lambda>h fds. let i = count_polls h in
       if i < length script then (None, \<lambda>j. if j < length (script ! i) then script ! i ! j else 0)
       else (Some EBADF, \<lambda>j. 0)),
     k_time := (\<lambda>h. 100 + int (count_polls h)), k_new := (\<lambda>h. 10 + length h)\<rparr>"

lemma chat_kernel_answers: "recv_bounded (chat_kernel sc)" "accept_valid (chat_kernel sc)"
  by (simp_all add: accept_valid_def chat_kernel_def recv_bounded_def)

text \<open>Two clients join, the first speaks, it leaves while the second speaks, and SIGTERM arrives.\<close>

definition demo_chat :: kernel where
  "demo_chat = chat_kernel [[POLLIN], [POLLIN], [0, 0, POLLIN], [0, 0, POLLRDHUP, POLLIN], [0, POLLIN]]"

definition demo_chat_plain :: kernel where
  "demo_chat_plain = chat_kernel [[POLLIN], [POLLIN], [0, POLLIN], [0, POLLRDHUP, POLLIN]]"

section \<open>Properties\<close>

text \<open>
  C30. The loop over the clients always ends without a fault. Whatever place-swapping and repeated
  indices it goes through, the members afterwards are exactly those that did not hang up or fail,
  each of the others is closed exactly once, and exactly the members with something to read are
  read from, once each.
\<close>

theorem client_phase_exact:
  assumes "room_ok st s" "recv_bounded k"
  shows "\<exists>s' cs. client_loop k st st s = Inr s' \<and> room_ok st s' \<and> kTrace s' = kTrace s @ cs \<and>
    mset (members st s') = filter_mset stays (mset (members st s)) \<and>
    mset (filter is_close cs) = {#Close (pfd_fd p). p \<in># filter_mset (\<lambda>p. \<not> stays p) (mset (members st s))#} \<and>
    mset (filter is_recv cs) = {#Recv (pfd_fd p) 31. p \<in># filter_mset speaks (mset (members st s))#}"
proof -
  obtain t where t: "client_loop k st st s = Inr t" "room_ok st t"
    "room_phase k 0 (members st s) (kTrace s) = (members st t, kTrace t)"
    using client_loop_room_phase [OF assms, of 0] by auto
  from room_phase_effect [OF _ t(3)] show ?thesis
    by (intro exI [of _ t]) (use t(1,2) in auto)
qed

lemma client_phase_exact_witness:
  "\<exists>s'. client_loop demo_chat kStIdxClient kStIdxClient demo_room = Inr s' \<and>
     mset (members kStIdxClient s') = {#\<lparr>pfd_fd = 7, pfd_events = client_events, pfd_revents = POLLIN\<rparr>#}"
  using client_phase_exact [OF demo_room_ok, of demo_chat] chat_kernel_answers(1)
  unfolding demo_members demo_chat_def by (fastforce simp: stays_def revents_has_def)

text \<open>
  C31. A message reaches everyone else: when the turn of a member comes that has sent something,
  the server reads it once and sends it, padded with NUL bytes to the 32 bytes of the buffer, to
  every other member in the order of the array, and not to its author; no one is removed.
\<close>

theorem message_reaches_others:
  assumes "room_ok st s" "recv_bounded k" "n < length (members st s)" "speaks (members st s ! n)"
    "pfd_fd (members st s ! n) = fd" "k_recv k (kTrace s) fd 31 = RecvData d" "d \<noteq> []"
  shows "\<exists>s'. client_turn k st (st + int n) s = Inr (st + int n + 1, s') \<and>
    members st s' = members st s \<and>
    kTrace s' = kTrace s @ Recv fd 31 #
      map (\<lambda>q. Send q (d @ replicate (32 - length d) NUL)) (filter (\<lambda>q. q \<noteq> fd) (map pfd_fd (members st s)))"
proof -
  have "stays (members st s ! n)" using assms(4) by (auto simp: speaks_def stays_def)
  with client_turn_members [OF assms(1-3)] assms(4-7) show ?thesis
    by (auto simp: relay_said said_def client_says_def pad_def kBufSizeRecv_def algebra_simps)
qed

lemma message_reaches_others_witness:
  "\<exists>s'. client_turn demo_chat 2 2 demo_room = Inr (3, s') \<and>
     kTrace s' = [Recv 7 31, Send 8 (''hi'' @ replicate 30 NUL)]"
proof -
  have st: "kStIdxClient = 2" by (simp add: kStIdxClient_def)
  have "k_recv demo_chat (kTrace demo_room) 7 31 = RecvData ''hi''" "kTrace demo_room = []"
    by (simp_all add: demo_chat_def chat_kernel_def demo_room_def sio_init_def)
  moreover have "recv_bounded demo_chat" using chat_kernel_answers(1) by (simp add: demo_chat_def)
  ultimately show ?thesis
    using message_reaches_others [OF demo_room_ok, of demo_chat 0 7 "''hi''"]
    unfolding st demo_members [unfolded st] by (auto simp: speaks_def revents_has_def)
qed

text \<open>
  C32. Every run of \<^verbatim>\<open>group_chat_service_sio\<close> refines the protocol: it exits in the set-up, or stops
  at the assertion that bounds descriptors, or ends with exit code 0 after a path of the protocol
  from the empty room, the close of the listening socket last. Every call of the run is one of the
  protocol's: at most two members are polled with the two control descriptors, and everything sent
  has the size of the buffer.
\<close>

theorem sio_main_protocol:
  assumes "sio_main fuel k addr = Some res" "recv_bounded k" "accept_valid k"
  shows "case sio_setup k addr of
      Inl h \<Rightarrow> res = Inr (1, h)
    | Inr (l, s) \<Rightarrow> res = Inl AssertFail \<or>
        (\<exists>r ms cs. res = Inr (0, kTrace s @ cs @ [Close l]) \<and>
           room_path k [l, r] ([], kTrace s) (ms, kTrace s @ cs) \<and> list_all (chat_call [l, r]) cs)"
proof (cases "sio_setup k addr")
  case (Inr ls)
  obtain l s where ls: "sio_setup k addr = Inr (l, s)" using Inr by (cases ls) auto
  obtain r where inv: "chat_inv k [l, r] (kTrace s) s" using sio_setup_inv [OF ls] by blast
  from assms(1) ls obtain r1 where r1: "sio_loop fuel k l s = Some r1"
    "res = map_res (\<lambda>s. (0, kTrace s @ [Close l])) r1" by (auto simp: sio_main_def)
  consider "r1 = Inl AssertFail" | t where "r1 = Inr t" "chat_inv k [l, r] (kTrace s) t"
    using sio_loop_inv [OF r1(1) inv assms(3,2)] by blast
  then show ?thesis
  proof cases
    case 2
    then have path: "room_path k [l, r] ([], kTrace s) (map pfd_fd (members 2 t), kTrace t)"
      by (simp add: chat_inv_def)
    obtain cs where "kTrace t = kTrace s @ cs" "list_all (chat_call [l, r]) cs"
      using room_path_calls [OF path _ assms(2)] by (auto simp: kMaxnClient_def)
    with path 2(1) r1(2) ls show ?thesis by auto
  qed (use r1(2) ls in simp)
qed (use assms(1) in \<open>simp add: sio_main_def\<close>)

lemma sio_main_protocol_witness:
  "\<exists>h ms r. sio_main 5 demo_chat a_peer = Some (Inr (0, h @ [Close 3])) \<and>
     room_path demo_chat [3, r] ([], take 6 h) (ms, h)"
proof -
  have "sio_main 5 demo_chat a_peer \<noteq> None" by code_simp
  then obtain res where res: "sio_main 5 demo_chat a_peer = Some res" by auto
  have "sio_main 5 demo_chat a_peer \<noteq> Some (Inl AssertFail)" by code_simp
  moreover obtain s where "sio_setup demo_chat a_peer = Inr (3, s)" "length (kTrace s) = 6"
    by (simp add: sio_setup_def CreateSocketAndListen_def AddSignal_def demo_chat_def chat_kernel_def
        idle_kernel_def sio_init_def Let_def)
  moreover have "recv_bounded demo_chat" "accept_valid demo_chat"
    using chat_kernel_answers by (simp_all add: demo_chat_def)
  ultimately show ?thesis using sio_main_protocol [OF res] res by fastforce
qed

text \<open>
  The same for \<^verbatim>\<open>group_chat_service\<close>, whose only control descriptor is the listening socket.
\<close>

theorem group_main_protocol:
  assumes "group_main fuel k addr = Some res" "recv_bounded k" "accept_valid k"
  shows "case CreateSocketAndListen k addr 2 [] of
      Inl h \<Rightarrow> res = Inr (1, h)
    | Inr (l, h) \<Rightarrow> res = Inl AssertFail \<or>
        (\<exists>ms cs. res = Inr (0, h @ cs @ [Close l]) \<and>
           room_path k [l] ([], h) (ms, h @ cs) \<and> list_all (chat_call [l]) cs)"
proof (cases "CreateSocketAndListen k addr 2 []")
  case (Inr lh)
  obtain l h where lh: "CreateSocketAndListen k addr 2 [] = Inr (l, h)" using Inr by (cases lh) auto
  from assms(1) lh obtain r1 where r1: "group_loop fuel k l (group_init l h) = Some r1"
    "res = map_res (\<lambda>s. (0, kTrace s @ [Close l])) r1" by (auto simp: group_main_def kMaxnClient_def)
  consider "r1 = Inl AssertFail" | t where "r1 = Inr t" "chat_inv k [l] h t"
    using group_loop_inv [OF r1(1) group_init_inv assms(3,2)] by blast
  then show ?thesis
  proof cases
    case 2
    then have path: "room_path k [l] ([], h) (map pfd_fd (members 1 t), kTrace t)"
      by (simp add: chat_inv_def)
    obtain cs where "kTrace t = h @ cs" "list_all (chat_call [l]) cs"
      using room_path_calls [OF path _ assms(2)] by (auto simp: kMaxnClient_def)
    with path 2(1) r1(2) lh show ?thesis by auto
  qed (use r1(2) lh in simp)
qed (use assms(1) in \<open>simp add: group_main_def kMaxnClient_def\<close>)

lemma group_main_protocol_witness:
  "\<exists>h ms. group_main 5 demo_chat_plain a_peer = Some (Inr (0, h @ [Close 3])) \<and>
     room_path demo_chat_plain [3] ([], take 3 h) (ms, h)"
proof -
  have "group_main 5 demo_chat_plain a_peer \<noteq> None" by code_simp
  then obtain res where res: "group_main 5 demo_chat_plain a_peer = Some res" by auto
  have "group_main 5 demo_chat_plain a_peer \<noteq> Some (Inl AssertFail)" by code_simp
  moreover obtain h where "CreateSocketAndListen demo_chat_plain a_peer 2 [] = Inr (3, h)" "length h = 3"
    by (simp add: CreateSocketAndListen_def demo_chat_plain_def chat_kernel_def idle_kernel_def Let_def)
  moreover have "recv_bounded demo_chat_plain" "accept_valid demo_chat_plain"
    using chat_kernel_answers by (simp_all add: demo_chat_plain_def)
  ultimately show ?thesis using group_main_protocol [OF res] res by fastforce
qed

text \<open>
  SIGTERM stops \<^verbatim>\<open>group_chat_service_sio\<close>: from every state of a run in which the poll (also one
  that the signal interrupted) reports the pipe readable and the pipe holds the byte of SIGTERM, the
  loop ends after this round, whatever else the round has to do.
\<close>

theorem sio_stops_on_SIGTERM:
  assumes "chat_inv k [l, r] h0 s" "accept_valid k" "recv_bounded k"
    "poll_fds k (kStIdxClient + kCntClient s) s = Inr (err, p)" "err = None \<or> err = Some EINTR"
    "revents_has (kFDS p ! 1) POLLIN" "k_recv k (kTrace p) (pfd_fd (kFDS p ! 1)) 1025 = RecvData sigs"
    "\<exists>c \<in> set sigs. of_char c = SIGTERM"
  shows "\<exists>res. sio_loop (Suc fuel) k l s = Some res \<and> (res = Inl AssertFail \<or> (\<exists>t. res = Inr t \<and> kStop t))"
proof -
  have pending: "SIGTERM_pending k p" using assms(6-8) by (simp only: SIGTERM_pending_def recv_ret.case simp_thms)
  have unf: "sio_loop (Suc fuel) k l s = (if kStop s then Some (Inr s)
      else (case sio_round k l s of Inl f \<Rightarrow> Some (Inl f)
            | Inr (brk, s) \<Rightarrow> if brk then Some (Inr s) else sio_loop fuel k l s))"
    by (subst sio_loop.simps) simp
  consider "sio_round k l s = Inl AssertFail" | t where "sio_round k l s = Inr (False, t)" "kStop t"
    using sio_round_inv [OF assms(1-3)] assms(4,5) pending by fastforce
  then show ?thesis
    by cases (auto simp: unf sio_loop_stop)
qed

lemma sio_stops_on_SIGTERM_witness:
  "\<exists>res. sio_loop 1 (chat_kernel [[0, POLLIN]]) 3 (sio_init 3 (5, 6) []) = Some res"
proof -
  let ?k = "chat_kernel [[0, POLLIN]]"
  have inv: "chat_inv ?k [3, 5] [] (sio_init 3 (5, 6) [])" using sio_init_inv [of ?k 3 "(5, 6)" "[]"] by simp
  obtain err p where p: "poll_fds ?k (kStIdxClient + kCntClient (sio_init 3 (5, 6) [])) (sio_init 3 (5, 6) []) = Inr (err, p)"
    "err = None" "revents_has (kFDS p ! 1) POLLIN" "pfd_fd (kFDS p ! 1) = 5"
  proof -
    have "case poll_fds ?k (kStIdxClient + kCntClient (sio_init 3 (5, 6) [])) (sio_init 3 (5, 6) []) of
        Inl f \<Rightarrow> False
      | Inr (err, p) \<Rightarrow> err = None \<and> revents_has (kFDS p ! 1) POLLIN \<and> pfd_fd (kFDS p ! 1) = 5"
      by code_simp
    then show thesis using that by (auto split: sum.splits)
  qed
  have "k_recv ?k (kTrace p) 5 1025 = RecvData [char_of (15 :: nat)]" by (simp add: chat_kernel_def)
  moreover have "of_char (char_of (15 :: nat) :: char) = (15 :: int)" by code_simp
  ultimately show ?thesis
    using sio_stops_on_SIGTERM [OF inv chat_kernel_answers(2,1) p(1) _ p(3), of "[char_of (15 :: nat)]" 0] p(2,4)
    by auto
qed

end
