(* ===== verification/TimerList.thy ===== *)
theory TimerList
  imports Posix
begin

text \<open>
  \<^verbatim>\<open>examples/framework-intro/client_timer_list.h\<close>: the doubly linked list of client timers, sorted by
  expiry. The nodes live in an explicit heap, so that aliasing and freed nodes are visible; a
  loop over a cyclic list does not end, which is the value \<open>None\<close>.
\<close>

type_synonym addr = nat

record timer =
  tm_prev :: "addr option"
  tm_next :: "addr option"
  tm_client :: fd          \<comment> \<open>\<open>client_data_\<close>: which element of the array of clients\<close>
  tm_expire :: int

type_synonym heap = "addr \<Rightarrow> timer option"

record timer_list =
  tl_head :: "addr option"
  tl_tail :: "addr option"
  tl_heap :: heap

definition ClientTimer_new :: "fd \<Rightarrow> int \<Rightarrow> timer" where
  "ClientTimer_new client t = \<lparr>tm_prev = None, tm_next = None, tm_client = client, tm_expire = t\<rparr>"

definition TimerSortedList_new :: "heap \<Rightarrow> timer_list" where
  "TimerSortedList_new h = \<lparr>tl_head = None, tl_tail = None, tl_heap = h\<rparr>"

section \<open>Writing a field of a node\<close>

definition set_next :: "addr \<Rightarrow> addr option \<Rightarrow> timer_list \<Rightarrow> timer_list res" where
  "set_next a v s =
     (case tl_heap s a of
        None \<Rightarrow> Inl DanglingPtr
      | Some n \<Rightarrow> Inr (s\<lparr>tl_heap := (tl_heap s)(a \<mapsto> n\<lparr>tm_next := v\<rparr>)\<rparr>))"

definition set_prev :: "addr \<Rightarrow> addr option \<Rightarrow> timer_list \<Rightarrow> timer_list res" where
  "set_prev a v s =
     (case tl_heap s a of
        None \<Rightarrow> Inl DanglingPtr
      | Some n \<Rightarrow> Inr (s\<lparr>tl_heap := (tl_heap s)(a \<mapsto> n\<lparr>tm_prev := v\<rparr>)\<rparr>))"

definition free_timer :: "addr \<Rightarrow> timer_list \<Rightarrow> timer_list" where
  "free_timer a s = s\<lparr>tl_heap := (tl_heap s)(a := None)\<rparr>"

section \<open>AddTimer\<close>

text \<open>The while loop: the first node that does not expire before \<open>t\<close>, and the one before it.\<close>

partial_function (option) find_place ::
  "heap \<Rightarrow> int \<Rightarrow> addr option \<times> addr option \<Rightarrow> (addr option \<times> addr option) res option" where
  "find_place h t st =
     (case snd st of
        None \<Rightarrow> Some (Inr st)
      | Some c \<Rightarrow>
          (case h c of
             None \<Rightarrow> Some (Inl DanglingPtr)
           | Some n \<Rightarrow>
               if tm_expire n < t then find_place h t (Some c, tm_next n) else Some (Inr st)))"

text \<open>Linking the new node between \<open>prev\<close> and \<open>cur\<close>, or behind the last node.\<close>

definition link_timer :: "addr \<Rightarrow> addr option \<Rightarrow> addr option \<Rightarrow> timer_list \<Rightarrow> timer_list res" where
  "link_timer new_timer prev cur s =
     (case cur of
        Some c \<Rightarrow>
          rbind (case prev of
                   Some p \<Rightarrow> set_next p (Some new_timer) s
                 | None \<Rightarrow> Inr (s\<lparr>tl_head := Some new_timer\<rparr>)) (\<lambda>s.
          rbind (set_prev new_timer prev s) (\<lambda>s.
          rbind (set_next new_timer cur s) (\<lambda>s.
          set_prev c (Some new_timer) s)))
      | None \<Rightarrow>
          (case prev of
             None \<Rightarrow> Inl AssertFail
           | Some p \<Rightarrow>
               rbind (set_next p (Some new_timer) s) (\<lambda>s.
               rbind (set_prev new_timer prev s) (\<lambda>s.
               set_next new_timer cur s))))"

definition AddTimer :: "addr \<Rightarrow> timer_list \<Rightarrow> timer_list res option" where
  "AddTimer new_timer s =
     (case tl_head s of
        None \<Rightarrow> Some (Inr (s\<lparr>tl_head := Some new_timer, tl_tail := Some new_timer\<rparr>))
      | Some hd1 \<Rightarrow>
          (case (tl_heap s hd1, tl_heap s new_timer) of
             (Some n, Some new) \<Rightarrow>
               map_option (\<lambda>r. rbind r (\<lambda>(prev, cur). link_timer new_timer prev cur s))
                 (find_place (tl_heap s) (tm_expire new) (tm_prev n, Some hd1))
           | _ \<Rightarrow> Some (Inl DanglingPtr)))"

section \<open>SoftDelTimer, DelTimer, ChgTimer\<close>

partial_function (option) find_timer :: "heap \<Rightarrow> addr \<Rightarrow> addr option \<Rightarrow> addr option res option" where
  "find_timer h del_timer cur =
     (case cur of
        None \<Rightarrow> Some (Inr None)
      | Some c \<Rightarrow>
          if c = del_timer then Some (Inr (Some c))
          else (case h c of
                  None \<Rightarrow> Some (Inl DanglingPtr)
                | Some n \<Rightarrow> find_timer h del_timer (tm_next n)))"

definition unlink_timer :: "addr \<Rightarrow> timer_list \<Rightarrow> timer_list res" where
  "unlink_timer c s =
     (case tl_heap s c of
        None \<Rightarrow> Inl DanglingPtr
      | Some n \<Rightarrow>
          rbind (case tm_prev n of
                   Some p \<Rightarrow> set_next p (tm_next n) s
                 | None \<Rightarrow> Inr (s\<lparr>tl_head := tm_next n\<rparr>)) (\<lambda>s.
          case tm_next n of
            Some x \<Rightarrow> set_prev x (tm_prev n) s
          | None \<Rightarrow> Inr (s\<lparr>tl_tail := tm_prev n\<rparr>)))"

definition SoftDelTimer :: "addr \<Rightarrow> timer_list \<Rightarrow> (bool \<times> timer_list) res option" where
  "SoftDelTimer del_timer s =
     map_option (\<lambda>r. rbind r (\<lambda>cur. case cur of
         None \<Rightarrow> Inr (False, s)
       | Some c \<Rightarrow> map_res (Pair True) (unlink_timer c s)))
     (find_timer (tl_heap s) del_timer (tl_head s))"

definition DelTimer :: "addr \<Rightarrow> timer_list \<Rightarrow> timer_list res option" where
  "DelTimer del_timer s =
     map_option (map_res (\<lambda>(found, s). if found then free_timer del_timer s else s))
       (SoftDelTimer del_timer s)"

definition ChgTimer :: "addr \<Rightarrow> int \<Rightarrow> timer_list \<Rightarrow> timer_list res option" where
  "ChgTimer old_timer t_reset s =
     (case SoftDelTimer old_timer s of
        None \<Rightarrow> None
      | Some (Inl f) \<Rightarrow> Some (Inl f)
      | Some (Inr (found, s)) \<Rightarrow>
          if found then
            (case tl_heap s old_timer of
               None \<Rightarrow> Some (Inl DanglingPtr)
             | Some n \<Rightarrow>
                 AddTimer old_timer (s\<lparr>tl_heap := (tl_heap s)(old_timer \<mapsto>
                   n\<lparr>tm_expire := t_reset, tm_prev := None, tm_next := None\<rparr>)\<rparr>))
          else Some (Inr s))"

section \<open>TickOnce, the destructor, OutputList\<close>

text \<open>
  The expire handler works on data of the client of the list, the state \<open>e\<close>.
\<close>

partial_function (option) tick_loop ::
  "(fd \<Rightarrow> 'e \<Rightarrow> 'e res) \<Rightarrow> int \<Rightarrow> timer_list \<times> 'e \<Rightarrow> (timer_list \<times> 'e) res option" where
  "tick_loop handler t_current st =
     (let s = fst st in
      case tl_head s of
        None \<Rightarrow> Some (Inr st)
      | Some c \<Rightarrow>
          (case tl_heap s c of
             None \<Rightarrow> Some (Inl DanglingPtr)
           | Some n \<Rightarrow>
               if tm_expire n < t_current then
                 (case (case tm_next n of
                          None \<Rightarrow> Inr (s\<lparr>tl_head := None\<rparr>)
                        | Some x \<Rightarrow> set_prev x None (s\<lparr>tl_head := Some x\<rparr>)) of
                    Inl f \<Rightarrow> Some (Inl f)
                  | Inr s \<Rightarrow>
                      (case handler (tm_client n) (snd st) of
                         Inl f \<Rightarrow> Some (Inl f)
                       | Inr e \<Rightarrow> tick_loop handler t_current (free_timer c s, e)))
               else Some (Inr st)))"

definition TickOnce ::
  "(fd \<Rightarrow> 'e \<Rightarrow> 'e res) \<Rightarrow> int \<Rightarrow> timer_list \<Rightarrow> 'e \<Rightarrow> (timer_list \<times> 'e) res option" where
  "TickOnce handler t_current s e = tick_loop handler t_current (s, e)"

partial_function (option) TimerSortedList_delete :: "timer_list \<Rightarrow> timer_list res option" where
  "TimerSortedList_delete s =
     (case tl_head s of
        None \<Rightarrow> Some (Inr s)
      | Some c \<Rightarrow>
          (case tl_heap s c of
             None \<Rightarrow> Some (Inl DanglingPtr)
           | Some n \<Rightarrow> TimerSortedList_delete (free_timer c (s\<lparr>tl_head := tm_next n\<rparr>))))"

text \<open>The times that \<open>OutputList\<close> prints; the loop state is the node and what is printed so far.\<close>

partial_function (option) output_loop :: "heap \<Rightarrow> addr option \<times> int list \<Rightarrow> int list res option" where
  "output_loop h st =
     (case fst st of
        None \<Rightarrow> Some (Inr (snd st))
      | Some c \<Rightarrow>
          (case h c of
             None \<Rightarrow> Some (Inl DanglingPtr)
           | Some n \<Rightarrow> output_loop h (tm_next n, snd st @ [tm_expire n])))"

definition OutputList :: "timer_list \<Rightarrow> int list res option" where
  "OutputList s = output_loop (tl_heap s) (tl_head s, [])"

declare find_place.simps [code] find_timer.simps [code] tick_loop.simps [code]
  TimerSortedList_delete.simps [code] output_loop.simps [code]

section \<open>Linked segments\<close>

text \<open>
  \<open>seg h p cur xs q nxt\<close>: from \<open>cur\<close> on, the nodes \<open>xs\<close> are linked in both directions; \<open>p\<close> is before
  the first, \<open>q\<close> is the last (or \<open>p\<close>), and \<open>nxt\<close> follows.
\<close>

fun seg :: "heap \<Rightarrow> addr option \<Rightarrow> addr option \<Rightarrow> addr list \<Rightarrow> addr option \<Rightarrow> addr option \<Rightarrow> bool" where
  "seg h p cur [] q nxt \<longleftrightarrow> q = p \<and> cur = nxt"
| "seg h p cur (x # xs) q nxt \<longleftrightarrow>
     cur = Some x \<and> (\<exists>n. h x = Some n \<and> tm_prev n = p \<and> seg h (Some x) (tm_next n) xs q nxt)"

lemma seg_append:
  "seg h p cur (xs @ ys) q nxt \<longleftrightarrow> (\<exists>q' c. seg h p cur xs q' c \<and> seg h q' c ys q nxt)"
  by (induction xs arbitrary: p cur) auto

lemma seg_frame: "(\<And>x. x \<in> set xs \<Longrightarrow> h' x = h x) \<Longrightarrow> seg h' p cur xs q nxt = seg h p cur xs q nxt"
  by (induction xs arbitrary: p cur) auto

lemma seg_last: "seg h p cur xs q nxt \<Longrightarrow> q = (if xs = [] then p else Some (last xs))"
  by (induction xs arbitrary: p cur) auto

lemma seg_first: "seg h p cur xs q nxt \<Longrightarrow> cur = (if xs = [] then nxt else Some (hd xs))"
  by (cases xs) auto

lemma seg_allocated: "seg h p cur xs q nxt \<Longrightarrow> x \<in> set xs \<Longrightarrow> \<exists>n. h x = Some n"
  by (induction xs arbitrary: p cur) auto

lemma seg_upd [simp]: "a \<notin> set xs \<Longrightarrow> seg (h(a := v)) p cur xs q nxt = seg h p cur xs q nxt"
  by (rule seg_frame) auto

text \<open>A node in the middle.\<close>

lemma seg_middle:
  "seg h p cur (xs @ x # ys) q nxt \<longleftrightarrow>
     (\<exists>q' n. seg h p cur xs q' (Some x) \<and> h x = Some n \<and> tm_prev n = q' \<and>
        seg h (Some x) (tm_next n) ys q nxt)"
  by (auto simp: seg_append)

text \<open>Redirecting the pointer that leaves a segment, and the one that points back from it.\<close>

lemma seg_set_next:
  assumes "seg h p cur xs (Some l) nxt" "xs \<noteq> []" "distinct xs" "h l = Some n"
  shows "seg (h(l \<mapsto> n\<lparr>tm_next := v\<rparr>)) p cur xs (Some l) v"
proof -
  have l: "xs = butlast xs @ [l]" using seg_last [OF assms(1)] assms(2) by simp
  then have "l \<notin> set (butlast xs)" using assms(3) by (metis distinct_append disjoint_insert(2) list.set(2) not_distinct_conv_prefix)
  with assms(1,4) show ?thesis by (subst l, subst (asm) l) (auto simp: seg_middle)
qed

lemma seg_set_prev:
  assumes "seg h p cur (x # ys) q nxt" "distinct (x # ys)" "h x = Some n"
  shows "seg (h(x \<mapsto> n\<lparr>tm_prev := p'\<rparr>)) p' cur (x # ys) q nxt"
  using assms by simp

end
