(* ===== verification/TimerLinks.thy ===== *)
theory TimerLinks
  imports TimerList
begin

text \<open>
  What the operations of the timer list do to the nodes: the searches stop where the sorted
  order says, and linking and unlinking keep the list doubly linked and every node's time and
  client as they were.
\<close>

section \<open>The represented list\<close>

definition linked :: "timer_list \<Rightarrow> addr list \<Rightarrow> bool" where
  "linked s xs \<longleftrightarrow> (\<exists>q. seg (tl_heap s) None (tl_head s) xs q None) \<and> distinct xs"

text \<open>What a node says beside its pointers.\<close>

definition info :: "heap \<Rightarrow> addr \<Rightarrow> (int \<times> fd) option" where
  "info h a = map_option (\<lambda>n. (tm_expire n, tm_client n)) (h a)"

definition expiry :: "heap \<Rightarrow> addr \<Rightarrow> int" where
  "expiry h a = tm_expire (the (h a))"

lemma linkedD: "linked s xs \<Longrightarrow> x \<in> set xs \<Longrightarrow> \<exists>n. tl_heap s x = Some n"
  by (auto simp: linked_def dest: seg_allocated)

lemma linked_head: "linked s xs \<Longrightarrow> tl_head s = (if xs = [] then None else Some (hd xs))"
  by (auto simp: linked_def dest: seg_first)

lemma info_expiry: "info h' a = info h a \<Longrightarrow> h a = Some n \<Longrightarrow> expiry h' a = expiry h a"
  by (cases "h' a") (auto simp: info_def expiry_def)

lemma info_upd:
  "h x = Some m \<Longrightarrow> tm_expire m' = tm_expire m \<Longrightarrow> tm_client m' = tm_client m \<Longrightarrow>
     info (h(x \<mapsto> m')) = info h"
  by (auto simp: info_def fun_eq_iff)

lemma set_pointer_keeps:
  "set_next a v s = Inr t \<Longrightarrow> info (tl_heap t) = info (tl_heap s) \<and> tl_head t = tl_head s \<and> tl_tail t = tl_tail s"
  "set_prev a v s = Inr t \<Longrightarrow> info (tl_heap t) = info (tl_heap s) \<and> tl_head t = tl_head s \<and> tl_tail t = tl_tail s"
  by (auto simp: set_next_def set_prev_def info_def fun_eq_iff split: option.splits)

section \<open>Searching\<close>

lemma find_place_sorted:
  assumes "seg h p cur xs q None"
  shows "\<exists>p' c. find_place h t (p, cur) = Some (Inr (p', c)) \<and>
    seg h p cur (takeWhile (\<lambda>x. expiry h x < t) xs) p' c \<and>
    seg h p' c (dropWhile (\<lambda>x. expiry h x < t) xs) q None"
  using assms
proof (induction xs arbitrary: p cur)
  case Nil
  then show ?case by (subst find_place.simps) auto
next
  case (Cons x xs)
  then obtain n where n: "cur = Some x" "h x = Some n" "tm_prev n = p"
    "seg h (Some x) (tm_next n) xs q None" by auto
  show ?case
  proof (cases "expiry h x < t")
    case True
    with n Cons.IH [OF n(4)] show ?thesis
      by (subst find_place.simps) (auto simp: expiry_def)
  next
    case False
    with n show ?thesis by (subst find_place.simps) (auto simp: expiry_def)
  qed
qed

lemma find_timer_linked:
  assumes "seg h p cur xs q None"
  shows "find_timer h a cur = Some (Inr (if a \<in> set xs then Some a else None))"
  using assms
proof (induction xs arbitrary: p cur)
  case Nil
  then show ?case by (subst find_timer.simps) simp
next
  case (Cons x xs)
  then obtain n where "cur = Some x" "h x = Some n" "seg h (Some x) (tm_next n) xs q None" by auto
  with Cons.IH show ?case by (subst find_timer.simps) auto
qed

section \<open>Linking a node in\<close>

lemma set_next_alloc:
  "tl_heap s a = Some n \<Longrightarrow> set_next a v s = Inr (s\<lparr>tl_heap := (tl_heap s)(a \<mapsto> n\<lparr>tm_next := v\<rparr>)\<rparr>)"
  by (simp add: set_next_def)

lemma set_prev_alloc:
  "tl_heap s a = Some n \<Longrightarrow> set_prev a v s = Inr (s\<lparr>tl_heap := (tl_heap s)(a \<mapsto> n\<lparr>tm_prev := v\<rparr>)\<rparr>)"
  by (simp add: set_prev_def)

text \<open>The node that leads to position \<open>c\<close> now leads to \<open>v\<close>: the last node before it, or the head.\<close>

definition redirect :: "addr option \<Rightarrow> addr option \<Rightarrow> timer_list \<Rightarrow> timer_list res" where
  "redirect prev v s = (case prev of Some p \<Rightarrow> set_next p v s | None \<Rightarrow> Inr (s\<lparr>tl_head := v\<rparr>))"

lemma redirect_seg:
  assumes "seg (tl_heap s) None (tl_head s) us p c" "distinct us"
  shows "\<exists>t. redirect p v s = Inr t \<and> seg (tl_heap t) None (tl_head t) us p v \<and>
    (\<forall>x. x \<notin> set us \<longrightarrow> tl_heap t x = tl_heap s x) \<and> info (tl_heap t) = info (tl_heap s) \<and> tl_tail t = tl_tail s"
proof (cases "us = []")
  case True
  with assms show ?thesis by (simp add: redirect_def)
next
  case False
  then obtain l where l: "p = Some l" "l \<in> set us"
    using seg_last [OF assms(1)] by auto
  obtain n where n: "tl_heap s l = Some n" using seg_allocated [OF assms(1) l(2)] by blast
  have "seg ((tl_heap s)(l \<mapsto> n\<lparr>tm_next := v\<rparr>)) None (tl_head s) us (Some l) v"
    by (rule seg_set_next [where nxt = c]) (use assms l False n in simp_all)
  then show ?thesis
    using l n by (auto simp: redirect_def set_next_alloc info_def fun_eq_iff)
qed

lemma link_timer_redirect:
  "prev \<noteq> None \<or> cur \<noteq> None \<Longrightarrow> link_timer a prev cur s =
     rbind (redirect prev (Some a) s) (\<lambda>s. rbind (set_prev a prev s) (\<lambda>s.
       rbind (set_next a cur s) (\<lambda>s. case cur of Some c \<Rightarrow> set_prev c (Some a) s | None \<Rightarrow> Inr s)))"
  by (cases prev; cases cur) (simp_all add: link_timer_def redirect_def rbind_assoc)

lemma link_timer_seg:
  assumes s: "seg (tl_heap s) None (tl_head s) us p c" "seg (tl_heap s) p c vs q None"
    and d: "distinct (us @ vs)" "us @ vs \<noteq> []" "a \<notin> set (us @ vs)" "tl_heap s a = Some n"
  shows "\<exists>t. link_timer a p c s = Inr t \<and> linked t (us @ a # vs) \<and>
    info (tl_heap t) = info (tl_heap s) \<and> tl_tail t = tl_tail s"
proof -
  have pc: "p \<noteq> None \<or> c \<noteq> None"
    using d(2) seg_last [OF s(1)] seg_first [OF s(2)] by (cases us) auto
  have "distinct us" using d(1) by simp
  from redirect_seg [OF s(1) this, of "Some a"] obtain t where
    t: "redirect p (Some a) s = Inr t" "seg (tl_heap t) None (tl_head t) us p (Some a)"
      "\<And>x. x \<notin> set us \<Longrightarrow> tl_heap t x = tl_heap s x" "info (tl_heap t) = info (tl_heap s)"
      "tl_tail t = tl_tail s" by blast
  define u where "u = t\<lparr>tl_heap := (tl_heap t)(a \<mapsto> n\<lparr>tm_prev := p, tm_next := c\<rparr>)\<rparr>"
  have ta: "tl_heap t a = Some n" using t(3) d(3,4) by simp
  then have link: "link_timer a p c s =
      (case c of Some c \<Rightarrow> set_prev c (Some a) u | None \<Rightarrow> Inr u)"
    by (simp add: link_timer_redirect [OF pc] t(1) set_prev_alloc set_next_alloc flip: u_def)
  have us: "seg (tl_heap u) None (tl_head u) us p (Some a)" using t(2) d(3) by (simp add: u_def)
  have "seg (tl_heap t) p c vs q None = seg (tl_heap s) p c vs q None"
    by (rule seg_frame) (use t(3) d(1) in auto)
  then have vs: "seg (tl_heap u) p c vs q None" using s(2) d(3) by (simp add: u_def)
  have ua: "tl_heap u a = Some (n\<lparr>tm_prev := p, tm_next := c\<rparr>)" by (simp add: u_def)
  have inf: "info (tl_heap u) = info (tl_heap s)" "tl_tail u = tl_tail s"
    using t(4,5) info_upd [where h = "tl_heap t", OF ta] by (simp_all add: u_def)
  show ?thesis
  proof (cases vs)
    case Nil
    with vs have "c = None" by simp
    with us ua link inf d Nil show ?thesis by (auto simp: linked_def seg_middle)
  next
    case (Cons x ys)
    with vs have c: "c = Some x" by simp
    with vs Cons obtain m where m: "tl_heap u x = Some m" by auto
    let ?v = "u\<lparr>tl_heap := (tl_heap u)(x \<mapsto> m\<lparr>tm_prev := Some a\<rparr>)\<rparr>"
    have "link_timer a p c s = Inr ?v" using link c m by (simp add: set_prev_alloc)
    moreover have "seg (tl_heap ?v) (Some a) c vs q None"
      using seg_set_prev [OF vs [unfolded Cons] _ m, of "Some a"] d(1) Cons by simp
    moreover have "seg (tl_heap ?v) None (tl_head ?v) us p (Some a)"
      using us d(1) Cons by simp
    moreover have "tl_heap ?v a = Some (n\<lparr>tm_prev := p, tm_next := c\<rparr>)"
      using ua d(3) Cons by simp
    ultimately have "link_timer a p c s = Inr ?v" "linked ?v (us @ a # vs)"
      using d by (auto simp: linked_def seg_middle)
    then show ?thesis using inf info_upd [where h = "tl_heap u", OF m, of "m\<lparr>tm_prev := Some a\<rparr>"] by auto
  qed
qed

section \<open>Unlinking a node\<close>

lemma unlink_timer_redirect:
  "tl_heap s a = Some n \<Longrightarrow> unlink_timer a s =
     rbind (redirect (tm_prev n) (tm_next n) s) (\<lambda>s.
       case tm_next n of Some x \<Rightarrow> set_prev x (tm_prev n) s | None \<Rightarrow> Inr (s\<lparr>tl_tail := tm_prev n\<rparr>))"
  by (simp add: unlink_timer_def redirect_def)

lemma unlink_timer_seg:
  assumes s: "linked s (us @ a # vs)"
  shows "\<exists>t. unlink_timer a s = Inr t \<and> linked t (us @ vs) \<and> info (tl_heap t) = info (tl_heap s)"
proof -
  from s obtain q n where n: "tl_heap s a = Some n" "seg (tl_heap s) None (tl_head s) us (tm_prev n) (Some a)"
      "seg (tl_heap s) (Some a) (tm_next n) vs q None"
    by (auto simp: linked_def seg_middle)
  have d: "distinct (us @ a # vs)" using s by (simp add: linked_def)
  have "distinct us" using d by simp
  from redirect_seg [OF n(2) this, of "tm_next n"] obtain t where
    t: "redirect (tm_prev n) (tm_next n) s = Inr t"
      "seg (tl_heap t) None (tl_head t) us (tm_prev n) (tm_next n)"
      "\<And>x. x \<notin> set us \<Longrightarrow> tl_heap t x = tl_heap s x" "info (tl_heap t) = info (tl_heap s)" by blast
  have "seg (tl_heap t) (Some a) (tm_next n) vs q None = seg (tl_heap s) (Some a) (tm_next n) vs q None"
    by (rule seg_frame) (use t(3) d in auto)
  then have vs: "seg (tl_heap t) (Some a) (tm_next n) vs q None" using n(3) by simp
  show ?thesis
  proof (cases vs)
    case Nil
    with vs have "tm_next n = None" by simp
    with t Nil d n(1) show ?thesis by (auto simp: unlink_timer_redirect linked_def)
  next
    case (Cons x ys)
    with vs have x: "tm_next n = Some x" by simp
    with vs Cons obtain m where m: "tl_heap t x = Some m" by auto
    let ?v = "t\<lparr>tl_heap := (tl_heap t)(x \<mapsto> m\<lparr>tm_prev := tm_prev n\<rparr>)\<rparr>"
    have "unlink_timer a s = Inr ?v"
      using n(1) t(1) x m by (simp add: unlink_timer_redirect set_prev_alloc)
    moreover have "seg (tl_heap ?v) (tm_prev n) (tm_next n) vs (if ys = [] then Some x else q) None"
      using seg_set_prev [OF vs [unfolded Cons] _ m, of "tm_prev n"] d Cons seg_last [OF vs] by auto
    moreover have "seg (tl_heap ?v) None (tl_head ?v) us (tm_prev n) (tm_next n)"
      using t(2) d Cons by simp
    ultimately have "unlink_timer a s = Inr ?v" "linked ?v (us @ vs)"
      using d by (auto simp: linked_def seg_append)
    then show ?thesis using t(4) info_upd [where h = "tl_heap t", OF m, of "m\<lparr>tm_prev := tm_prev n\<rparr>"] by auto
  qed
qed

end
