(* ===== verification/TimerQueue.thy ===== *)
theory TimerQueue
  imports TimerLinks
begin

text \<open>
  The timer list as a queue sorted by expiry: the abstract operations, the contract a client of
  the queue relies on (a locale), what follows from the contract, and its interpretation on the
  linked list.
\<close>

section \<open>The abstract queue\<close>

text \<open>An entry is a timer, its expiry and its client.\<close>

type_synonym entry = "addr \<times> int \<times> fd"

abbreviation due :: "entry \<Rightarrow> int" where "due e \<equiv> fst (snd e)"

definition before :: "int \<Rightarrow> entry \<Rightarrow> bool" where "before t e \<longleftrightarrow> due e < t"

definition enqueue :: "entry \<Rightarrow> entry list \<Rightarrow> entry list" where
  "enqueue e es = takeWhile (before (due e)) es @ e # dropWhile (before (due e)) es"

definition without :: "addr \<Rightarrow> entry list \<Rightarrow> entry list" where
  "without a es = filter (\<lambda>e. fst e \<noteq> a) es"

text \<open>The handlers of the expired entries, in order.\<close>

primrec run_handlers :: "(fd \<Rightarrow> 'e \<Rightarrow> 'e res) \<Rightarrow> entry list \<Rightarrow> 'e \<Rightarrow> 'e res" where
  "run_handlers handler [] st = Inr st"
| "run_handlers handler (e # es) st = rbind (handler (snd (snd e)) st) (run_handlers handler es)"

lemma set_enqueue: "set (enqueue e es) = insert e (set es)"
proof -
  have "set es = set (takeWhile P es) \<union> set (dropWhile P es)" for P
    by (metis set_append takeWhile_dropWhile_id)
  then show ?thesis unfolding enqueue_def set_append list.set by blast
qed

lemma without_absent: "a \<notin> fst ` set es \<Longrightarrow> without a es = es"
  by (auto simp: without_def filter_id_conv)

lemma without_enqueue:
  assumes "fst e \<notin> fst ` set es"
  shows "without (fst e) (enqueue e es) = es"
proof -
  have "without (fst e) (enqueue e es) =
      without (fst e) (takeWhile (before (due e)) es @ dropWhile (before (due e)) es)"
    by (simp add: enqueue_def without_def del: takeWhile_dropWhile_id)
  then show ?thesis using without_absent [OF assms] by simp
qed

lemma sorted_enqueue:
  assumes "sorted (map due es)"
  shows "sorted (map due (enqueue e es))"
proof -
  let ?us = "takeWhile (before (due e)) es" and ?vs = "dropWhile (before (due e)) es"
  have s: "sorted (map due ?us @ map due ?vs)" using assms by (metis map_append takeWhile_dropWhile_id)
  have "\<forall>x \<in> set ?us. due x < due e" by (auto dest: set_takeWhileD simp: before_def)
  moreover have "\<forall>x \<in> set ?vs. due e \<le> due x"
  proof (cases ?vs)
    case (Cons v ws)
    then have "\<not> before (due e) v" using hd_dropWhile [of "before (due e)" es] by auto
    with s Cons show ?thesis by (auto simp: before_def sorted_append)
  next
    case Nil
    then show ?thesis unfolding Nil by simp
  qed
  ultimately show ?thesis using s by (auto simp: enqueue_def sorted_append intro: less_imp_le)
qed

lemma dropWhile_before: "sorted (map due es) \<Longrightarrow> dropWhile (before t) es = filter (\<lambda>e. t \<le> due e) es"
proof (induction es)
  case (Cons e es)
  then show ?case by (auto simp: before_def intro!: filter_True [symmetric] intro: order_trans)
qed simp

lemma takeWhile_before: "sorted (map due es) \<Longrightarrow> takeWhile (before t) es = filter (\<lambda>e. due e < t) es"
proof (induction es)
  case (Cons e es)
  then show ?case by (auto simp: before_def intro!: filter_False [symmetric])
qed simp

section \<open>The contract\<close>

locale timer_queue =
  fixes repr :: "'s \<Rightarrow> entry list \<Rightarrow> bool"
    and avail :: "'s \<Rightarrow> entry \<Rightarrow> bool"
    and add :: "addr \<Rightarrow> 's \<Rightarrow> 's res option"
    and del :: "addr \<Rightarrow> 's \<Rightarrow> 's res option"
    and chg :: "addr \<Rightarrow> int \<Rightarrow> 's \<Rightarrow> 's res option"
    and tick :: "(fd \<Rightarrow> 'e \<Rightarrow> 'e res) \<Rightarrow> int \<Rightarrow> 's \<Rightarrow> 'e \<Rightarrow> ('s \<times> 'e) res option"
  assumes repr_sorted: "repr s es \<Longrightarrow> sorted (map due es) \<and> distinct (map fst es)"
    and add_ok: "repr s es \<Longrightarrow> avail s e \<Longrightarrow> fst e \<notin> fst ` set es \<Longrightarrow>
          \<exists>s'. add (fst e) s = Some (Inr s') \<and> repr s' (enqueue e es)"
    and del_ok: "repr s es \<Longrightarrow> \<exists>s'. del a s = Some (Inr s') \<and> repr s' (without a es)"
    and chg_ok: "repr s es \<Longrightarrow> (a, t0, c) \<in> set es \<Longrightarrow>
          \<exists>s'. chg a t s = Some (Inr s') \<and> repr s' (enqueue (a, t, c) (without a es))"
    and chg_absent: "repr s es \<Longrightarrow> a \<notin> fst ` set es \<Longrightarrow> chg a t s = Some (Inr s)"
    and tick_ok: "repr s es \<Longrightarrow> run_handlers handler (takeWhile (before t) es) st = Inr st' \<Longrightarrow>
          \<exists>s'. tick handler t s st = Some (Inr (s', st')) \<and> repr s' (dropWhile (before t) es)"
    and tick_fault: "repr s es \<Longrightarrow> run_handlers handler (takeWhile (before t) es) st = Inl f \<Longrightarrow>
          tick handler t s st = Some (Inl f)"
begin

text \<open>Adding an entry and deleting it again gives back the queue.\<close>

lemma add_del:
  assumes "repr s es" "avail s e" "fst e \<notin> fst ` set es"
  shows "\<exists>s1 s2. add (fst e) s = Some (Inr s1) \<and> repr s1 (enqueue e es) \<and>
    del (fst e) s1 = Some (Inr s2) \<and> repr s2 es"
proof -
  obtain s1 where s1: "add (fst e) s = Some (Inr s1)" "repr s1 (enqueue e es)"
    using add_ok [OF assms] by blast
  with del_ok [OF s1(2), of "fst e"] without_enqueue [OF assms(3)] show ?thesis by auto
qed

text \<open>After a tick, exactly the timers that have not expired are left.\<close>

lemma tick_leaves:
  assumes "repr s es" "tick handler t s st = Some (Inr (s', st'))"
  shows "repr s' (filter (\<lambda>e. t \<le> due e) es)"
proof (cases "run_handlers handler (takeWhile (before t) es) st")
  case (Inl f)
  with tick_fault [OF assms(1)] assms(2) show ?thesis by simp
next
  case (Inr u)
  with tick_ok [OF assms(1) Inr] assms(2) dropWhile_before repr_sorted [OF assms(1)] show ?thesis
    by auto
qed

text \<open>A timer that was reset to \<open>t'\<close> outlives every tick up to \<open>t'\<close>.\<close>

lemma reset_outlives:
  assumes "repr s es" "(a, t0, c) \<in> set es" "chg a t' s = Some (Inr s1)"
    "tick handler t s1 st = Some (Inr (s2, st'))" "t \<le> t'"
  shows "\<exists>es'. repr s2 es' \<and> (a, t', c) \<in> set es'"
proof -
  have "repr s1 (enqueue (a, t', c) (without a es))"
    using chg_ok [OF assms(1,2), of t'] assms(3) by auto
  from tick_leaves [OF this assms(4)] assms(5) show ?thesis
    by (intro exI [of _ "filter (\<lambda>e. t \<le> due e) (enqueue (a, t', c) (without a es))"])
       (simp add: set_enqueue)
qed

end

section \<open>The linked list keeps the contract\<close>

definition entry_of :: "heap \<Rightarrow> addr \<Rightarrow> entry" where
  "entry_of h x = (x, tm_expire (the (h x)), tm_client (the (h x)))"

definition timer_repr :: "timer_list \<Rightarrow> entry list \<Rightarrow> bool" where
  "timer_repr s es \<longleftrightarrow>
     (\<exists>xs. linked s xs \<and> es = map (entry_of (tl_heap s)) xs \<and> sorted (map due es))"

text \<open>A node that is allocated, says what the entry says and is not linked to anything.\<close>

definition timer_avail :: "timer_list \<Rightarrow> entry \<Rightarrow> bool" where
  "timer_avail s e \<longleftrightarrow> tl_heap s (fst e) = Some (ClientTimer_new (snd (snd e)) (due e))"

lemma entry_of_simps [simp]: "fst (entry_of h x) = x" "due (entry_of h x) = expiry h x"
  by (simp_all add: entry_of_def expiry_def)

lemma entry_of_info:
  assumes "info h' x = info h x" "h x \<noteq> None"
  shows "entry_of h' x = entry_of h x"
  using assms by (cases "h' x"; cases "h x") (auto simp: info_def entry_of_def)

lemma map_entry_of_info:
  "(\<And>x. x \<in> set xs \<Longrightarrow> info h' x = info h x) \<Longrightarrow> (\<And>x. x \<in> set xs \<Longrightarrow> h x \<noteq> None) \<Longrightarrow>
     map (entry_of h') xs = map (entry_of h) xs"
  by (auto intro: entry_of_info)

lemma linked_allocated: "linked s xs \<Longrightarrow> x \<in> set xs \<Longrightarrow> tl_heap s x \<noteq> None"
  using linkedD by force

lemma enqueue_map:
  "enqueue (entry_of h a) (map (entry_of h) xs) =
     map (entry_of h) (takeWhile (\<lambda>x. expiry h x < expiry h a) xs @ a # dropWhile (\<lambda>x. expiry h x < expiry h a) xs)"
  by (simp add: enqueue_def takeWhile_map dropWhile_map before_def comp_def)

text \<open>AddTimer is ordered insertion.\<close>

lemma AddTimer_linked:
  assumes "linked s xs" "tl_heap s a = Some n" "tm_prev n = None" "tm_next n = None" "a \<notin> set xs"
  shows "\<exists>t. AddTimer a s = Some (Inr t) \<and>
    linked t (takeWhile (\<lambda>x. expiry (tl_heap s) x < tm_expire n) xs @ a #
              dropWhile (\<lambda>x. expiry (tl_heap s) x < tm_expire n) xs) \<and>
    info (tl_heap t) = info (tl_heap s)"
proof (cases xs)
  case Nil
  with assms linked_head [OF assms(1)] show ?thesis by (simp add: AddTimer_def linked_def)
next
  case (Cons x ys)
  let ?P = "\<lambda>x. expiry (tl_heap s) x < tm_expire n"
  obtain q m where m: "seg (tl_heap s) None (Some x) xs q None" "tl_heap s x = Some m" "tm_prev m = None"
      "tl_head s = Some x"
    using assms(1) Cons by (auto simp: linked_def)
  from find_place_sorted [OF m(1), of "tm_expire n"] obtain p c where
    f: "find_place (tl_heap s) (tm_expire n) (None, Some x) = Some (Inr (p, c))"
      "seg (tl_heap s) None (Some x) (takeWhile ?P xs) p c" "seg (tl_heap s) p c (dropWhile ?P xs) q None"
    by blast
  have "seg (tl_heap s) None (tl_head s) (takeWhile ?P xs) p c" using f(2) m(4) by simp
  moreover have "distinct (takeWhile ?P xs @ dropWhile ?P xs)" "takeWhile ?P xs @ dropWhile ?P xs \<noteq> []"
      "a \<notin> set (takeWhile ?P xs @ dropWhile ?P xs)"
    unfolding takeWhile_dropWhile_id using assms(1,5) Cons by (simp_all add: linked_def)
  ultimately obtain t where
    t: "link_timer a p c s = Inr t" "linked t (takeWhile ?P xs @ a # dropWhile ?P xs)"
      "info (tl_heap t) = info (tl_heap s)"
    using link_timer_seg [OF _ f(3) _ _ _ assms(2)] by blast
  then have "AddTimer a s = Some (Inr t)"
    using m f(1) assms(2) by (simp add: AddTimer_def)
  with t show ?thesis by blast
qed

lemma AddTimer_repr:
  assumes "timer_repr s es" "timer_avail s e" "fst e \<notin> fst ` set es"
  shows "\<exists>t. AddTimer (fst e) s = Some (Inr t) \<and> timer_repr t (enqueue e es) \<and>
    info (tl_heap t) = info (tl_heap s)"
proof -
  obtain xs where xs: "linked s xs" "es = map (entry_of (tl_heap s)) xs" "sorted (map due es)"
    using assms(1) by (auto simp: timer_repr_def)
  obtain a d c where e: "e = (a, d, c)" by (cases e)
  have n: "tl_heap s a = Some (ClientTimer_new c d)" using assms(2) e by (simp add: timer_avail_def)
  then have ee: "entry_of (tl_heap s) a = e" by (simp add: entry_of_def ClientTimer_new_def e)
  have a: "a \<notin> set xs" using assms(3) xs(2) e by (auto simp: image_image)
  from AddTimer_linked [OF xs(1) n _ _ a] obtain t where
    t: "AddTimer a s = Some (Inr t)"
      "linked t (takeWhile (\<lambda>x. expiry (tl_heap s) x < d) xs @ a # dropWhile (\<lambda>x. expiry (tl_heap s) x < d) xs)"
      "info (tl_heap t) = info (tl_heap s)" by (auto simp: ClientTimer_new_def)
  have ed: "expiry (tl_heap s) a = d" using n by (simp add: expiry_def ClientTimer_new_def)
  have "map (entry_of (tl_heap t)) (takeWhile (\<lambda>x. expiry (tl_heap s) x < d) xs @ a #
      dropWhile (\<lambda>x. expiry (tl_heap s) x < d) xs) = enqueue e es"
    using enqueue_map [of "tl_heap s" a xs] linked_allocated [OF xs(1)] n t(3) ee ed xs(2)
    by (subst map_entry_of_info [where h = "tl_heap s"])
       (auto dest: set_takeWhileD set_dropWhileD)
  with t sorted_enqueue [OF xs(3), of e] show ?thesis
    by (auto simp: timer_repr_def e)
qed

text \<open>The tail pointer is only set when the list was empty.\<close>

lemma link_timer_tail: "link_timer a p c s = Inr t \<Longrightarrow> tl_tail t = tl_tail s"
  by (auto simp: link_timer_def rbind_eq_Inr_iff split: option.splits dest!: set_pointer_keeps)

lemma AddTimer_tail: "AddTimer a s = Some (Inr t) \<Longrightarrow> tl_head s \<noteq> None \<Longrightarrow> tl_tail t = tl_tail s"
  by (auto simp: AddTimer_def rbind_eq_Inr_iff split: option.splits dest: link_timer_tail)

text \<open>SoftDelTimer unlinks, DelTimer removes.\<close>

lemma SoftDelTimer_linked:
  assumes "linked s xs"
  shows "a \<notin> set xs \<Longrightarrow> SoftDelTimer a s = Some (Inr (False, s))"
    and "xs = us @ a # vs \<Longrightarrow> \<exists>t. SoftDelTimer a s = Some (Inr (True, t)) \<and> linked t (us @ vs) \<and>
           info (tl_heap t) = info (tl_heap s)"
proof -
  obtain q where q: "seg (tl_heap s) None (tl_head s) xs q None" using assms by (auto simp: linked_def)
  note f = find_timer_linked [OF q, of a]
  show "SoftDelTimer a s = Some (Inr (False, s))" if "a \<notin> set xs"
    using f that by (simp add: SoftDelTimer_def)
  show "\<exists>t. SoftDelTimer a s = Some (Inr (True, t)) \<and> linked t (us @ vs) \<and>
      info (tl_heap t) = info (tl_heap s)" if "xs = us @ a # vs"
    using f that unlink_timer_seg [of s us a vs] assms by (auto simp: SoftDelTimer_def)
qed

lemma without_map:
  "distinct (us @ a # vs) \<Longrightarrow> without a (map (entry_of h) (us @ a # vs)) = map (entry_of h) (us @ vs)"
proof -
  assume "distinct (us @ a # vs)"
  then have "filter (\<lambda>x. x \<noteq> a) us = us" "filter (\<lambda>x. x \<noteq> a) vs = vs"
    by (auto intro!: filter_True)
  then show ?thesis by (simp add: without_def filter_map comp_def)
qed

lemma timer_reprI:
  "linked s xs \<Longrightarrow> map (entry_of (tl_heap s)) xs = es \<Longrightarrow> sorted (map due es) \<Longrightarrow> timer_repr s es"
  by (auto simp: timer_repr_def)

lemma info_SomeD:
  assumes "info h' = info h" "h a = Some n"
  shows "\<exists>m. h' a = Some m \<and> tm_client m = tm_client n"
  using fun_cong [OF assms(1), of a] assms(2) by (cases "h' a") (auto simp: info_def)

lemma sorted_without: "sorted (map due es) \<Longrightarrow> sorted (map due (without a es))"
  unfolding without_def by (rule sorted_filter)

lemma linked_free: "linked s xs \<Longrightarrow> a \<notin> set xs \<Longrightarrow> linked (free_timer a s) xs"
  by (auto simp: linked_def free_timer_def)

lemma DelTimer_repr:
  assumes "timer_repr s es"
  shows "\<exists>t. DelTimer a s = Some (Inr t) \<and> timer_repr t (without a es)"
proof -
  obtain xs where xs: "linked s xs" "es = map (entry_of (tl_heap s)) xs" "sorted (map due es)"
    using assms by (auto simp: timer_repr_def)
  show ?thesis
  proof (cases "a \<in> set xs")
    case False
    then have "a \<notin> fst ` set es" using xs(2) by (auto simp: image_image)
    then show ?thesis using SoftDelTimer_linked(1) [OF xs(1) False] assms
      by (simp add: DelTimer_def without_absent)
  next
    case True
    then obtain us vs where uv: "xs = us @ a # vs" by (auto simp: in_set_conv_decomp)
    from SoftDelTimer_linked(2) [OF xs(1) uv] obtain t where
      t: "SoftDelTimer a s = Some (Inr (True, t))" "linked t (us @ vs)" "info (tl_heap t) = info (tl_heap s)"
      by blast
    have d: "distinct (us @ a # vs)" using xs(1) uv by (simp add: linked_def)
    then have a: "a \<notin> set (us @ vs)" by simp
    have "map (entry_of (tl_heap (free_timer a t))) (us @ vs) = map (entry_of (tl_heap s)) (us @ vs)"
    proof (rule map_entry_of_info)
      fix x assume x: "x \<in> set (us @ vs)"
      then have "x \<noteq> a" using a by blast
      then show "info (tl_heap (free_timer a t)) x = info (tl_heap s) x"
        using t(3) by (simp add: free_timer_def info_def fun_eq_iff)
      show "tl_heap s x \<noteq> None" using linked_allocated [OF xs(1)] x uv by auto
    qed
    moreover have "without a es = map (entry_of (tl_heap s)) (us @ vs)"
      using without_map [OF d] xs(2) uv by simp
    ultimately have "timer_repr (free_timer a t) (without a es)"
      using linked_free [OF t(2) a] sorted_without [OF xs(3), of a] by (intro timer_reprI) auto
    with t(1) show ?thesis by (simp add: DelTimer_def)
  qed
qed

text \<open>ChgTimer moves an entry to its new place.\<close>

lemma ChgTimer_repr:
  assumes "timer_repr s es" "(a, t0, c) \<in> set es"
  shows "\<exists>u. ChgTimer a t s = Some (Inr u) \<and> timer_repr u (enqueue (a, t, c) (without a es))"
proof -
  obtain xs where xs: "linked s xs" "es = map (entry_of (tl_heap s)) xs" "sorted (map due es)"
    using assms by (auto simp: timer_repr_def)
  then have ax: "a \<in> set xs" "entry_of (tl_heap s) a = (a, t0, c)" using assms(2) by (auto simp: entry_of_def)
  then obtain us vs where uv: "xs = us @ a # vs" by (auto simp: in_set_conv_decomp)
  from SoftDelTimer_linked(2) [OF xs(1) uv] obtain s1 where
    s1: "SoftDelTimer a s = Some (Inr (True, s1))" "linked s1 (us @ vs)" "info (tl_heap s1) = info (tl_heap s)"
    by blast
  have d: "distinct (us @ a # vs)" using xs(1) uv by (simp add: linked_def)
  obtain n0 where "tl_heap s a = Some n0" "tm_client n0 = c"
    using linked_allocated [OF xs(1) ax(1)] ax(2) by (auto simp: entry_of_def)
  then obtain n where n: "tl_heap s1 a = Some n" "tm_client n = c"
    using info_SomeD [OF s1(3)] by blast
  define n' where "n' = n\<lparr>tm_expire := t, tm_prev := None, tm_next := None\<rparr>"
  define s2 where "s2 = s1\<lparr>tl_heap := (tl_heap s1)(a \<mapsto> n')\<rparr>"
  have l2: "linked s2 (us @ vs)" using s1(2) d by (auto simp: linked_def s2_def)
  have "timer_repr s2 (without a es)"
  proof -
    have "map (entry_of (tl_heap s2)) (us @ vs) = map (entry_of (tl_heap s)) (us @ vs)"
    proof (rule map_entry_of_info)
      fix x assume x: "x \<in> set (us @ vs)"
      then have "x \<noteq> a" using d by auto
      then show "info (tl_heap s2) x = info (tl_heap s) x"
        using s1(3) by (simp add: s2_def info_def fun_eq_iff)
      show "tl_heap s x \<noteq> None" using linked_allocated [OF xs(1)] x uv by auto
    qed
    moreover have "without a es = map (entry_of (tl_heap s)) (us @ vs)"
      using without_map [OF d] xs(2) uv by simp
    ultimately show ?thesis
      using l2 sorted_without [OF xs(3), of a] by (intro timer_reprI) auto
  qed
  moreover have "timer_avail s2 (a, t, c)"
    using n(2) by (simp add: timer_avail_def s2_def n'_def ClientTimer_new_def)
  moreover have "fst (a, t, c) \<notin> fst ` set (without a es)" by (auto simp: without_def)
  ultimately obtain u where "AddTimer a s2 = Some (Inr u)" "timer_repr u (enqueue (a, t, c) (without a es))"
    using AddTimer_repr by fastforce
  moreover have "ChgTimer a t s = AddTimer a s2"
    using s1(1) n by (simp add: ChgTimer_def s2_def n'_def)
  ultimately show ?thesis by simp
qed

text \<open>TickOnce runs the handlers of the expired timers in order and removes them.\<close>

lemma tick_step_linked:
  assumes "linked s (x # xs)" "tl_heap s x = Some n"
  shows "\<exists>t. (case tm_next n of None \<Rightarrow> Inr (s\<lparr>tl_head := None\<rparr>)
      | Some y \<Rightarrow> set_prev y None (s\<lparr>tl_head := Some y\<rparr>)) = Inr t \<and> linked (free_timer x t) xs \<and>
      (\<forall>y. y \<noteq> x \<longrightarrow> info (tl_heap (free_timer x t)) y = info (tl_heap s) y)"
proof -
  obtain q where q: "seg (tl_heap s) (Some x) (tm_next n) xs q None" "distinct (x # xs)"
    using assms by (auto simp: linked_def)
  show ?thesis
  proof (cases xs)
    case Nil
    with q(1) show ?thesis by (simp add: linked_def free_timer_def info_def)
  next
    case (Cons y ys)
    with q(1) obtain m where m: "tm_next n = Some y" "tl_heap s y = Some m" by auto
    let ?t = "s\<lparr>tl_head := Some y, tl_heap := (tl_heap s)(y \<mapsto> m\<lparr>tm_prev := None\<rparr>)\<rparr>"
    have "set_prev y None (s\<lparr>tl_head := Some y\<rparr>) = Inr ?t" using m by (simp add: set_prev_def)
    moreover have "linked ?t xs"
      using q m Cons by (auto simp: linked_def)
    then have "linked (free_timer x ?t) xs" using q(2) by (intro linked_free) auto
    ultimately show ?thesis using m by (simp add: free_timer_def info_def)
  qed
qed

text \<open>One round of the loop, for a timer that is due.\<close>

lemma tick_loop_due:
  assumes "linked s (x # xs)" "tl_heap s x = Some n" "tm_expire n < t"
  shows "\<exists>u. linked u xs \<and> map (entry_of (tl_heap u)) xs = map (entry_of (tl_heap s)) xs \<and>
    tick_loop handler t (s, e) =
      (case handler (tm_client n) e of Inl f \<Rightarrow> Some (Inl f) | Inr e \<Rightarrow> tick_loop handler t (u, e))"
proof -
  from tick_step_linked [OF assms(1,2)] obtain u where
    u: "(case tm_next n of None \<Rightarrow> Inr (s\<lparr>tl_head := None\<rparr>)
        | Some y \<Rightarrow> set_prev y None (s\<lparr>tl_head := Some y\<rparr>)) = Inr u" "linked (free_timer x u) xs"
      "\<And>y. y \<noteq> x \<Longrightarrow> info (tl_heap (free_timer x u)) y = info (tl_heap s) y" by blast
  have al: "\<And>y. y \<in> set xs \<Longrightarrow> tl_heap s y \<noteq> None" "x \<notin> set xs"
    using linked_allocated [OF assms(1)] assms(1) by (auto simp: linked_def)
  have "map (entry_of (tl_heap (free_timer x u))) xs = map (entry_of (tl_heap s)) xs"
  proof (rule map_entry_of_info)
    fix y assume y: "y \<in> set xs"
    then have "y \<noteq> x" using al(2) by auto
    then show "info (tl_heap (free_timer x u)) y = info (tl_heap s) y" by (rule u(3))
  qed (rule al(1))
  moreover have "tick_loop handler t (s, e) =
      (case handler (tm_client n) e of Inl f \<Rightarrow> Some (Inl f)
       | Inr e \<Rightarrow> tick_loop handler t (free_timer x u, e))"
    using linked_head [OF assms(1)] assms(2,3) u(1) by (subst tick_loop.simps) simp
  ultimately show ?thesis using u(2) by blast
qed

lemma tick_loop_linked:
  assumes "linked s xs"
  shows "case run_handlers handler (takeWhile (before t) (map (entry_of (tl_heap s)) xs)) e of
      Inl f \<Rightarrow> tick_loop handler t (s, e) = Some (Inl f)
    | Inr e' \<Rightarrow> \<exists>s'. tick_loop handler t (s, e) = Some (Inr (s', e')) \<and>
        linked s' (dropWhile (\<lambda>x. expiry (tl_heap s) x < t) xs) \<and>
        map (entry_of (tl_heap s')) (dropWhile (\<lambda>x. expiry (tl_heap s) x < t) xs) =
          dropWhile (before t) (map (entry_of (tl_heap s)) xs)"
  using assms
proof (induction xs arbitrary: s e)
  case Nil
  then have "tl_head s = None" using linked_head by auto
  with Nil show ?case by (subst tick_loop.simps) simp
next
  case (Cons x xs)
  then obtain n where n: "tl_heap s x = Some n" using linkedD by force
  have en: "entry_of (tl_heap s) x = (x, tm_expire n, tm_client n)" "expiry (tl_heap s) x = tm_expire n"
    using n by (simp_all add: entry_of_def expiry_def)
  show ?case
  proof (cases "tm_expire n < t")
    case False
    with Cons.prems n linked_head [OF Cons.prems] en show ?thesis
      by (subst tick_loop.simps) (simp add: before_def)
  next
    case True
    from tick_loop_due [OF Cons.prems n True, of handler e] obtain u where
      u: "linked u xs" and me: "map (entry_of (tl_heap u)) xs = map (entry_of (tl_heap s)) xs"
      and step: "tick_loop handler t (s, e) =
        (case handler (tm_client n) e of Inl f \<Rightarrow> Some (Inl f) | Inr e \<Rightarrow> tick_loop handler t (u, e))"
      by blast
    have "expiry (tl_heap u) y = expiry (tl_heap s) y" if "y \<in> set xs" for y
      using arg_cong [OF me, of "map due"] that by simp
    then have dw: "dropWhile (\<lambda>y. expiry (tl_heap u) y < t) xs =
        dropWhile (\<lambda>y. expiry (tl_heap s) y < t) xs" by (intro dropWhile_cong) auto
    have "before t (entry_of (tl_heap s) x)" using en True by (simp add: before_def)
    then have eqs: "takeWhile (before t) (map (entry_of (tl_heap s)) (x # xs)) =
        entry_of (tl_heap s) x # takeWhile (before t) (map (entry_of (tl_heap s)) xs)"
      "dropWhile (before t) (map (entry_of (tl_heap s)) (x # xs)) =
        dropWhile (before t) (map (entry_of (tl_heap s)) xs)"
      "dropWhile (\<lambda>y. expiry (tl_heap s) y < t) (x # xs) = dropWhile (\<lambda>y. expiry (tl_heap s) y < t) xs"
      using en True by simp_all
    show ?thesis
    proof (cases "handler (tm_client n) e")
      case (Inl f)
      then show ?thesis unfolding eqs by (simp add: step en)
    next
      case (Inr e1)
      then have "tick_loop handler t (s, e) = tick_loop handler t (u, e1)"
        "\<And>es. run_handlers handler (entry_of (tl_heap s) x # es) e = run_handlers handler es e1"
        by (simp_all add: step en)
      note eqs = eqs this
      show ?thesis unfolding eqs by (rule Cons.IH [OF u, of e1, unfolded me dw])
    qed
  qed
qed

lemma TickOnce_repr:
  assumes "timer_repr s es"
  shows "case run_handlers handler (takeWhile (before t) es) e of
      Inl f \<Rightarrow> TickOnce handler t s e = Some (Inl f)
    | Inr e' \<Rightarrow> \<exists>s'. TickOnce handler t s e = Some (Inr (s', e')) \<and> timer_repr s' (dropWhile (before t) es)"
proof -
  obtain xs where xs: "linked s xs" "es = map (entry_of (tl_heap s)) xs" "sorted (map due es)"
    using assms by (auto simp: timer_repr_def)
  have "sorted (map due (dropWhile (before t) es))"
    using xs(3) dropWhile_before [OF xs(3), of t] sorted_filter by simp
  with tick_loop_linked [OF xs(1), of handler t e] xs(2) show ?thesis
    unfolding TickOnce_def timer_repr_def by (auto split: sum.split) metis
qed

interpretation timers: timer_queue timer_repr timer_avail AddTimer DelTimer ChgTimer TickOnce
proof unfold_locales
  fix s es assume "timer_repr s es"
  then obtain xs where "linked s xs" "es = map (entry_of (tl_heap s)) xs" "sorted (map due es)"
    by (auto simp: timer_repr_def)
  then show "sorted (map due es) \<and> distinct (map fst es)" by (simp add: linked_def comp_def)
next
  fix s es e assume "timer_repr s es" "timer_avail s e" "fst e \<notin> fst ` set es"
  then show "\<exists>s'. AddTimer (fst e) s = Some (Inr s') \<and> timer_repr s' (enqueue e es)"
    using AddTimer_repr by blast
next
  fix s es a t assume "timer_repr s es" "a \<notin> fst ` set es"
  then obtain xs where "linked s xs" "a \<notin> set xs"
    by (auto simp: timer_repr_def image_image)
  then show "ChgTimer a t s = Some (Inr s)"
    using SoftDelTimer_linked(1) by (simp add: ChgTimer_def)
next
  fix s :: timer_list and es t and handler :: "fd \<Rightarrow> 'e \<Rightarrow> 'e res" and st st'
  assume r: "timer_repr s es" and "run_handlers handler (takeWhile (before t) es) st = Inr st'"
  with TickOnce_repr [OF r, of handler t st]
  show "\<exists>s'. TickOnce handler t s st = Some (Inr (s', st')) \<and> timer_repr s' (dropWhile (before t) es)"
    by simp
next
  fix s :: timer_list and es t and handler :: "fd \<Rightarrow> 'e \<Rightarrow> 'e res" and st f
  assume r: "timer_repr s es" and "run_handlers handler (takeWhile (before t) es) st = Inl f"
  with TickOnce_repr [OF r, of handler t st] show "TickOnce handler t s st = Some (Inl f)"
    by simp
qed (auto intro: DelTimer_repr ChgTimer_repr)

end
