(* ===== verification/TimingChat.thy ===== *)
theory TimingChat
  imports ChatLemmas PlainChat TimerQueue
begin

text \<open>
  \<^verbatim>\<open>examples/framework-intro/timing_group_chat_service.cc\<close>: the chat with the signal pipe of
  \<^verbatim>\<open>group_chat_service_sio.cc\<close> in which every client has a timer in the list of
  \<^verbatim>\<open>client_timer_list.h\<close>. The client data have the index of the client's pollfd and a pointer to its
  timer in addition; a pointer to client data is the descriptor that indexes the array.
\<close>

definition kAlrmSlotSec :: nat where "kAlrmSlotSec = 3"
definition kClientAliveSec :: int where "kClientAliveSec = 9"

record timed_client = client_data +
  pollfds_idx :: int
  timer_ptr :: "addr option"

record timed_chat = "timed_client chat" +
  kTimeout :: bool
  kClientTimerList :: timer_list

section \<open>Removing a client\<close>

definition RemoveClientFromPoll :: "fd \<Rightarrow> timed_chat \<Rightarrow> timed_chat res" where
  "RemoveClientFromPoll c s =
     rbind (client_at c s) (\<lambda>d. remove_client kStIdxClient (pollfds_idx d) s)"

text \<open>
  A client that hangs up or fails: its timer is deleted if it has one, the assertion checks that
  its data point to this pollfd, and it is removed.
\<close>

definition lift_list :: "timed_chat \<Rightarrow> timer_list res option \<Rightarrow> timed_chat res" where
  "lift_list s r =
     (case r of None \<Rightarrow> Inl Diverges
      | Some r \<Rightarrow> map_res (\<lambda>tl. s\<lparr>kClientTimerList := tl\<rparr>) r)"

definition client_gone :: "int \<Rightarrow> fd \<Rightarrow> timed_chat \<Rightarrow> timed_chat res" where
  "client_gone fds_i fd s =
     rbind (client_at fd s) (\<lambda>c.
     rbind (case timer_ptr c of None \<Rightarrow> Inr s
            | Some t \<Rightarrow> lift_list s (DelTimer t (kClientTimerList s))) (\<lambda>s.
     if pollfds_idx (kClient s fd) \<noteq> fds_i then Inl AssertFail else RemoveClientFromPoll fd s))"

section \<open>Accepting\<close>

definition timed_accept_client :: "kernel \<Rightarrow> fd \<Rightarrow> timed_chat \<Rightarrow> timed_chat res" where
  "timed_accept_client k my_sockfd s =
     (let ret = k_accept k (kTrace s) my_sockfd; s = call (Accept my_sockfd) s in
      case ret of
        AcceptErr e \<Rightarrow> Inr s
      | Accepted peer_sockfd peer_sockaddr \<Rightarrow>
          if kCntClient s \<ge> kMaxnClient then Inr (call (Close peer_sockfd) s)
          else if \<not> peer_sockfd < kMaxnFD then Inl AssertFail
          else
            rbind (client_at peer_sockfd s) (\<lambda>c.
            let s = s\<lparr>kCntClient := kCntClient s + 1\<rparr>;
                idx = kStIdxClient + kCntClient s - 1;
                c = c\<lparr>client_sockaddr := peer_sockaddr, buf_to_write := None, pollfds_idx := idx\<rparr> in
            rbind (set_client peer_sockfd c s) (\<lambda>s.
            rbind (set_fds idx \<lparr>pfd_fd = peer_sockfd, pfd_events = client_events, pfd_revents = 0\<rparr> s) (\<lambda>s.
            let new_timer = k_new k (kTrace s);
                now = k_time k (kTrace s);
                s = call TimeNow s;
                tl = kClientTimerList s;
                s = s\<lparr>kClientTimerList := tl\<lparr>tl_heap := (tl_heap tl)(new_timer \<mapsto>
                        ClientTimer_new peer_sockfd (now + kClientAliveSec))\<rparr>\<rparr> in
            rbind (set_client peer_sockfd (c\<lparr>timer_ptr := Some new_timer\<rparr>) s) (\<lambda>s.
            lift_list s (AddTimer new_timer (kClientTimerList s)))))))"

definition timed_accept_phase :: "kernel \<Rightarrow> fd \<Rightarrow> timed_chat \<Rightarrow> timed_chat res" where
  "timed_accept_phase k my_sockfd s =
     rbind (fds_at 0 s) (\<lambda>p.
     if revents_has p POLLIN then timed_accept_client k my_sockfd s else Inr s)"

section \<open>The loop over the clients\<close>

text \<open>
  A client that was heard has its timer reset; \<open>ChgTimer\<close> of a null pointer finds nothing.
\<close>

definition timed_read_client :: "kernel \<Rightarrow> fd \<Rightarrow> timed_chat \<Rightarrow> timed_chat res" where
  "timed_read_client k peer_sockfd s =
     rbind (read_client k kStIdxClient peer_sockfd s) (\<lambda>(received, s).
     if \<not> received then Inr s
     else
       let now = k_time k (kTrace s); s = call TimeNow s in
       case timer_ptr (kClient s peer_sockfd) of
         None \<Rightarrow> Inr s
       | Some t \<Rightarrow> lift_list s (ChgTimer t (now + kClientAliveSec) (kClientTimerList s)))"

definition timed_client_turn :: "kernel \<Rightarrow> int \<Rightarrow> timed_chat \<Rightarrow> (int \<times> timed_chat) res" where
  "timed_client_turn k fds_i s =
     rbind (fds_at fds_i s) (\<lambda>client_pollfd.
     if revents_has client_pollfd POLLOUT then Inr (fds_i + 1, s)
     else if revents_has client_pollfd POLLERR then
       map_res (Pair fds_i) (client_gone fds_i (pfd_fd client_pollfd) s)
     else if revents_has client_pollfd POLLRDHUP then
       map_res (Pair fds_i) (client_gone fds_i (pfd_fd client_pollfd) s)
     else if revents_has client_pollfd POLLIN then
       map_res (Pair (fds_i + 1)) (timed_read_client k (pfd_fd client_pollfd) s)
     else Inr (fds_i + 1, s))"

lemma lift_list_Inr:
  "lift_list s r = Inr t \<longleftrightarrow> (\<exists>tl. r = Some (Inr tl) \<and> t = s\<lparr>kClientTimerList := tl\<rparr>)"
  by (auto simp: lift_list_def map_res_eq_simps split: option.splits)

lemma RemoveClientFromPoll_count: "RemoveClientFromPoll fd s = Inr t \<Longrightarrow> kCntClient t = kCntClient s - 1"
  by (auto simp: RemoveClientFromPoll_def rbind_eq_Inr_iff dest: remove_client_count)

lemma client_gone_count: "client_gone i fd s = Inr t \<Longrightarrow> kCntClient t = kCntClient s - 1"
  by (auto simp: client_gone_def rbind_eq_Inr_iff lift_list_Inr split: if_splits option.splits
      dest!: RemoveClientFromPoll_count)

lemma timed_read_client_count: "timed_read_client k fd s = Inr t \<Longrightarrow> kCntClient t = kCntClient s"
  by (auto simp: timed_read_client_def rbind_eq_Inr_iff Let_def lift_list_Inr
      split: if_splits option.splits dest!: read_client_count)

lemma timed_client_turn_measure:
  assumes "timed_client_turn k i s = Inr (i', s')" "i < kStIdxClient + kCntClient s"
  shows "nat (kStIdxClient + kCntClient s' - i') < nat (kStIdxClient + kCntClient s - i)"
  using assms
  by (auto simp: timed_client_turn_def chat_Inr split: if_splits
      dest!: client_gone_count timed_read_client_count)

function timed_client_loop :: "kernel \<Rightarrow> int \<Rightarrow> timed_chat \<Rightarrow> timed_chat res" where
  "timed_client_loop k fds_i s =
     (if fds_i < kStIdxClient + kCntClient s then
        rbind (timed_client_turn k fds_i s) (\<lambda>(fds_i, s). timed_client_loop k fds_i s)
      else Inr s)"
  by pat_completeness auto
termination
  by (relation "measure (\<lambda>(k, i, s). nat (kStIdxClient + kCntClient s - i))")
     (use timed_client_turn_measure in auto)

declare timed_client_loop.simps [simp del]

section \<open>Signals\<close>

definition timed_signal :: "char \<Rightarrow> timed_chat \<Rightarrow> timed_chat" where
  "timed_signal c s =
     (if of_char c = SIGALRM then s\<lparr>kTimeout := True\<rparr>
      else if of_char c = SIGTERM then s\<lparr>kStop := True\<rparr> else s)"

definition timed_signals :: "kernel \<Rightarrow> timed_chat \<Rightarrow> timed_chat res" where
  "timed_signals k s =
     rbind (fds_at 1 s) (\<lambda>p.
     if revents_has p POLLIN then
       (let ret = k_recv k (kTrace s) (pfd_fd p) 1025; s = call (Recv (pfd_fd p) 1025) s in
        case ret of
          RecvErr e \<Rightarrow> Inr s
        | RecvData sigpipe_buf \<Rightarrow>
            if 1025 < length sigpipe_buf then Inl OutOfBounds else Inr (fold timed_signal sigpipe_buf s))
     else Inr s)"

text \<open>
  The two prints of the list walk it, so a broken list makes them fail; the expire handler of every
  timer is \<open>RemoveClientFromPoll\<close>.
\<close>

definition print_list :: "timed_chat \<Rightarrow> timed_chat res" where
  "print_list s =
     (case OutputList (kClientTimerList s) of
        None \<Rightarrow> Inl Diverges | Some (Inl f) \<Rightarrow> Inl f | Some (Inr out) \<Rightarrow> Inr s)"

definition AlarmHandler :: "kernel \<Rightarrow> timed_chat \<Rightarrow> timed_chat res" where
  "AlarmHandler k s =
     rbind (print_list (s\<lparr>kTimeout := False\<rparr>)) (\<lambda>s.
     let t_current = k_time k (kTrace s); s = call TimeNow s in
     rbind (case TickOnce RemoveClientFromPoll t_current (kClientTimerList s) s of
              None \<Rightarrow> Inl Diverges
            | Some r \<Rightarrow> map_res (\<lambda>(tl, s). s\<lparr>kClientTimerList := tl\<rparr>) r) (\<lambda>s.
     rbind (print_list s) (\<lambda>s. Inr (call (Alarm kAlrmSlotSec) s))))"

section \<open>\<open>main\<close>\<close>

definition zero_timed_client :: timed_client where
  "zero_timed_client = \<lparr>client_sockaddr = \<lparr>sin_addr = 0, sin_port = 0\<rparr>, buf_to_write = None,
     recv_buf = replicate kBufSizeRecv NUL, pollfds_idx = 0, timer_ptr = None\<rparr>"

definition timed_init :: "fd \<Rightarrow> fd \<times> fd \<Rightarrow> trace \<Rightarrow> timed_chat" where
  "timed_init my_sockfd kSigPipeFD h =
     \<lparr>kClient = (\<lambda>fd. zero_timed_client), kCntClient = 0,
      kFDS = [\<lparr>pfd_fd = my_sockfd, pfd_events = POLLIN OR POLLERR, pfd_revents = 0\<rparr>,
              \<lparr>pfd_fd = fst kSigPipeFD, pfd_events = POLLIN OR POLLERR, pfd_revents = 0\<rparr>] @
             replicate (nat kMaxnClient) no_client,
      kStop = False, kTrace = h, kTimeout = False,
      kClientTimerList = TimerSortedList_new (\<lambda>a. None)\<rparr>"

definition timed_round :: "kernel \<Rightarrow> fd \<Rightarrow> timed_chat \<Rightarrow> (bool \<times> timed_chat) res" where
  "timed_round k my_sockfd s =
     rbind (poll_fds k (kStIdxClient + kCntClient s) s) (\<lambda>(err, s).
     if err \<noteq> None \<and> err \<noteq> Some EINTR then Inr (True, s)
     else rbind (timed_signals k s) (\<lambda>s.
          rbind (timed_accept_phase k my_sockfd s) (\<lambda>s.
          rbind (timed_client_loop k kStIdxClient s) (\<lambda>s.
          if kTimeout s then map_res (Pair False) (AlarmHandler k s) else Inr (False, s)))))"

fun timed_loop :: "nat \<Rightarrow> kernel \<Rightarrow> fd \<Rightarrow> timed_chat \<Rightarrow> timed_chat res option" where
  "timed_loop fuel k my_sockfd s =
     (if kStop s then Some (Inr s)
      else case fuel of
        0 \<Rightarrow> None
      | Suc n \<Rightarrow>
          (case timed_round k my_sockfd s of
             Inl f \<Rightarrow> Some (Inl f)
           | Inr (brk, s) \<Rightarrow> if brk then Some (Inr s) else timed_loop n k my_sockfd s))"

declare timed_loop.simps [simp del]

definition timed_setup :: "kernel \<Rightarrow> sockaddr_in \<Rightarrow> trace + (fd \<times> timed_chat)" where
  "timed_setup k addr =
     (case CreateSocketAndListen k addr kMaxnClient [] of
        Inl h \<Rightarrow> Inl h
      | Inr (my_sockfd, h) \<Rightarrow>
          (case k_socketpair k h of
             None \<Rightarrow> Inl (h @ [SocketPair])
           | Some kSigPipeFD \<Rightarrow>
               (case AddSignal k SIGURG (h @ [SocketPair]) of
                  Inl h \<Rightarrow> Inl h
                | Inr h \<Rightarrow>
                    (case AddSignal k SIGTERM h of
                       Inl h \<Rightarrow> Inl h
                     | Inr h \<Rightarrow>
                         (case AddSignal k SIGALRM h of
                            Inl h \<Rightarrow> Inl h
                          | Inr h \<Rightarrow> Inr (my_sockfd,
                              timed_init my_sockfd kSigPipeFD (h @ [Alarm kAlrmSlotSec])))))))"

text \<open>
  The destructor of the list runs when \<open>main\<close> has returned.
\<close>

definition timed_main :: "nat \<Rightarrow> kernel \<Rightarrow> sockaddr_in \<Rightarrow> (int \<times> trace) res option" where
  "timed_main fuel k addr =
     (case timed_setup k addr of
        Inl h \<Rightarrow> Some (Inr (1, h))
      | Inr (my_sockfd, s) \<Rightarrow>
          (case timed_loop fuel k my_sockfd s of
             None \<Rightarrow> None
           | Some (Inl f) \<Rightarrow> Some (Inl f)
           | Some (Inr s) \<Rightarrow>
               (case TimerSortedList_delete (kClientTimerList s) of
                  None \<Rightarrow> Some (Inl Diverges)
                | Some r \<Rightarrow> Some (map_res (\<lambda>_. (0, kTrace s @ [Close my_sockfd])) r))))"

end
