(* ===== verification/TimerWalks.thy ===== *)
theory TimerWalks
  imports TimerQueue
begin

text \<open>
  The walks over the whole timer list: printing it and destroying it; and the node of a new
  timer, which may be written while the list stays as it is.
\<close>

lemma output_loop_seg:
  "seg h p cur xs q None \<Longrightarrow>
     output_loop h (cur, out) = Some (Inr (out @ map (\<lambda>x. expiry h x) xs))"
proof (induction xs arbitrary: p cur out)
  case Nil
  then show ?case by (subst output_loop.simps) simp
next
  case (Cons x xs)
  then obtain n where n: "cur = Some x" "h x = Some n" "seg h (Some x) (tm_next n) xs q None" by auto
  from Cons.IH [OF n(3)] n(1,2) show ?case
    by (subst output_loop.simps) (simp add: expiry_def)
qed

text \<open>What is printed are the times of the queue.\<close>

lemma OutputList_repr: "timer_repr s es \<Longrightarrow> OutputList s = Some (Inr (map due es))"
  by (auto simp: timer_repr_def linked_def OutputList_def output_loop_seg comp_def)

text \<open>The destructor frees exactly the nodes of the list, each once.\<close>

lemma delete_seg:
  "seg (tl_heap s) p (tl_head s) xs q None \<Longrightarrow> distinct xs \<Longrightarrow>
     \<exists>s'. TimerSortedList_delete s = Some (Inr s') \<and> tl_head s' = None \<and>
       tl_heap s' = (\<lambda>x. if x \<in> set xs then None else tl_heap s x)"
proof (induction xs arbitrary: p s)
  case Nil
  then show ?case by (subst TimerSortedList_delete.simps) simp
next
  case (Cons x xs)
  then obtain n where n: "tl_head s = Some x" "tl_heap s x = Some n"
    "seg (tl_heap s) (Some x) (tm_next n) xs q None" "x \<notin> set xs" by auto
  let ?s = "free_timer x (s\<lparr>tl_head := tm_next n\<rparr>)"
  have "seg (tl_heap ?s) (Some x) (tl_head ?s) xs q None" using n(3,4) by (simp add: free_timer_def)
  from Cons.IH [OF this] Cons.prems(2) obtain s' where
    s': "TimerSortedList_delete ?s = Some (Inr s')" "tl_head s' = None"
      "tl_heap s' = (\<lambda>y. if y \<in> set xs then None else tl_heap ?s y)" by auto
  have "TimerSortedList_delete s = Some (Inr s')"
    using n(1,2) s'(1) by (subst TimerSortedList_delete.simps) simp
  with s'(2,3) show ?case by (auto simp: free_timer_def)
qed

lemma TimerSortedList_delete_repr:
  assumes "timer_repr s es"
  shows "\<exists>s'. TimerSortedList_delete s = Some (Inr s') \<and> tl_head s' = None \<and>
    tl_heap s' = (\<lambda>x. if x \<in> fst ` set es then None else tl_heap s x)"
proof -
  obtain xs q where xs: "seg (tl_heap s) None (tl_head s) xs q None" "distinct xs"
    "es = map (entry_of (tl_heap s)) xs"
    using assms by (auto simp: timer_repr_def linked_def)
  from delete_seg [OF xs(1,2)] xs(3) show ?thesis by (simp add: image_image)
qed

text \<open>A new node beside the list.\<close>

lemma timer_repr_new:
  assumes "timer_repr s es" "a \<notin> fst ` set es"
  shows "timer_repr (s\<lparr>tl_heap := (tl_heap s)(a \<mapsto> n)\<rparr>) es"
proof -
  obtain xs where xs: "linked s xs" "es = map (entry_of (tl_heap s)) xs" "sorted (map due es)"
    using assms(1) by (auto simp: timer_repr_def)
  then have a: "a \<notin> set xs" using assms(2) by (auto simp: image_image)
  then have "map (entry_of ((tl_heap s)(a \<mapsto> n))) xs = map (entry_of (tl_heap s)) xs"
    by (auto simp: entry_of_def)
  then show ?thesis using xs a unfolding timer_repr_def
    by (intro exI [of _ xs]) (simp add: linked_def)
qed

lemma AddTimer_new:
  assumes "timer_repr s es" "a \<notin> fst ` set es"
  shows "\<exists>u. AddTimer a (s\<lparr>tl_heap := (tl_heap s)(a \<mapsto> ClientTimer_new c t)\<rparr>) = Some (Inr u) \<and>
    timer_repr u (enqueue (a, t, c) es)"
  using timers.add_ok [OF timer_repr_new [OF assms, of "ClientTimer_new c t"], of "(a, t, c)"] assms(2)
  by (simp add: timer_avail_def)

lemma timer_repr_empty: "timer_repr (TimerSortedList_new h) []"
  by (simp add: timer_repr_def linked_def TimerSortedList_new_def)

end
