(* ===== verification/TimingLemmas.thy ===== *)
theory TimingLemmas
  imports TimingChat TimerWalks ChatRounds
begin

text \<open>
  The state of the timing chat: its room, its timers and the two pointers that tie them together,
  and the removal of a client through its own index, as the expire handler does it.
\<close>

lemma timed_call_simps [simp]:
  "kClientTimerList (call c s) = kClientTimerList s" "kTimeout (call c s) = kTimeout s"
  by (simp_all add: call_def)

section \<open>The state\<close>

abbreviation client_of :: "entry \<Rightarrow> fd" where "client_of e \<equiv> snd (snd e)"

definition fds :: "timed_chat \<Rightarrow> fd list" where
  "fds s = map pfd_fd (members kStIdxClient s)"

text \<open>Every member has exactly one timer in the list, and its data point to it.\<close>

definition timed_ok :: "entry list \<Rightarrow> timed_chat \<Rightarrow> bool" where
  "timed_ok es s \<longleftrightarrow>
     room_ok kStIdxClient s \<and> distinct (fds s) \<and> timer_repr (kClientTimerList s) es \<and>
     client_of ` set es = set (fds s) \<and> (\<forall>e \<in> set es. timer_ptr (kClient s (client_of e)) = Some (fst e))"

text \<open>The pollfd that a member's index points to has the member's descriptor.\<close>

definition findable :: "timed_chat \<Rightarrow> bool" where
  "findable s \<longleftrightarrow> (\<forall>fd \<in> set (fds s). let i = pollfds_idx (kClient s fd) in
     kStIdxClient \<le> i \<and> i < kStIdxClient + kMaxnClient \<and> pfd_fd (kFDS s ! nat i) = fd)"

lemma timed_ok_room: "timed_ok es s \<Longrightarrow> room_ok kStIdxClient s"
  by (simp add: timed_ok_def)

lemma timed_ok_clients:
  assumes "timed_ok es s"
  shows "distinct (map client_of es)" "mset (map client_of es) = mset (fds s)"
proof -
  have d: "distinct (map fst es)" using assms timers.repr_sorted by (auto simp: timed_ok_def)
  have "inj_on client_of (set es)"
  proof (rule inj_onI)
    fix e e' assume e: "e \<in> set es" "e' \<in> set es" "client_of e = client_of e'"
    then have "timer_ptr (kClient s (client_of e)) = Some (fst e)"
      "timer_ptr (kClient s (client_of e)) = Some (fst e')"
      using assms unfolding timed_ok_def by metis+
    then have "fst e = fst e'" by simp
    with d e(1,2) show "e = e'" by (metis distinct_map inj_onD)
  qed
  with d show *: "distinct (map client_of es)" by (simp add: distinct_map)
  show "mset (map client_of es) = mset (fds s)"
    using * assms by (intro set_eq_iff_mset_eq_distinct [THEN iffD1]) (auto simp: timed_ok_def)
qed

text \<open>The timer of a member, and the queue without it.\<close>

lemma timed_ok_timer:
  assumes "timed_ok es s" "fd \<in> set (fds s)"
  obtains a d where "(a, d, fd) \<in> set es" "timer_ptr (kClient s fd) = Some a"
proof -
  have "fd \<in> client_of ` set es" using assms by (simp add: timed_ok_def)
  then obtain a d where "(a, d, fd) \<in> set es" by auto
  moreover from this have "timer_ptr (kClient s fd) = Some a" using assms(1) by (force simp: timed_ok_def)
  ultimately show thesis using that by blast
qed

lemma without_clients:
  assumes "timed_ok es s" "(a, d, fd) \<in> set es"
  shows "client_of ` set (without a es) = set (fds s) - {fd}"
proof -
  have "distinct (map fst es)" using assms(1) timers.repr_sorted by (auto simp: timed_ok_def)
  then have "set (without a es) = set es - {(a, d, fd)}"
    using assms(2) by (auto simp: without_def dest: eq_key_imp_eq_value)
  moreover have "inj_on client_of (set es)"
    using timed_ok_clients(1) [OF assms(1)] by (simp add: distinct_map)
  then have "client_of ` (set es - {(a, d, fd)}) = client_of ` set es - client_of ` {(a, d, fd)}"
    using assms(2) by (intro inj_on_image_set_diff) auto
  ultimately show ?thesis using assms(1) by (simp add: timed_ok_def)
qed

text \<open>The array has four elements, and the members are the first of the last two.\<close>

lemma room_shape:
  assumes "room_ok kStIdxClient s"
  obtains (empty) a b c d where "kFDS s = [a, b, c, d]" "kCntClient s = 0" "members kStIdxClient s = []"
  | (one) a b c d where "kFDS s = [a, b, c, d]" "kCntClient s = 1" "members kStIdxClient s = [c]"
      "valid_fd (pfd_fd c)"
  | (two) a b c d where "kFDS s = [a, b, c, d]" "kCntClient s = 2" "members kStIdxClient s = [c, d]"
      "valid_fd (pfd_fd c)" "valid_fd (pfd_fd d)"
proof -
  have "length (kFDS s) = 4" using assms by (simp add: room_ok_def kStIdxClient_def kMaxnClient_def)
  then obtain a b c d where fds: "kFDS s = [a, b, c, d]"
    by (auto simp: length_Suc_conv numeral_eq_Suc)
  have "kCntClient s = 0 \<or> kCntClient s = 1 \<or> kCntClient s = 2"
    using assms by (auto simp: room_ok_def kMaxnClient_def)
  moreover have "members kStIdxClient s = take (nat (kCntClient s)) [c, d]"
    by (simp add: members_def fds kStIdxClient_def)
  moreover have "\<forall>p \<in> set (members kStIdxClient s). valid_fd (pfd_fd p)"
    using assms by (simp add: room_ok_def)
  ultimately show thesis using fds empty one two by auto
qed

section \<open>Removing through the index\<close>

definition removed :: "fd \<Rightarrow> timed_chat \<Rightarrow> timed_chat \<Rightarrow> bool" where
  "removed fd s t \<longleftrightarrow>
     room_ok kStIdxClient t \<and> add_mset fd (mset (fds t)) = mset (fds s) \<and>
     kTrace t = kTrace s @ [Close fd] \<and> kClientTimerList t = kClientTimerList s \<and>
     kStop t = kStop s \<and> kTimeout t = kTimeout s \<and>
     (\<forall>c. c \<noteq> fd \<longrightarrow> kClient t c = kClient s c)"

lemma RemoveClientFromPoll_findable:
  assumes "room_ok kStIdxClient s" "distinct (fds s)" "findable s" "fd \<in> set (fds s)"
  shows "\<exists>t. RemoveClientFromPoll fd s = Inr t \<and> removed fd s t \<and> findable t"
  using assms(1)
proof (cases rule: room_shape)
  case (empty a b c d)
  with assms(4) show ?thesis by (simp add: fds_def)
next
  case (one a b c d)
  let ?i = "pollfds_idx (kClient s fd)"
  have fd: "fd = pfd_fd c" using assms(4) one by (simp add: fds_def)
  have "?i = 2 \<or> ?i = 3 \<and> pfd_fd d = fd"
    using assms(3) one fd by (auto simp: findable_def fds_def Let_def kStIdxClient_def kMaxnClient_def)
  with one fd show ?thesis
    by (auto simp: RemoveClientFromPoll_def member_client_at remove_client_def ReplaceAndClosePollfd_def
        fds_at_def set_fds_def member_set_client kStIdxClient_def removed_def room_ok_def members_def fds_def
        findable_def kMaxnClient_def)
next
  case (two a b c d)
  let ?i = "pollfds_idx (kClient s fd)"
  have idx: "pollfds_idx (kClient s (pfd_fd c)) = 2" "pollfds_idx (kClient s (pfd_fd d)) = 3"
    "pfd_fd c \<noteq> pfd_fd d"
    using assms(2,3) two
    by (auto simp: findable_def fds_def Let_def kStIdxClient_def kMaxnClient_def nth_Cons' split: if_splits)
  have "fd = pfd_fd c \<or> fd = pfd_fd d" using assms(4) two by (auto simp: fds_def)
  then show ?thesis
    using two idx
    by (auto simp: RemoveClientFromPoll_def member_client_at remove_client_def ReplaceAndClosePollfd_def
        fds_at_def set_fds_def member_set_client kStIdxClient_def removed_def room_ok_def members_def fds_def
        findable_def kMaxnClient_def take_Suc numeral_eq_Suc)
qed

section \<open>The expire handlers of a tick\<close>

lemma removedD:
  assumes "removed fd s t" "distinct (fds s)"
  shows "distinct (fds t)" "set (fds t) = set (fds s) - {fd}" "fd \<in> set (fds s)"
proof -
  have m: "mset (fd # fds t) = mset (fds s)" using assms(1) by (simp add: removed_def)
  then have "distinct (fd # fds t)" using assms(2) mset_eq_imp_distinct_iff by blast
  moreover have "set (fd # fds t) = set (fds s)" using m by (rule mset_eq_setD)
  ultimately show "distinct (fds t)" "set (fds t) = set (fds s) - {fd}" "fd \<in> set (fds s)" by auto
qed

lemma run_handlers_remove:
  assumes "room_ok kStIdxClient s" "distinct (fds s)" "findable s"
    "distinct (map client_of xs)" "client_of ` set xs \<subseteq> set (fds s)"
  shows "\<exists>t. run_handlers RemoveClientFromPoll xs s = Inr t \<and> room_ok kStIdxClient t \<and> findable t \<and>
    distinct (fds t) \<and> set (fds t) = set (fds s) - client_of ` set xs \<and>
    kTrace t = kTrace s @ map (\<lambda>e. Close (client_of e)) xs \<and>
    kClientTimerList t = kClientTimerList s \<and> kStop t = kStop s \<and> kTimeout t = kTimeout s \<and>
    (\<forall>c. c \<notin> client_of ` set xs \<longrightarrow> kClient t c = kClient s c)"
  using assms
proof (induction xs arbitrary: s)
  case (Cons e xs)
  let ?fd = "client_of e"
  obtain u where u: "RemoveClientFromPoll ?fd s = Inr u" "removed ?fd s u" "findable u"
    using RemoveClientFromPoll_findable [OF Cons.prems(1-3), of ?fd] Cons.prems(5) by auto
  note d = removedD [OF u(2) Cons.prems(2)]
  have "client_of ` set xs \<subseteq> set (fds u)" 
    using Cons.prems(4,5) unfolding d(2) by (simp add: subset_Diff_insert)
  then obtain t where t: "run_handlers RemoveClientFromPoll xs u = Inr t" "room_ok kStIdxClient t" "findable t"
    "distinct (fds t)" "set (fds t) = set (fds u) - client_of ` set xs"
    "kTrace t = kTrace u @ map (\<lambda>e. Close (client_of e)) xs"
    "kClientTimerList t = kClientTimerList u" "kStop t = kStop u" "kTimeout t = kTimeout u"
    "\<forall>c. c \<notin> client_of ` set xs \<longrightarrow> kClient t c = kClient u c"
    using Cons.IH [of u] u d Cons.prems(4) by (auto simp: removed_def)
  have "set (fds t) = set (fds s) - client_of ` set (e # xs)" using t(5) d(2) by auto
  with u t show ?case by (auto simp: removed_def)
qed simp

text \<open>The alarm, from every state whose members the indices find.\<close>

lemma AlarmHandler_effect:
  fixes k :: kernel
  assumes "timed_ok es s" "findable s"
  defines "now \<equiv> k_time k (kTrace s)"
  shows "\<exists>t. AlarmHandler k s = Inr t \<and> timed_ok (filter (\<lambda>e. now \<le> due e) es) t \<and> findable t \<and>
    \<not> kTimeout t \<and> kStop t = kStop s \<and>
    kTrace t = kTrace s @ TimeNow # map (\<lambda>e. Close (client_of e)) (filter (\<lambda>e. due e < now) es) @ [Alarm kAlrmSlotSec]"
proof -
  let ?s = "call TimeNow (s\<lparr>kTimeout := False\<rparr>)" and ?out = "filter (\<lambda>e. due e < now) es" and ?in = "filter (\<lambda>e. now \<le> due e) es"
  have repr: "timer_repr (kClientTimerList s) es" using assms(1) by (simp add: timed_ok_def)
  have sorted: "sorted (map due es)" using timers.repr_sorted [OF repr] by simp
  have fds: "fds ?s = fds s" "findable ?s = findable s"
    by (simp_all add: fds_def findable_def members_def call_def)
  have print: "print_list u = Inr u" if "timer_repr (kClientTimerList u) xs" for u xs
    using OutputList_repr [OF that] by (simp add: print_list_def)
  have "room_ok kStIdxClient ?s" using timed_ok_room [OF assms(1)] by (simp add: room_ok_def members_def call_def)
  moreover have "distinct (map client_of ?out)"
    using timed_ok_clients(1) [OF assms(1)] by (simp add: distinct_map_filter)
  moreover have "client_of ` set ?out \<subseteq> set (fds ?s)" using assms(1) fds by (auto simp: timed_ok_def)
  ultimately obtain t where t: "run_handlers RemoveClientFromPoll ?out ?s = Inr t" "room_ok kStIdxClient t" "findable t"
    "distinct (fds t)" "set (fds t) = set (fds s) - client_of ` set ?out"
    "kTrace t = kTrace ?s @ map (\<lambda>e. Close (client_of e)) ?out"
    "kClientTimerList t = kClientTimerList s" "kStop t = kStop s" "\<not> kTimeout t"
    "\<forall>c. c \<notin> client_of ` set ?out \<longrightarrow> kClient t c = kClient s c"
    using run_handlers_remove [of ?s ?out] assms(1,2) fds by (auto simp: timed_ok_def)
  obtain tl where tl: "TickOnce RemoveClientFromPoll now (kClientTimerList s) ?s = Some (Inr (tl, t))" "timer_repr tl ?in"
    using timers.tick_ok [OF repr, of RemoveClientFromPoll now ?s t] t(1)
      takeWhile_before [OF sorted, of now] dropWhile_before [OF sorted, of now] by auto
  let ?t = "call (Alarm kAlrmSlotSec) (t\<lparr>kClientTimerList := tl\<rparr>)"
  have "AlarmHandler k s = Inr ?t"
    using tl print [of "s\<lparr>kTimeout := False\<rparr>"] print [of "t\<lparr>kClientTimerList := tl\<rparr>"] repr
    by (simp add: AlarmHandler_def Let_def now_def [symmetric] call_def)
  moreover have "timed_ok ?in ?t"
  proof -
    have same: "fds ?t = fds t" by (simp add: fds_def members_def)
    have disj: "client_of ` set ?in = set (fds s) - client_of ` set ?out"
    proof -
      have "inj_on client_of (set es)" using timed_ok_clients(1) [OF assms(1)] by (simp add: distinct_map)
      then have "client_of ` (set es - set ?out) = client_of ` set es - client_of ` set ?out"
        by (intro inj_on_image_set_diff) auto
      moreover have "set es - set ?out = set ?in" by auto
      ultimately show ?thesis using assms(1) by (simp add: timed_ok_def)
    qed
    have "\<forall>e \<in> set ?in. client_of e \<notin> client_of ` set ?out" using disj by blast
    then show ?thesis
      using t tl(2) assms(1) disj same by (auto simp: timed_ok_def room_ok_def members_def call_def)
  qed
  moreover have "findable ?t" using t(3) by (simp add: findable_def fds_def members_def call_def)
  ultimately show ?thesis using t by (intro exI [of _ ?t]) simp
qed

end
