(* ===== verification/TimingSteps.thy ===== *)
theory TimingSteps
  imports TimingLemmas
begin

text \<open>Joining, speaking and leaving in the timing chat, on its room, its timers and its indices.\<close>

section \<open>Indices in step with the pollfds\<close>

definition indexed :: "timed_chat \<Rightarrow> bool" where
  "indexed s \<longleftrightarrow> (\<forall>n < length (fds s). pollfds_idx (kClient s (fds s ! n)) = kStIdxClient + int n)"

lemma fds_nth: "n < length (fds s) \<Longrightarrow> fds s ! n = pfd_fd (members kStIdxClient s ! n)"
  by (simp add: fds_def)

lemma indexed_findable:
  assumes "room_ok kStIdxClient s" "indexed s"
  shows "findable s"
  unfolding findable_def Let_def
proof
  fix fd assume "fd \<in> set (fds s)"
  then obtain n where n: "n < length (fds s)" "fds s ! n = fd" by (auto simp: in_set_conv_nth)
  then have m: "n < length (members kStIdxClient s)" by (simp add: fds_def)
  have "int n < kMaxnClient"
    using m length_members [OF assms(1)] assms(1) by (auto simp: room_ok_def)
  moreover have "pfd_fd (kFDS s ! nat (kStIdxClient + int n)) = fd"
    using n(2) members_nth [OF assms(1) m] m by (simp add: fds_def)
  ultimately show "kStIdxClient \<le> pollfds_idx (kClient s fd) \<and>
      pollfds_idx (kClient s fd) < kStIdxClient + kMaxnClient \<and>
      pfd_fd (kFDS s ! nat (pollfds_idx (kClient s fd))) = fd"
    using n assms(2) by (auto simp: indexed_def)
qed

section \<open>Joining\<close>

lemma timed_accept_joins:
  assumes "timed_ok es s" "k_accept k (kTrace s) l = Accepted p a" "kCntClient s < kMaxnClient" "valid_fd p"
    "p \<notin> set (fds s)" "k_new k (kTrace s @ [Accept l]) \<notin> fst ` set es"
  defines "new \<equiv> k_new k (kTrace s @ [Accept l])" and "now \<equiv> k_time k (kTrace s @ [Accept l])"
  shows "\<exists>t. timed_accept_client k l s = Inr t \<and> timed_ok (enqueue (new, now + 9, p) es) t \<and>
    fds t = fds s @ [p] \<and> kTrace t = kTrace s @ [Accept l, TimeNow] \<and>
    pollfds_idx (kClient t p) = kStIdxClient + kCntClient s \<and>
    kCntClient t = kCntClient s + 1 \<and> kStop t = kStop s \<and> kTimeout t = kTimeout s \<and>
    (\<forall>c. c \<noteq> p \<longrightarrow> kClient t c = kClient s c)"
proof -
  have ok: "room_ok kStIdxClient s" by (rule timed_ok_room [OF assms(1)])
  have repr: "timer_repr (kClientTimerList s) es" using assms(1) by (simp add: timed_ok_def)
  let ?tl = "(kClientTimerList s)\<lparr>tl_heap := (tl_heap (kClientTimerList s))(new \<mapsto> ClientTimer_new p (now + 9))\<rparr>"
  obtain tl where tl: "AddTimer new ?tl = Some (Inr tl)" "timer_repr tl (enqueue (new, now + 9, p) es)"
    using AddTimer_new [OF repr, of new p "now + 9"] assms(6) by (auto simp: new_def)
  let ?i = "kStIdxClient + kCntClient s"
  let ?c = "(kClient s p)\<lparr>client_sockaddr := a, buf_to_write := None, pollfds_idx := ?i, timer_ptr := Some new\<rparr>"
  let ?t = "s\<lparr>kClient := (kClient s)(p := ?c), kCntClient := kCntClient s + 1,
    kFDS := (kFDS s)[nat ?i := new_pollfd p], kTrace := kTrace s @ [Accept l, TimeNow], kClientTimerList := tl\<rparr>"
  have i: "0 \<le> ?i" "?i < int (length (kFDS s))" using ok assms(3) by (auto simp: room_ok_def)
  have "p < kMaxnFD" using assms(4) by (simp add: valid_fd_def)
  then have "timed_accept_client k l s = Inr ?t"
    using assms(2-4) i tl(1)
    by (simp add: timed_accept_client_def Let_def member_client_at member_set_client set_fds_def lift_list_def
        new_def now_def kClientAliveSec_def new_pollfd_def call_def)
  moreover have room: "room_ok kStIdxClient ?t" by (rule room_ok_added [OF ok assms(3,4)]) simp_all
  moreover have m: "members kStIdxClient ?t = members kStIdxClient s @ [new_pollfd p]"
    by (rule members_added [OF ok assms(3)]) simp_all
  then have f: "fds ?t = fds s @ [p]" by (simp add: fds_def new_pollfd_def)
  moreover have "timed_ok (enqueue (new, now + 9, p) es) ?t"
    using assms(1,5) room f tl(2) by (auto simp: timed_ok_def set_enqueue)
  ultimately show ?thesis by (intro exI [of _ ?t]) simp
qed

section \<open>Speaking\<close>

lemma timed_ok_upd [member_simps]:
  "fds (s\<lparr>kTrace := h\<rparr>) = fds s" "fds (call x s) = fds s" "fds (s\<lparr>kClientTimerList := q\<rparr>) = fds s"
  "fds (s\<lparr>kClient := c\<rparr>) = fds s" "room_ok st (s\<lparr>kClientTimerList := q\<rparr>) = room_ok st s"
  by (simp_all add: fds_def members_def room_ok_def)

lemma timed_read_client_heard:
  assumes "timed_ok es s" "recv_bounded k" "fd \<in> set (fds s)" "client_says k (kTrace s) fd \<noteq> []"
  defines "calls \<equiv> relay k (kTrace s) fd (members kStIdxClient s)"
  shows "\<exists>t a d. timed_read_client k fd s = Inr t \<and> (a, d, fd) \<in> set es \<and>
    timed_ok (enqueue (a, k_time k (kTrace s @ calls) + 9, fd) (without a es)) t \<and>
    members kStIdxClient t = members kStIdxClient s \<and> kFDS t = kFDS s \<and> kTrace t = kTrace s @ calls @ [TimeNow] \<and>
    (\<forall>c. pollfds_idx (kClient t c) = pollfds_idx (kClient s c))"
proof -
  have ok: "room_ok kStIdxClient s" by (rule timed_ok_room [OF assms(1)])
  have repr: "timer_repr (kClientTimerList s) es" using assms(1) by (simp add: timed_ok_def)
  obtain a d where e: "(a, d, fd) \<in> set es" and ptr: "timer_ptr (kClient s fd) = Some a"
    using timed_ok_timer [OF assms(1,3)] by blast
  have v: "valid_fd fd" using assms(3) member_valid [OF ok] by (auto simp: fds_def)
  let ?now = "k_time k (kTrace s @ calls)"
  obtain c where c: "read_client k kStIdxClient fd s =
      Inr (True, s\<lparr>kClient := (kClient s)(fd := c), kTrace := kTrace s @ calls\<rparr>)"
    "c = (kClient s fd)\<lparr>recv_buf := recv_buf c\<rparr>"
    using read_client_members [OF ok assms(2) v] assms(4) by (auto simp: calls_def)
  have keep: "timer_ptr c = timer_ptr (kClient s fd)" "pollfds_idx c = pollfds_idx (kClient s fd)"
    by (subst c(2), simp)+
  obtain tl where tl: "ChgTimer a (?now + 9) (kClientTimerList s) = Some (Inr tl)"
    "timer_repr tl (enqueue (a, ?now + 9, fd) (without a es))"
    using timers.chg_ok [OF repr e] by blast
  let ?t = "s\<lparr>kClient := (kClient s)(fd := c), kTrace := kTrace s @ calls @ [TimeNow], kClientTimerList := tl\<rparr>"
  have "timed_read_client k fd s = Inr ?t"
    using c(1) ptr keep tl(1)
    by (simp add: timed_read_client_def Let_def lift_list_def kClientAliveSec_def call_def)
  moreover have "timed_ok (enqueue (a, ?now + 9, fd) (without a es)) ?t"
  proof -
    have "client_of ` set (without a es) = set (fds s) - {fd}" by (rule without_clients [OF assms(1) e])
    with assms(1,3) tl(2) keep ptr show ?thesis
      by (auto simp: timed_ok_def set_enqueue member_simps without_def)
  qed
  moreover have "kFDS ?t = kFDS s" "members kStIdxClient ?t = members kStIdxClient s" by (simp_all add: members_def)
  ultimately show ?thesis using e keep(2) by (intro exI [of _ ?t] exI [of _ a] exI [of _ d]) simp
qed

section \<open>Leaving\<close>

text \<open>
  A client that has left: if its index is its place, it is removed together with its timer, and
  the last member moves to its place with its old index; otherwise the assertion aborts.
\<close>

lemma client_gone_in_place:
  assumes "timed_ok es s" "n < length (fds s)" "pollfds_idx (kClient s (fds s ! n)) = kStIdxClient + int n"
  shows "\<exists>t a d. client_gone (kStIdxClient + int n) (fds s ! n) s = Inr t \<and> (a, d, fds s ! n) \<in> set es \<and>
    timed_ok (without a es) t \<and> members kStIdxClient t = swap_remove n (members kStIdxClient s) \<and>
    kTrace t = kTrace s @ [Close (fds s ! n)] \<and> (\<forall>c. c \<noteq> fds s ! n \<longrightarrow> kClient t c = kClient s c) \<and>
    kStop t = kStop s \<and> kTimeout t = kTimeout s"
proof -
  let ?fd = "fds s ! n" and ?m = "members kStIdxClient s"
  have ok: "room_ok kStIdxClient s" by (rule timed_ok_room [OF assms(1)])
  have n: "n < length ?m" "?fd = pfd_fd (?m ! n)" using assms(2) by (simp_all add: fds_def)
  have repr: "timer_repr (kClientTimerList s) es" using assms(1) by (simp add: timed_ok_def)
  obtain a d where e: "(a, d, ?fd) \<in> set es" and ptr: "timer_ptr (kClient s ?fd) = Some a"
    using timed_ok_timer [OF assms(1) nth_mem [OF assms(2)]] by blast
  obtain q where q: "DelTimer a (kClientTimerList s) = Some (Inr q)" "timer_repr q (without a es)"
    using timers.del_ok [OF repr, of a] by blast
  let ?s = "s\<lparr>kClientTimerList := q\<rparr>"
  have s: "room_ok kStIdxClient ?s" "members kStIdxClient ?s = ?m" using ok by (simp_all add: room_ok_def members_def)
  have v: "valid_fd ?fd" using member_valid [OF ok, of "?m ! n"] n by simp
  obtain c where "remove_client kStIdxClient (kStIdxClient + int n) ?s = Inr (?s\<lparr>kClient := (kClient s)(?fd := c),
      kFDS := (kFDS s)[nat (kStIdxClient + int n) := last ?m], kCntClient := kCntClient s - 1,
      kTrace := kTrace s @ [Close ?fd]\<rparr>)" (is "_ = Inr ?t")
    using remove_client_members [OF s(1), of n "kStIdxClient + int n"] n s(2) by auto
  then have run: "client_gone (kStIdxClient + int n) ?fd s = Inr ?t"
    using q(1) ptr v assms(3) by (simp add: client_gone_def member_client_at lift_list_def RemoveClientFromPoll_def)
  have room: "room_ok kStIdxClient ?t" using room_ok_removed [OF s(1), of n] n s(2) by simp
  have m: "members kStIdxClient ?t = swap_remove n ?m"
    using members_removed [OF ok n(1)] by (simp add: members_def)
  have fm: "fds ?t = map pfd_fd (swap_remove n ?m)" unfolding fds_def [of ?t] m ..
  have "add_mset ?fd (mset (fds ?t)) = mset (fds s)"
    using arg_cong [OF mset_swap_remove [OF n(1)], of "image_mset pfd_fd"]
    by (subst fm, subst n(2)) (simp add: fds_def)
  then have ms: "mset (?fd # fds ?t) = mset (fds s)" by simp
  then have "distinct (?fd # fds ?t)" using assms(1) mset_eq_imp_distinct_iff unfolding timed_ok_def by blast
  moreover have "set (?fd # fds ?t) = set (fds s)" using ms by (rule mset_eq_setD)
  ultimately have fd: "distinct (fds ?t)" "set (fds ?t) = set (fds s) - {?fd}" by auto
  have clients: "client_of ` set (without a es) = set (fds ?t)" using without_clients [OF assms(1) e] fd(2) by simp
  have "timed_ok (without a es) ?t"
    unfolding timed_ok_def
  proof (intro conjI ballI)
    fix x assume x: "x \<in> set (without a es)"
    then have "client_of x \<noteq> ?fd" using clients fd(2) by auto
    with x assms(1) show "timer_ptr (kClient ?t (client_of x)) = Some (fst x)"
      by (auto simp: timed_ok_def without_def)
  qed (use room fd clients q(2) in auto)
  with run m e show ?thesis by (intro exI [of _ ?t] exI [of _ a] exI [of _ d]) simp
qed

lemma client_gone_displaced:
  assumes "timed_ok es s" "fd \<in> set (fds s)" "pollfds_idx (kClient s fd) \<noteq> i"
  shows "client_gone i fd s = Inl AssertFail"
proof -
  have repr: "timer_repr (kClientTimerList s) es" using assms(1) by (simp add: timed_ok_def)
  obtain a where ptr: "timer_ptr (kClient s fd) = Some a" using timed_ok_timer [OF assms(1,2)] by blast
  obtain q where "DelTimer a (kClientTimerList s) = Some (Inr q)" using timers.del_ok [OF repr, of a] by blast
  moreover have "valid_fd fd" using assms(2) member_valid [OF timed_ok_room [OF assms(1)]] by (auto simp: fds_def)
  ultimately show ?thesis using ptr assms(3) by (simp add: client_gone_def member_client_at lift_list_def)
qed

text \<open>
  The first of two clients leaves: the other one moves to its place, and its index stays behind.
\<close>

lemma first_of_two_leaves:
  assumes "timed_ok es s" "indexed s" "members kStIdxClient s = [p, q]" "\<not> stays p"
  obtains t a where "timed_client_turn k 2 s = Inr (2, t)" "timed_ok (without a es) t"
    "members kStIdxClient t = [q]" "pollfds_idx (kClient t (pfd_fd q)) = 3"
proof -
  have st: "kStIdxClient = 2" by (simp add: kStIdxClient_def)
  have f: "fds s = [pfd_fd p, pfd_fd q]" using assms(3) by (simp add: fds_def)
  have idx: "pollfds_idx (kClient s (pfd_fd p)) = 2" "pollfds_idx (kClient s (pfd_fd q)) = 3"
    using assms(2) f by (auto simp: indexed_def st nth_Cons' less_Suc_eq all_conj_distrib)
  have ne: "pfd_fd q \<noteq> pfd_fd p" using assms(1) f by (auto simp: timed_ok_def)
  have ok: "room_ok kStIdxClient s" by (rule timed_ok_room [OF assms(1)])
  obtain t a where t: "client_gone 2 (pfd_fd p) s = Inr t" "timed_ok (without a es) t"
    "members kStIdxClient t = swap_remove 0 [p, q]" "\<forall>c. c \<noteq> pfd_fd p \<longrightarrow> kClient t c = kClient s c"
    using client_gone_in_place [OF assms(1), of 0] idx f assms(3) by (auto simp: st)
  have "members kStIdxClient t = [q]" using t(3) by (simp add: swap_remove_def)
  moreover have "timed_client_turn k 2 s = Inr (2, t)"
    using member_fds_at [OF ok, of 0] assms(3,4) t(1) by (auto simp: timed_client_turn_def st stays_def)
  ultimately show thesis using that t(2,4) idx(2) ne by simp
qed

end
