(* ===== verification/TimerProps.thy ===== *)
theory TimerProps
  imports TimerWalks
begin

text \<open>The properties of the timer list, and a concrete list they are applied at.\<close>

section \<open>A concrete list\<close>

text \<open>Two clients' timers, at the addresses 1 and 2, and a free node for a third.\<close>

definition two_timers :: timer_list where
  "two_timers = \<lparr>tl_head = Some 1, tl_tail = Some 2, tl_heap =
     [1 \<mapsto> \<lparr>tm_prev = None, tm_next = Some 2, tm_client = 20, tm_expire = 100\<rparr>,
      2 \<mapsto> \<lparr>tm_prev = Some 1, tm_next = None, tm_client = 21, tm_expire = 105\<rparr>,
      3 \<mapsto> ClientTimer_new 22 103]\<rparr>"

lemma two_timers_repr: "timer_repr two_timers [(1, 100, 20), (2, 105, 21)]"
  unfolding timer_repr_def
  by (rule exI [of _ "[1, 2]"]) (simp add: linked_def two_timers_def entry_of_def)

section \<open>Properties\<close>

text \<open>
  C27. Adding a timer to the list is insertion into a queue sorted by expiry, before the timers
  that expire at the same time: for every list that represents a queue and every new node, the
  walk ends, dereferences only allocated nodes, and the list represents the queue with the entry
  in its place.
\<close>

theorem AddTimer_inserts:
  assumes "timer_repr s es" "tl_heap s a = Some (ClientTimer_new client t)" "a \<notin> fst ` set es"
  shows "\<exists>s'. AddTimer a s = Some (Inr s') \<and>
    timer_repr s' (takeWhile (\<lambda>(_, d, _). d < t) es @ (a, t, client) # dropWhile (\<lambda>(_, d, _). d < t) es)"
proof -
  have "timer_avail s (a, t, client)" using assms(2) by (simp add: timer_avail_def)
  moreover have "before t = (\<lambda>(_, d, _). d < t)" by (auto simp: before_def fun_eq_iff)
  ultimately show ?thesis
    using timers.add_ok [OF assms(1), of "(a, t, client)"] assms(3) by (simp add: enqueue_def)
qed

lemma AddTimer_inserts_witness:
  "\<exists>s'. AddTimer 3 two_timers = Some (Inr s') \<and>
     timer_repr s' [(1, 100, 20), (3, 103, 22), (2, 105, 21)]"
  using AddTimer_inserts [OF two_timers_repr, of 3 22 103] by (simp add: two_timers_def)

text \<open>
  C28. A tick runs the expire handlers of exactly the timers due before the current time, in the
  order of their expiry, and leaves exactly the others; a fault of a handler is the fault of the
  tick.
\<close>

theorem TickOnce_expires:
  assumes "timer_repr s es"
  shows "case run_handlers handler (filter (\<lambda>e. due e < t) es) st of
      Inl f \<Rightarrow> TickOnce handler t s st = Some (Inl f)
    | Inr st' \<Rightarrow> \<exists>s'. TickOnce handler t s st = Some (Inr (s', st')) \<and>
        timer_repr s' (filter (\<lambda>e. t \<le> due e) es)"
proof -
  have sorted: "sorted (map due es)" using timers.repr_sorted [OF assms] by simp
  note eqs = takeWhile_before [OF sorted, of t] dropWhile_before [OF sorted, of t]
  show ?thesis by (rule TickOnce_repr [OF assms, of handler t st, unfolded eqs])
qed

lemma TickOnce_expires_witness:
  "\<exists>s'. TickOnce (\<lambda>c st. Inr (st @ [c])) 103 two_timers [] = Some (Inr (s', [20])) \<and>
     timer_repr s' [(2, 105, 21)]"
  using TickOnce_expires [OF two_timers_repr, of "\<lambda>c st. Inr (st @ [c])" 103 "[]"] by simp

text \<open>
  Heartbeat: a timer that was reset survives every tick up to the time it was reset to,
  whatever else expires in that tick.
\<close>

theorem reset_timer_survives:
  assumes "timer_repr s es" "(a, t0, client) \<in> set es" "ChgTimer a t' s = Some (Inr s1)"
    "TickOnce handler t s1 st = Some (Inr (s2, st'))" "t \<le> t'"
  shows "\<exists>es'. timer_repr s2 es' \<and> (a, t', client) \<in> set es'"
  by (rule timers.reset_outlives [OF assms])

lemma reset_timer_survives_witness:
  "\<exists>s1 s2 es'. ChgTimer 1 110 two_timers = Some (Inr s1) \<and>
     TickOnce (\<lambda>c st. Inr (st @ [c])) 108 s1 [] = Some (Inr (s2, [21])) \<and>
     timer_repr s2 es' \<and> (1, 110, 20) \<in> set es'"
proof -
  obtain s1 where s1: "ChgTimer 1 110 two_timers = Some (Inr s1)"
      "timer_repr s1 (enqueue (1, 110, 20) (without 1 [(1, 100, 20), (2, 105, 21)]))"
    using timers.chg_ok [OF two_timers_repr, of 1 100 20 110] by auto
  have "timer_repr s1 [(2, 105, 21), (1, 110, 20)]"
    using s1(2) by (simp add: enqueue_def without_def before_def)
  from timers.tick_ok [OF this, of "\<lambda>c st. Inr (st @ [c])" 108 "[]" "[21]"] obtain s2 where
    s2: "TickOnce (\<lambda>c st. Inr (st @ [c])) 108 s1 [] = Some (Inr (s2, [21]))"
    by (auto simp: before_def)
  from reset_timer_survives [OF two_timers_repr _ s1(1) s2, of 100 20] s1(1) s2 show ?thesis by auto
qed

text \<open>
  Round trip: a timer that is added and deleted again leaves the list as it was. Both calls
  return, and OutputList, which walks the links, prints in between the times with the new one in
  its place and afterwards the times printed before.
\<close>

theorem AddTimer_DelTimer:
  assumes "timer_repr s es" "tl_heap s a = Some (ClientTimer_new client t)" "a \<notin> fst ` set es"
  shows "\<exists>s1 s2. AddTimer a s = Some (Inr s1) \<and>
    OutputList s1 = Some (Inr (map due (enqueue (a, t, client) es))) \<and>
    DelTimer a s1 = Some (Inr s2) \<and> timer_repr s2 es \<and> OutputList s2 = OutputList s"
proof -
  have "timer_avail s (a, t, client)" using assms(2) by (simp add: timer_avail_def)
  from timers.add_del [OF assms(1) this] assms(3) obtain s1 s2 where
    "AddTimer a s = Some (Inr s1)" "timer_repr s1 (enqueue (a, t, client) es)"
    "DelTimer a s1 = Some (Inr s2)" "timer_repr s2 es" by auto
  with OutputList_repr [OF assms(1)] show ?thesis
    by (intro exI [of _ s1] exI [of _ s2]) (simp add: OutputList_repr)
qed

lemma AddTimer_DelTimer_witness:
  "\<exists>s1 s2. AddTimer 3 two_timers = Some (Inr s1) \<and> OutputList s1 = Some (Inr [100, 103, 105]) \<and>
    DelTimer 3 s1 = Some (Inr s2) \<and> OutputList s2 = Some (Inr [100, 105])"
  using AddTimer_DelTimer [OF two_timers_repr, of 3 22 103] OutputList_repr [OF two_timers_repr]
  by (simp add: two_timers_def enqueue_def before_def) blast

text \<open>
  The tail pointer is wrong as soon as a timer is appended: AddTimer to a list that is not
  empty leaves it as it was, although the new node is now the last one.
\<close>

theorem append_leaves_tail_stale:
  assumes "timer_repr s es" "tl_heap s a = Some (ClientTimer_new client t)" "a \<notin> fst ` set es"
    "es \<noteq> []" "\<forall>e \<in> set es. due e < t" "tl_tail s = Some (fst (last es))"
  shows "\<exists>s'. AddTimer a s = Some (Inr s') \<and> timer_repr s' (es @ [(a, t, client)]) \<and>
    tl_tail s' = Some (fst (last es)) \<and> tl_tail s' \<noteq> Some a"
proof -
  have all: "takeWhile (before t) es = es" "dropWhile (before t) es = []"
    using assms(5) by (auto simp: before_def)
  have av: "timer_avail s (a, t, client)" using assms(2) by (simp add: timer_avail_def)
  obtain s' where s': "AddTimer a s = Some (Inr s')" "timer_repr s' (es @ [(a, t, client)])"
    using timers.add_ok [OF assms(1) av] assms(3) all by (auto simp: enqueue_def)
  have "tl_head s \<noteq> None"
    using assms(1,4) linked_head by (auto simp: timer_repr_def split: if_splits)
  then have "tl_tail s' = tl_tail s" using AddTimer_tail [OF s'(1)] by simp
  moreover have "fst (last es) \<noteq> a" using assms(3,4) by (metis image_eqI last_in_set)
  ultimately show ?thesis using s' assms(6) by auto
qed

lemma append_leaves_tail_stale_witness:
  "let s = two_timers\<lparr>tl_heap := (tl_heap two_timers)(3 \<mapsto> ClientTimer_new 22 200)\<rparr> in
   \<exists>s'. AddTimer 3 s = Some (Inr s') \<and> tl_tail s' = Some 2"
proof -
  let ?s = "two_timers\<lparr>tl_heap := (tl_heap two_timers)(3 \<mapsto> ClientTimer_new 22 200)\<rparr>"
  have "timer_repr ?s [(1, 100, 20), (2, 105, 21)]"
    unfolding timer_repr_def
    by (rule exI [of _ "[1, 2]"]) (simp add: linked_def two_timers_def entry_of_def)
  from append_leaves_tail_stale [OF this, of 3 22 200] show ?thesis
    unfolding Let_def by (simp add: two_timers_def) blast
qed

end
