(* ===== verification/TimingProps.thy ===== *)
theory TimingProps
  imports TimingSteps TimerProps ChatProps
begin

text \<open>The properties of the timing chat, with a concrete room of two clients and concrete runs.\<close>

section \<open>A concrete room\<close>

text \<open>Two clients with the descriptors 20 and 21, whose timers are due at 100 and 105.\<close>

definition demo_timed :: timed_chat where
  "demo_timed = (timed_init 3 (5, 6) [])\<lparr>kCntClient := 2,
     kFDS := [\<lparr>pfd_fd = 3, pfd_events = 9, pfd_revents = 0\<rparr>, \<lparr>pfd_fd = 5, pfd_events = 9, pfd_revents = 0\<rparr>,
              \<lparr>pfd_fd = 20, pfd_events = client_events, pfd_revents = POLLRDHUP\<rparr>,
              \<lparr>pfd_fd = 21, pfd_events = client_events, pfd_revents = POLLIN\<rparr>],
     kClient := (\<lambda>fd. zero_timed_client)
       (20 := zero_timed_client\<lparr>pollfds_idx := 2, timer_ptr := Some 1\<rparr>,
        21 := zero_timed_client\<lparr>pollfds_idx := 3, timer_ptr := Some 2\<rparr>),
     kClientTimerList := two_timers\<rparr>"

lemma demo_timed_members:
  "members kStIdxClient demo_timed =
     [\<lparr>pfd_fd = 20, pfd_events = client_events, pfd_revents = POLLRDHUP\<rparr>,
      \<lparr>pfd_fd = 21, pfd_events = client_events, pfd_revents = POLLIN\<rparr>]"
  "fds demo_timed = [20, 21]" "kTrace demo_timed = []"
  by (simp_all add: members_def fds_def demo_timed_def timed_init_def kStIdxClient_def)

lemma demo_timed_ok: "timed_ok [(1, 100, 20), (2, 105, 21)] demo_timed"
proof -
  have "room_ok kStIdxClient demo_timed" unfolding room_ok_def demo_timed_members(1)
    by (simp add: demo_timed_def timed_init_def kStIdxClient_def kMaxnClient_def valid_fd_def kMaxnFD_def)
  then show ?thesis
    using two_timers_repr demo_timed_members(2) by (simp add: timed_ok_def demo_timed_def timed_init_def)
qed

lemma demo_timed_indexed: "indexed demo_timed"
  unfolding indexed_def demo_timed_members(2)
  by (auto simp: demo_timed_def kStIdxClient_def less_Suc_eq nth_Cons')

lemma demo_timed_findable: "findable demo_timed"
  using indexed_findable [OF timed_ok_room [OF demo_timed_ok] demo_timed_indexed] .

section \<open>Properties\<close>



text \<open>
  A client that joins gets the last place, its index, and a timer that is due nine seconds
  later; the others keep theirs, and the room stays consistent.
\<close>

theorem timed_join:
  assumes "timed_ok es s" "indexed s" "k_accept k (kTrace s) l = Accepted p a" "kCntClient s < 2"
    "0 \<le> p" "p < 65535" "p \<notin> set (fds s)"
    "k_new k (kTrace s @ [Accept l]) = new" "new \<notin> fst ` set es" "k_time k (kTrace s @ [Accept l]) = now"
  shows "\<exists>t. timed_accept_client k l s = Inr t \<and> fds t = fds s @ [p] \<and> indexed t \<and>
    timed_ok (enqueue (new, now + 9, p) es) t \<and> kTrace t = kTrace s @ [Accept l, TimeNow]"
proof -
  have ok: "room_ok kStIdxClient s" by (rule timed_ok_room [OF assms(1)])
  have v: "valid_fd p" using assms(5,6) by (simp add: valid_fd_def kMaxnFD_def)
  have c: "kCntClient s < kMaxnClient" using assms(4) by (simp add: kMaxnClient_def)
  obtain t where t: "timed_accept_client k l s = Inr t" "timed_ok (enqueue (new, now + 9, p) es) t"
    "fds t = fds s @ [p]" "kTrace t = kTrace s @ [Accept l, TimeNow]"
    "pollfds_idx (kClient t p) = kStIdxClient + kCntClient s" "\<forall>c. c \<noteq> p \<longrightarrow> kClient t c = kClient s c"
    using timed_accept_joins [OF assms(1,3) c v assms(7)] assms(8-10) by auto
  have "int (length (fds s)) = kCntClient s"
    using length_members [OF ok] ok by (simp add: fds_def room_ok_def)
  then have "indexed t"
    using t(3,5,6) assms(2,7) by (auto simp: indexed_def nth_append less_Suc_eq in_set_conv_nth)
  with t show ?thesis by blast
qed

lemma timed_join_witness:
  "\<exists>t. timed_accept_client (chat_kernel []) 3 (timed_init 3 (5, 6) []) = Inr t \<and> fds t = [10] \<and>
     timed_ok [(11, 109, 10)] t"
proof -
  let ?s = "timed_init 3 (5, 6) []"
  have ok: "timed_ok [] ?s" "indexed ?s" "fds ?s = []" "kCntClient ?s < 2" "kTrace ?s = []"
    by (simp_all add: timed_ok_def indexed_def fds_def members_def timed_init_def room_ok_def kStIdxClient_def
        kMaxnClient_def timer_repr_empty)
  show ?thesis
    using timed_join [OF ok(1,2), of "chat_kernel []" 3 10 a_peer 11 100] ok(3-5)
    by (auto simp: chat_kernel_def idle_kernel_def count_accepts_def count_polls_def enqueue_def)
qed

text \<open>
  Heartbeat of the chat: a client whose message is read is still a member after every alarm
  up to nine seconds later, whoever else expires then.
\<close>

theorem heard_client_survives:
  assumes "timed_ok es s" "findable s" "recv_bounded k" "fd \<in> set (fds s)"
    "k_recv k (kTrace s) fd 31 = RecvData d" "d \<noteq> []" "timed_read_client k fd s = Inr s1"
    "AlarmHandler k' s1 = Inr s2"
    "k_time k' (kTrace s1) \<le> k_time k (butlast (kTrace s1)) + 9"
  shows "fd \<in> set (fds s2)"
proof -
  have says: "client_says k (kTrace s) fd \<noteq> []" using assms(5,6) by (simp add: client_says_def)
  obtain a d0 where r: "(a, d0, fd) \<in> set es"
    "timed_ok (enqueue (a, k_time k (butlast (kTrace s1)) + 9, fd) (without a es)) s1"
    "members kStIdxClient s1 = members kStIdxClient s" "kFDS s1 = kFDS s"
    "\<forall>c. pollfds_idx (kClient s1 c) = pollfds_idx (kClient s c)"
    using timed_read_client_heard [OF assms(1,3,4) says] assms(7) by (auto simp: butlast_append)
  have find: "findable s1" using assms(2) r(3-5) by (simp add: findable_def fds_def)
  obtain t where t: "AlarmHandler k' s1 = Inr t"
    "timed_ok (filter (\<lambda>e. k_time k' (kTrace s1) \<le> due e)
       (enqueue (a, k_time k (butlast (kTrace s1)) + 9, fd) (without a es))) t"
    using AlarmHandler_effect [OF r(2) find, of k'] by blast
  then have "fd \<in> set (fds t)" using assms(9) by (force simp: timed_ok_def set_enqueue)
  with t(1) assms(8) show ?thesis by simp
qed

lemma heard_client_survives_witness:
  "\<exists>s1 s2. timed_read_client (chat_kernel []) 20 demo_timed = Inr s1 \<and>
     AlarmHandler ((chat_kernel [])\<lparr>k_time := \<lambda>h. 108\<rparr>) s1 = Inr s2 \<and> 20 \<in> set (fds s2)"
proof -
  let ?k = "chat_kernel []" and ?k' = "(chat_kernel [])\<lparr>k_time := \<lambda>h. 108\<rparr>"
  have hi: "k_recv ?k (kTrace demo_timed) 20 31 = RecvData ''hi''" by (simp add: chat_kernel_def)
  then have says: "client_says ?k (kTrace demo_timed) 20 \<noteq> []" by (simp add: client_says_def)
  have mem: "20 \<in> set (fds demo_timed)" by (simp add: demo_timed_members)
  obtain s1 a d where s1: "timed_read_client ?k 20 demo_timed = Inr s1"
    "timed_ok (enqueue (a, k_time ?k (butlast (kTrace s1)) + 9, 20) (without a [(1, 100, 20), (2, 105, 21)])) s1"
    "members kStIdxClient s1 = members kStIdxClient demo_timed" "kFDS s1 = kFDS demo_timed"
    "\<forall>c. pollfds_idx (kClient s1 c) = pollfds_idx (kClient demo_timed c)"
    using timed_read_client_heard [OF demo_timed_ok chat_kernel_answers(1) mem says] by (auto simp: butlast_append)
  have "findable s1" using demo_timed_findable s1(3-5) by (simp add: findable_def fds_def)
  from AlarmHandler_effect [OF s1(2) this, of ?k'] obtain s2 where s2: "AlarmHandler ?k' s1 = Inr s2" by blast
  have "k_time ?k' (kTrace s1) \<le> k_time ?k (butlast (kTrace s1)) + 9" by (simp add: chat_kernel_def)
  from heard_client_survives [OF demo_timed_ok demo_timed_findable chat_kernel_answers(1) mem hi _ s1(1) s2 this]
  show ?thesis using s1(1) s2 by auto
qed

text \<open>
  C35. Removing a client leaves the index of the client that moves into its place as it was: after
  the first of two clients has left, the other one's leaving fails the assertion on its index and
  aborts the server.
\<close>

theorem second_leave_aborts:
  assumes "timed_ok es s" "indexed s" "members kStIdxClient s = [p, q]" "\<not> stays p"
  shows "\<exists>s'. timed_client_turn k 2 s = Inr (2, s') \<and> members kStIdxClient s' = [q] \<and>
    (\<forall>q'. pfd_fd q' = pfd_fd q \<and> \<not> stays q' \<longrightarrow>
       timed_client_turn k 2 (s'\<lparr>kFDS := (kFDS s')[2 := q']\<rparr>) = Inl AssertFail)"
proof -
  have st: "kStIdxClient = 2" by (simp add: kStIdxClient_def)
  obtain t a where run: "timed_client_turn k 2 s = Inr (2, t)" and t: "timed_ok (without a es) t"
    and m: "members kStIdxClient t = [q]" and idx: "pollfds_idx (kClient t (pfd_fd q)) = 3"
    using first_of_two_leaves [OF assms, of k] by blast
  have len: "length (kFDS t) = 4" "kCntClient t = 1"
    using timed_ok_room [OF t] length_members [OF timed_ok_room [OF t]] m
    by (auto simp: room_ok_def st kMaxnClient_def)
  have "timed_client_turn k 2 (t\<lparr>kFDS := (kFDS t)[2 := q']\<rparr>) = Inl AssertFail"
    if q': "pfd_fd q' = pfd_fd q" "\<not> stays q'" for q'
  proof -
    let ?t = "t\<lparr>kFDS := (kFDS t)[2 := q']\<rparr>"
    have m': "members kStIdxClient ?t = [q']" using len by (simp add: members_def st take_Suc hd_drop_conv_nth)
    then have fds': "fds ?t = fds t" using m q'(1) by (simp add: fds_def)
    have "room_ok kStIdxClient ?t"
      using timed_ok_room [OF t] m m' q'(1) by (simp add: room_ok_def)
    then have "timed_ok (without a es) ?t" using t fds' by (simp add: timed_ok_def)
    moreover have "pfd_fd q' \<in> set (fds ?t)" using m' by (simp add: fds_def)
    moreover have "pollfds_idx (kClient ?t (pfd_fd q')) \<noteq> 2" using q'(1) idx by simp
    ultimately have "client_gone 2 (pfd_fd q') ?t = Inl AssertFail" by (rule client_gone_displaced)
    moreover have "fds_at 2 ?t = Inr q'" using len by (simp add: fds_at_def)
    ultimately show ?thesis using q'(2) by (auto simp: timed_client_turn_def stays_def)
  qed
  with run m show ?thesis by blast
qed

lemma second_leave_aborts_witness:
  "\<exists>s'. timed_client_turn (chat_kernel []) 2 demo_timed = Inr (2, s') \<and>
     timed_client_turn (chat_kernel []) 2
       (s'\<lparr>kFDS := (kFDS s')[2 := \<lparr>pfd_fd = 21, pfd_events = client_events, pfd_revents = POLLRDHUP\<rparr>]\<rparr>) = Inl AssertFail"
  using second_leave_aborts [OF demo_timed_ok demo_timed_indexed demo_timed_members(1), of "chat_kernel []"]
  by (auto simp: stays_def revents_has_def)

text \<open>The whole program: two clients join, the first hangs up, then the second does.\<close>

lemma second_leave_aborts_run:
  "timed_main 6 (chat_kernel [[POLLIN], [POLLIN], [0, 0, POLLRDHUP], [0, 0, POLLRDHUP]]) a_peer =
     Some (Inl AssertFail)"
  by code_simp

text \<open>
  C37. With such an index the expiry of one client closes another one: the first of two clients
  leaves, a third joins and takes the place the index of the second still names; when the second
  expires, the handler closes the third, and the expired one stays.
\<close>

theorem expiry_closes_wrong_client:
  assumes "timed_ok es s" "indexed s" "members kStIdxClient s = [p, q]" "\<not> stays p"
    "timed_client_turn k 2 s = Inr (2, s1)" "k_accept k (kTrace s1) l = Accepted r a" "valid_fd r"
    "r \<noteq> pfd_fd q" "k_new k (kTrace s1 @ [Accept l]) \<notin> fst ` set es" "timed_accept_client k l s1 = Inr s2"
  shows "\<exists>t. RemoveClientFromPoll (pfd_fd q) s2 = Inr t \<and> kTrace t = kTrace s2 @ [Close r] \<and>
    fds s2 = [pfd_fd q, r] \<and> fds t = [pfd_fd q]"
proof -
  obtain x where s1: "timed_ok (without x es) s1" "members kStIdxClient s1 = [q]"
    "pollfds_idx (kClient s1 (pfd_fd q)) = 3"
    using first_of_two_leaves [OF assms(1-4), of k] assms(5) by auto
  have f1: "fds s1 = [pfd_fd q]" using s1(2) by (simp add: fds_def)
  have c: "kCntClient s1 < kMaxnClient"
    using length_members [OF timed_ok_room [OF s1(1)]] s1(2) by (simp add: kMaxnClient_def)
  have new: "k_new k (kTrace s1 @ [Accept l]) \<notin> fst ` set (without x es)"
    using assms(9) by (auto simp: without_def)
  obtain es2 where s2: "timed_ok es2 s2" "fds s2 = [pfd_fd q, r]" "kClient s2 (pfd_fd q) = kClient s1 (pfd_fd q)"
    using timed_accept_joins [OF s1(1) assms(6) c assms(7) _ new] f1 assms(8,10) by auto
  note room = timed_ok_room [OF s2(1)]
  have v: "valid_fd (pfd_fd q)" using member_valid [OF timed_ok_room [OF s1(1)], of q] s1(2) by simp
  let ?m = "members kStIdxClient s2"
  have n: "1 < length ?m" "3 = kStIdxClient + int 1"
    using s2(2) by (auto simp: fds_def kStIdxClient_def dest: arg_cong [of _ _ length])
  have r: "pfd_fd (?m ! 1) = r" using s2(2) n(1) fds_nth [of 1 s2] by (simp add: fds_def)
  obtain d where "remove_client kStIdxClient 3 s2 = Inr (s2\<lparr>kClient := (kClient s2)(r := d),
      kFDS := (kFDS s2)[nat 3 := last ?m], kCntClient := kCntClient s2 - 1,
      kTrace := kTrace s2 @ [Close r]\<rparr>)" (is "_ = Inr ?t")
    using remove_client_members [OF room n] unfolding r by blast
  moreover have "members kStIdxClient ?t = swap_remove 1 ?m"
    using members_removed [OF room n(1)] unfolding n(2) [symmetric] by (simp add: members_def)
  then have "fds ?t = swap_remove 1 (fds s2)" using n(1) unfolding fds_def by (subst map_swap_remove [symmetric]) auto
  ultimately show ?thesis using v s1(3) s2(2,3)
    by (simp add: RemoveClientFromPoll_def member_client_at swap_remove_def)
qed

lemma expiry_closes_wrong_client_witness:
  "\<exists>s1 s2 t. timed_client_turn (chat_kernel []) 2 demo_timed = Inr (2, s1) \<and>
     timed_accept_client (chat_kernel []) 3 s1 = Inr s2 \<and>
     RemoveClientFromPoll 21 s2 = Inr t \<and> kTrace t = kTrace s2 @ [Close (10 + int (count_accepts (kTrace s1)))]"
proof -
  let ?k = "chat_kernel []"
  have p: "\<not> stays \<lparr>pfd_fd = 20, pfd_events = client_events, pfd_revents = POLLRDHUP\<rparr>"
    by (simp add: stays_def revents_has_def)
  obtain s1 x where s1: "timed_client_turn ?k 2 demo_timed = Inr (2, s1)" "timed_ok (without x [(1, 100, 20), (2, 105, 21)]) s1"
    "members kStIdxClient s1 = [\<lparr>pfd_fd = 21, pfd_events = client_events, pfd_revents = POLLIN\<rparr>]"
    using first_of_two_leaves [OF demo_timed_ok demo_timed_indexed demo_timed_members(1) p] by blast
  have tr: "kTrace s1 = [Close 20]"
  proof -
    have "case timed_client_turn ?k 2 demo_timed of Inl f \<Rightarrow> False | Inr (i, t) \<Rightarrow> kTrace t = [Close 20]" by code_simp
    with s1(1) show ?thesis by simp
  qed
  have acc: "k_accept ?k (kTrace s1) 3 = Accepted 10 a_peer" "valid_fd 10"
    by (simp_all add: tr chat_kernel_def count_accepts_def valid_fd_def kMaxnFD_def)
  have new: "k_new ?k (kTrace s1 @ [Accept 3]) \<notin> fst ` set [(1, 100, 20), (2, 105, 21)]"
    by (simp add: tr chat_kernel_def)
  then have "k_new ?k (kTrace s1 @ [Accept 3]) \<notin> fst ` set (without x [(1, 100, 20), (2, 105, 21)])"
    by (auto simp: without_def)
  moreover have "kCntClient s1 < kMaxnClient"
    using length_members [OF timed_ok_room [OF s1(2)]] s1(3) by (simp add: kMaxnClient_def)
  ultimately obtain s2 where s2: "timed_accept_client ?k 3 s1 = Inr s2"
    using timed_accept_joins [OF s1(2) acc(1) _ acc(2)] s1(3) by (auto simp: fds_def)
  have "10 + int (count_accepts (kTrace s1)) = 10" by (simp add: tr count_accepts_def)
  with expiry_closes_wrong_client [OF demo_timed_ok demo_timed_indexed demo_timed_members(1) p s1(1) acc _ new s2] s1(1) s2
  show ?thesis by auto
qed

end
