(* ===== verification/BlockingHttp.thy ===== *)
theory BlockingHttp
  imports HttpProps
begin

text \<open>
  The two single-process servers of \<^verbatim>\<open>src/examples/framework-intro\<close>. \<^verbatim>\<open>handle_http_request.cc\<close> has a
  parser of its own, over a smaller state, that a blocking loop feeds until it has a result;
  \<^verbatim>\<open>respond_http.cc\<close> answers every connection without reading from it. The parser is translated
  here afresh; the next theory compares it with the one of the pool server.
\<close>

section \<open>\<open>struct ReqStatMach\<close> of \<^verbatim>\<open>handle_http_request.cc\<close>\<close>

definition kHeaderBufSize :: nat where "kHeaderBufSize = 1024"
definition kDataBufSize :: nat where "kDataBufSize = 1024"
definition kReqBufSize :: nat where "kReqBufSize = kHeaderBufSize + kDataBufSize"

record blocking_parser =
  p_req_sockfd :: fd
  p_read_idx :: nat
  p_checked_idx :: nat
  p_linest_idx :: nat
  p_recv_buf :: "char list"
  p_lastline_stat :: line_stat
  p_check_stat :: check_stat
  p_result :: result_code

definition new_parser :: "fd \<Rightarrow> blocking_parser" where
  "new_parser peer_sockfd =
     \<lparr>p_req_sockfd = peer_sockfd, p_read_idx = 0, p_checked_idx = 0, p_linest_idx = 0,
      p_recv_buf = replicate kReqBufSize NUL, p_lastline_stat = LINE_STAT_OK,
      p_check_stat = CHECK_STAT_REQLINE, p_result = RES_NO_REQUEST\<rparr>"

section \<open>The parser\<close>

function CheckOneLine :: "blocking_parser \<Rightarrow> (line_stat \<times> blocking_parser) res" where
  "CheckOneLine p =
     (let ci = p_checked_idx p; ri = p_read_idx p; buf = p_recv_buf p in
      if \<not> ci < ri then Inr (LINE_STAT_OPEN, p)
      else if length buf \<le> ci then Inl OutOfBounds
      else
        let c = buf ! ci; next_byte = p\<lparr>p_checked_idx := ci + 1\<rparr> in
        if c = CR then
          if ci + 1 = ri then Inr (LINE_STAT_WAITING_N, p)
          else if length buf \<le> ci + 1 then Inl OutOfBounds
          else if buf ! (ci + 1) = LF then
            Inr (LINE_STAT_OK, p\<lparr>p_recv_buf := buf[ci := NUL, ci + 1 := NUL], p_checked_idx := ci + 2\<rparr>)
          else CheckOneLine next_byte
        else if c = LF then
          if p_lastline_stat p = LINE_STAT_WAITING_N then
            if ci = 0 then Inl OutOfBounds
            else Inr (LINE_STAT_OK, p\<lparr>p_recv_buf := buf[ci - 1 := NUL, ci := NUL], p_checked_idx := ci + 1\<rparr>)
          else Inr (LINE_STAT_BAD, p)
        else CheckOneLine next_byte)"
  by pat_completeness auto
termination
  by (relation "measure (\<lambda>p. p_read_idx p - p_checked_idx p)") auto

declare CheckOneLine.simps [simp del]

text \<open>As in the other parser, a null \<open>method_end\<close> makes the length of the comparison huge.\<close>

definition ParseRequestUri :: "string \<Rightarrow> result_code res" where
  "ParseRequestUri line =
     (let method_end = strpbrk line [SPACE, TAB];
          is_get = (case method_end of Some n \<Rightarrow> strncasecmp_eq n line ''GET''
                                     | None \<Rightarrow> strcasecmp_eq line ''GET'') in
      if \<not> is_get then Inr RES_BAD_REQUEST
      else case method_end of
        None \<Rightarrow> Inl NullDeref
      | Some n \<Rightarrow>
          let line = drop (n + 1) line in
          (case strpbrk line [SPACE, TAB] of
             None \<Rightarrow> Inr RES_BAD_REQUEST
           | Some u \<Rightarrow>
               if \<not> 0 < u then Inr RES_BAD_REQUEST
               else
                 let line = drop (u + 1) line in
                 Inr (if strncasecmp_eq 8 line ''HTTP/1.1'' then RES_NO_REQUEST
                      else if strncasecmp_eq 8 line ''HTTP/1.0'' then RES_NO_REQUEST
                      else RES_BAD_REQUEST)))"

fun ParseHeaders :: "string option \<Rightarrow> result_code" where
  "ParseHeaders None = RES_INTERNAL_ERROR"
| "ParseHeaders (Some line) = (if line = [] then RES_GOT_REQUEST else RES_NO_REQUEST)"

text \<open>One line of a batch: the switch on \<open>check_stat\<close>.\<close>

definition ParseLine :: "string \<Rightarrow> blocking_parser \<Rightarrow> blocking_parser res" where
  "ParseLine cur_line p =
     (case p_check_stat p of
        CHECK_STAT_REQLINE \<Rightarrow>
          rbind (ParseRequestUri cur_line) (\<lambda>r.
          Inr (if r = RES_NO_REQUEST then p\<lparr>p_result := r, p_check_stat := CHECK_STAT_HEADER\<rparr>
               else p\<lparr>p_result := r\<rparr>))
      | CHECK_STAT_HEADER \<Rightarrow> Inr (p\<lparr>p_result := ParseHeaders (Some cur_line)\<rparr>)
      | CHECK_STAT_ENTITY \<Rightarrow> Inl AssertFail)"

lemma CheckOneLine_progress:
  "CheckOneLine p = Inr (LINE_STAT_OK, q) \<Longrightarrow>
     p_checked_idx p < p_checked_idx q \<and> p_checked_idx q \<le> p_read_idx p \<and> p_read_idx q = p_read_idx p"
proof (induction p rule: CheckOneLine.induct)
  case (1 p)
  then show ?case
    by (subst (asm) (3) CheckOneLine.simps) (fastforce simp: Let_def split: if_splits)
qed

lemma ParseLine_frame:
  "ParseLine l p = Inr q \<Longrightarrow>
     p_read_idx q = p_read_idx p \<and> p_checked_idx q = p_checked_idx p \<and>
     p_recv_buf q = p_recv_buf p \<and> p_req_sockfd q = p_req_sockfd p"
  by (auto simp: ParseLine_def rbind_eq_Inr_iff split: check_stat.splits if_splits)

function ParseBatch :: "blocking_parser \<Rightarrow> blocking_parser res" where
  "ParseBatch p =
     (case CheckOneLine p of
        Inl f \<Rightarrow> Inl f
      | Inr (line_stat, p) \<Rightarrow>
          let p = p\<lparr>p_lastline_stat := line_stat\<rparr> in
          (case line_stat of
             LINE_STAT_OK \<Rightarrow>
               (case cstr_at (p_recv_buf p) (p_linest_idx p) of
                  None \<Rightarrow> Inl Unterminated
                | Some cur_line \<Rightarrow>
                    (case ParseLine cur_line (p\<lparr>p_linest_idx := p_checked_idx p\<rparr>) of
                       Inl f \<Rightarrow> Inl f
                     | Inr p \<Rightarrow> if p_result p = RES_NO_REQUEST then ParseBatch p else Inr p))
           | LINE_STAT_OPEN \<Rightarrow> Inr p
           | LINE_STAT_WAITING_N \<Rightarrow> Inr p
           | LINE_STAT_BAD \<Rightarrow> Inr (p\<lparr>p_result := RES_BAD_REQUEST\<rparr>)))"
  by pat_completeness auto
termination
  by (relation "measure (\<lambda>p. p_read_idx p - p_checked_idx p)")
    (fastforce dest!: CheckOneLine_progress ParseLine_frame)+

declare ParseBatch.simps [simp del]

end
