(* ===== verification/BlockingParse.thy ===== *)
theory BlockingParse
  imports BlockingHttp
begin

text \<open>
  The two parsers of the repository agree: \<open>as_rsm\<close> reads the state of the blocking server's
  parser as one of the pool server's, and every function of the one is the function of the
  other through it. So the specification of a stream holds of both, and the blocking parser
  is a second \<open>batch_parser\<close>.
\<close>

section \<open>The same parser\<close>

definition as_rsm :: "blocking_parser \<Rightarrow> req_stat_mach" where
  "as_rsm p =
     \<lparr>m_epollfd = 0, m_sockfd = p_req_sockfd p, m_addr = a_peer, m_read_idx = p_read_idx p,
      m_checked_idx = p_checked_idx p, m_linest_idx = p_linest_idx p,
      m_lastline_stat = p_lastline_stat p, m_check_stat = p_check_stat p, m_result = p_result p,
      recvbuf = p_recv_buf p\<rparr>"

lemma as_rsm_fields [simp]:
  "m_sockfd (as_rsm p) = p_req_sockfd p" "m_read_idx (as_rsm p) = p_read_idx p"
  "m_checked_idx (as_rsm p) = p_checked_idx p" "m_linest_idx (as_rsm p) = p_linest_idx p"
  "m_lastline_stat (as_rsm p) = p_lastline_stat p" "m_check_stat (as_rsm p) = p_check_stat p"
  "m_result (as_rsm p) = p_result p" "recvbuf (as_rsm p) = p_recv_buf p"
  by (simp_all add: as_rsm_def)

lemma as_rsm_updates [simp]:
  "as_rsm (p\<lparr>p_read_idx := n\<rparr>) = (as_rsm p)\<lparr>m_read_idx := n\<rparr>"
  "as_rsm (p\<lparr>p_checked_idx := n\<rparr>) = (as_rsm p)\<lparr>m_checked_idx := n\<rparr>"
  "as_rsm (p\<lparr>p_linest_idx := n\<rparr>) = (as_rsm p)\<lparr>m_linest_idx := n\<rparr>"
  "as_rsm (p\<lparr>p_lastline_stat := st\<rparr>) = (as_rsm p)\<lparr>m_lastline_stat := st\<rparr>"
  "as_rsm (p\<lparr>p_check_stat := cs\<rparr>) = (as_rsm p)\<lparr>m_check_stat := cs\<rparr>"
  "as_rsm (p\<lparr>p_result := r\<rparr>) = (as_rsm p)\<lparr>m_result := r\<rparr>"
  "as_rsm (p\<lparr>p_recv_buf := b\<rparr>) = (as_rsm p)\<lparr>recvbuf := b\<rparr>"
  by (simp_all add: as_rsm_def)

lemma CheckOneLine_as_rsm:
  "check_one_line (as_rsm p) = map_res (\<lambda>(st, q). (st, as_rsm q)) (CheckOneLine p)"
proof (induction p rule: CheckOneLine.induct)
  case (1 p)
  show ?case
    using "1.IH"
    by (subst check_one_line.simps, subst CheckOneLine.simps) (auto simp: Let_def)
qed

lemma ParseRequestUri_eq: "ParseRequestUri line = parse_requesturi line"
  by (auto simp: ParseRequestUri_def parse_requesturi_def Let_def split: option.splits)

lemma ParseHeaders_eq: "ParseHeaders line = parse_headers line"
  by (cases line rule: parse_headers.cases) auto

lemma ParseLine_as_rsm: "parse_line l (as_rsm p) = map_res as_rsm (ParseLine l p)"
  by (cases "p_check_stat p"; cases "parse_requesturi l")
     (auto simp: ParseLine_def parse_line.simps ParseRequestUri_eq ParseHeaders_eq Let_def)

lemma ParseBatch_as_rsm: "parse_batch (as_rsm p) = map_res as_rsm (ParseBatch p)"
proof (induction p rule: ParseBatch.induct)
  case (1 p)
  note unf = ParseBatch.simps [of p] parse_batch.simps [of "as_rsm p"]
  show ?case
  proof (cases "CheckOneLine p")
    case (Inl f)
    then show ?thesis by (simp add: unf CheckOneLine_as_rsm)
  next
    case (Inr r)
    obtain st q where r: "r = (st, q)" by (cases r)
    let ?q = "q\<lparr>p_lastline_stat := st, p_linest_idx := p_checked_idx q\<rparr>"
    show ?thesis
    proof (cases "st = LINE_STAT_OK")
      case False
      with Inr r show ?thesis by (cases st) (simp_all add: unf CheckOneLine_as_rsm)
    next
      case True
      have step: "parse_batch (as_rsm u) = map_res as_rsm (ParseBatch u)"
        if "cstr_at (p_recv_buf q) (p_linest_idx q) = Some l" "ParseLine l ?q = Inr u"
          "p_result u = RES_NO_REQUEST" for l u
        by (rule "1.IH" [OF Inr r [symmetric] refl True, of l]) (use that in simp_all)
      show ?thesis
      proof (cases "cstr_at (p_recv_buf q) (p_linest_idx q)")
        case None
        with Inr r True show ?thesis by (simp add: unf CheckOneLine_as_rsm)
      next
        case (Some l)
        have "parse_line l (as_rsm ?q) = map_res as_rsm (ParseLine l ?q)"
          by (rule ParseLine_as_rsm)
        with Inr r True Some step [OF Some] show ?thesis
          by (cases "ParseLine l ?q") (auto simp: unf CheckOneLine_as_rsm)
      qed
    qed
  qed
qed

section \<open>The blocking parser, batch by batch\<close>

text \<open>What \<open>RecvAndParse\<close> does with the bytes of one \<open>recv\<close>.\<close>

definition stored :: "blocking_parser \<Rightarrow> char list \<Rightarrow> blocking_parser" where
  "stored p d = p\<lparr>p_recv_buf := overwrite (p_recv_buf p) (p_read_idx p) d,
                  p_read_idx := p_read_idx p + length d\<rparr>"

definition feed_blocking :: "blocking_parser \<Rightarrow> char list \<Rightarrow> blocking_parser res" where
  "feed_blocking p d = ParseBatch (stored p d)"

definition undecided :: "blocking_parser \<Rightarrow> bool" where
  "undecided p \<longleftrightarrow> p_result p = RES_NO_REQUEST"

lemma as_rsm_stored: "as_rsm (stored p d) = received (as_rsm p) d"
  by (simp add: stored_def received_def)

lemma wants_more_as_rsm: "wants_more (as_rsm p) = undecided p"
  by (simp add: wants_more_def undecided_def)

lemma feed_as_rsm: "feed (as_rsm p) d = map_res as_rsm (feed_blocking p d)"
  by (simp add: feed_def feed_blocking_def as_rsm_stored [symmetric] ParseBatch_as_rsm)

lemma outcome_as_rsm: "map_res m_result (map_res as_rsm m) = map_res p_result m"
  by (simp add: map_res_map_res)

lemma feed_blocking_Inr:
  "feed_blocking p d = Inr q \<Longrightarrow> feed (as_rsm p) d = Inr (as_rsm q)"
  by (simp add: feed_as_rsm)

lemma feed_blocking_frame:
  "feed_blocking p d = Inr q \<Longrightarrow>
     p_read_idx q = p_read_idx p + length d \<and> p_req_sockfd q = p_req_sockfd p"
  using feed_read_idx [OF feed_blocking_Inr, of p d q] feed_frame [OF feed_blocking_Inr, of p d q]
  by simp

interpretation blk: batch_parser feed_blocking undecided p_result "\<lambda>p e. feed_ok (as_rsm p) e"
proof unfold_locales
  fix p d e f
  assume "feed_ok (as_rsm p) (d @ e)" "undecided p" "feed_blocking p d = Inl f"
  then show "feed_blocking p (d @ e) = Inl f"
    using rsm.feed_fault [of "as_rsm p" d e f] by (simp add: feed_as_rsm wants_more_as_rsm map_res_eq_simps)
next
  fix p d e q
  assume ok: "feed_ok (as_rsm p) (d @ e)" and more: "undecided p" and q: "feed_blocking p d = Inr q"
  note prem = ok more [folded wants_more_as_rsm] feed_blocking_Inr [OF q]
  show "map_res p_result (feed_blocking p (d @ e)) = Inr (p_result q)" if "\<not> undecided q"
    using rsm.feed_done [OF prem] that by (simp add: wants_more_as_rsm feed_as_rsm outcome_as_rsm)
  show "map_res p_result (feed_blocking p (d @ e)) = map_res p_result (feed_blocking q e)"
    if "undecided q"
    using rsm.feed_more [OF prem] that by (simp add: wants_more_as_rsm feed_as_rsm outcome_as_rsm)
  show "feed_ok (as_rsm q) e" if "undecided q"
    using rsm.feed_ok [OF prem] that by (simp add: wants_more_as_rsm)
qed

end
