(* ===== verification/BlockingServer.thy ===== *)
theory BlockingServer
  imports BlockingParse
begin

text \<open>
  The two single-process servers: \<^verbatim>\<open>handle_http_request.cc\<close> from the blocking receive to \<open>main\<close>, and
  \<^verbatim>\<open>respond_http.cc\<close>. The address their arguments name is a parameter; output is left out except
  the \<open>printf\<close> of the whole receive buffer, which can run off its end.
\<close>

section \<open>Receiving and responding\<close>

definition RecvAndParse ::
  "kernel \<Rightarrow> blocking_parser \<Rightarrow> trace \<Rightarrow> (blocking_parser \<times> trace) res" where
  "RecvAndParse k p h =
     (let n = kReqBufSize - p_read_idx p;
          read_size = k_recv k h (p_req_sockfd p) n; h = h @ [Recv (p_req_sockfd p) n] in
      case read_size of
        RecvErr errno \<Rightarrow> Inr (p\<lparr>p_result := RES_INTERNAL_ERROR\<rparr>, h)
      | RecvData d \<Rightarrow>
          if d = [] then Inr (p\<lparr>p_result := RES_DONE_RECV\<rparr>, h)
          else if n < length d then Inl OutOfBounds
          else if cstr_at (p_recv_buf (stored p d)) 0 = None then Inl Unterminated
          else map_res (\<lambda>p. (p, h)) (feed_blocking p d))"

definition RespondHelloHTTP :: "fd \<Rightarrow> trace \<Rightarrow> trace res" where
  "RespondHelloHTTP peer_sockfd h =
     rbind (hello_iov kHeaderBufSize kDataBufSize) (\<lambda>(head, data).
     Inr (h @ [Writev peer_sockfd [head, data]]))"

lemma kReqBufSize_eq: "kReqBufSize = k_recvbuf_size"
  by (simp add: kReqBufSize_def kHeaderBufSize_def kDataBufSize_def k_recvbuf_size_eq)

lemma room_as_rsm: "room (as_rsm p) = kReqBufSize - p_read_idx p"
  by (simp add: room_def kReqBufSize_eq)

lemma RecvAndParse_progress:
  "RecvAndParse k p h = Inr (q, h') \<Longrightarrow>
     p_result q = RES_NO_REQUEST \<Longrightarrow> kReqBufSize - p_read_idx q < kReqBufSize - p_read_idx p"
  by (auto simp: RecvAndParse_def Let_def map_res_eq_simps split: recv_ret.splits if_splits
      dest!: feed_blocking_frame intro: room_shrinks)

text \<open>The loop of \<open>main\<close> over one connection.\<close>

function peer_loop :: "kernel \<Rightarrow> blocking_parser \<Rightarrow> trace \<Rightarrow> (blocking_parser \<times> trace) res" where
  "peer_loop k p h =
     (if p_result p = RES_NO_REQUEST then
        rbind (RecvAndParse k p h) (\<lambda>(p, h). peer_loop k p h)
      else Inr (p, h))"
  by pat_completeness auto
termination
  by (relation "measure (\<lambda>(k, p, h). if undecided p then 1 + (kReqBufSize - p_read_idx p) else 0)")
     (auto dest: RecvAndParse_progress simp: undecided_def)

declare peer_loop.simps [simp del]

definition serve_peer :: "kernel \<Rightarrow> fd \<Rightarrow> trace \<Rightarrow> trace res" where
  "serve_peer k peer_sockfd h =
     rbind (peer_loop k (new_parser peer_sockfd) h) (\<lambda>(req_parser, h).
     rbind
       (case p_result req_parser of
          RES_GOT_REQUEST \<Rightarrow> RespondHelloHTTP peer_sockfd h
        | RES_DONE_RECV \<Rightarrow> Inr h
        | _ \<Rightarrow> Inr h)
       (\<lambda>h. Inr (h @ [Close peer_sockfd])))"

section \<open>The servers\<close>

text \<open>The set-up both programs have; an \<open>exit\<close> is \<open>Inl\<close> of the calls made before.\<close>

definition open_listener :: "kernel \<Rightarrow> sockaddr_in \<Rightarrow> trace + (fd \<times> trace)" where
  "open_listener k my_sockaddr =
     (let my_sockfd = k_socket k []; h = [SocketCreate] in
      if my_sockfd = -1 then Inl h
      else
        let ret = k_bind k h my_sockfd; h = h @ [Bind my_sockfd my_sockaddr] in
        if ret = -1 then Inl h
        else
          let ret = k_listen k h my_sockfd; h = h @ [Listen my_sockfd 5] in
          if ret = -1 then Inl h else Inr (my_sockfd, h))"

text \<open>
  The loop of \<^verbatim>\<open>handle_http_request.cc\<close>, and the exit code it ends with. Its handler of SIGTERM
  calls \<open>exit(0)\<close>, so the loop condition is never false and the code behind the loop never runs;
  the signal is seen at the head of the loop.
\<close>

fun serve_loop :: "nat \<Rightarrow> kernel \<Rightarrow> fd \<Rightarrow> trace \<Rightarrow> (int \<times> trace) res option" where
  "serve_loop fuel k my_sockfd h =
     (if k_sigterm k h then Some (Inr (0, h))
      else case fuel of
        0 \<Rightarrow> None
      | Suc n \<Rightarrow>
          (case k_accept k h my_sockfd of
             AcceptErr errno \<Rightarrow> Some (Inr (1, h @ [Accept my_sockfd]))
           | Accepted peer_sockfd peer_sockaddr \<Rightarrow>
               (case serve_peer k peer_sockfd (h @ [Accept my_sockfd]) of
                  Inl f \<Rightarrow> Some (Inl f)
                | Inr h \<Rightarrow> serve_loop n k my_sockfd h)))"

declare serve_loop.simps [simp del]

definition http_main :: "nat \<Rightarrow> kernel \<Rightarrow> sockaddr_in \<Rightarrow> (int \<times> trace) res option" where
  "http_main fuel k my_sockaddr =
     (case open_listener k my_sockaddr of
        Inl h \<Rightarrow> Some (Inr (1, h))
      | Inr (my_sockfd, h) \<Rightarrow> serve_loop fuel k my_sockfd h)"

text \<open>\<^verbatim>\<open>respond_http.cc\<close>: the handler of SIGTERM sets the flag that ends the loop.\<close>

fun greet_loop :: "nat \<Rightarrow> kernel \<Rightarrow> fd \<Rightarrow> trace \<Rightarrow> (int \<times> trace) res option" where
  "greet_loop fuel k my_sockfd h =
     (if k_sigterm k h then Some (Inr (0, h @ [Close my_sockfd]))
      else case fuel of
        0 \<Rightarrow> None
      | Suc n \<Rightarrow>
          (let h = h @ [Sleep 1] in
           case k_accept k h my_sockfd of
             AcceptErr errno \<Rightarrow> Some (Inr (1, h @ [Accept my_sockfd]))
           | Accepted peer_sockfd peer_sockaddr \<Rightarrow>
               (case RespondHelloHTTP peer_sockfd (h @ [Accept my_sockfd]) of
                  Inl f \<Rightarrow> Some (Inl f)
                | Inr h \<Rightarrow> greet_loop n k my_sockfd (h @ [Close peer_sockfd]))))"

declare greet_loop.simps [simp del]

definition greet_main :: "nat \<Rightarrow> kernel \<Rightarrow> sockaddr_in \<Rightarrow> (int \<times> trace) res option" where
  "greet_main fuel k my_sockaddr =
     (case open_listener k my_sockaddr of
        Inl h \<Rightarrow> Some (Inr (1, h))
      | Inr (my_sockfd, h) \<Rightarrow> greet_loop fuel k my_sockfd h)"

end
