(* ===== verification/BlockingLemmas.thy ===== *)
theory BlockingLemmas
  imports BlockingServer
begin

text \<open>
  The blocking receive loop of one connection, for every stream and every kernel: what it does
  with the batches it is handed, the calls it makes and the faults it can end in.
\<close>

section \<open>The connection loop\<close>

text \<open>
  The kernel hands over the batches \<open>ds\<close> on successive calls of \<open>recv\<close>. The calls block, so
  nothing is said of what happens when there is no data yet, nor of what follows \<open>ds\<close>.
\<close>

fun supplies :: "kernel \<Rightarrow> trace \<Rightarrow> fd \<Rightarrow> nat \<Rightarrow> char list list \<Rightarrow> bool" where
  "supplies k h fd n [] \<longleftrightarrow> True"
| "supplies k h fd n (d # ds) \<longleftrightarrow>
     d \<noteq> [] \<and> length d \<le> n \<and> k_recv k h fd n = RecvData d \<and>
     supplies k (h @ [Recv fd n]) fd (n - length d) ds"

lemma delivers_supplies: "delivers k h fd n ds \<Longrightarrow> supplies k h fd n ds"
  by (induction ds arbitrary: h n) auto

fun recvs :: "fd \<Rightarrow> nat \<Rightarrow> char list list \<Rightarrow> trace" where
  "recvs fd n [] = []"
| "recvs fd n (d # ds) = Recv fd n # recvs fd (n - length d) ds"

lemma peer_loop_done: "\<not> undecided p \<Longrightarrow> peer_loop k p h = Inr (p, h)"
  by (subst peer_loop.simps) (simp add: undecided_def)

lemma peer_loop_step:
  "undecided p \<Longrightarrow> peer_loop k p h = rbind (RecvAndParse k p h) (\<lambda>(p, h). peer_loop k p h)"
  by (subst peer_loop.simps) (simp add: undecided_def)

text \<open>The buffer can be printed from its start on unless it is full without any NUL.\<close>

lemma stored_printable:
  assumes "rsm_ready (as_rsm p)" "length d < room (as_rsm p)"
  shows "\<exists>str. cstr_at (p_recv_buf (stored p d)) 0 = Some str"
proof -
  have "NUL \<in> set (drop (p_read_idx p) (p_recv_buf (stored p d)))"
    using received_tail [of "as_rsm p" d] assms by (simp add: as_rsm_stored [symmetric])
  then show ?thesis by (auto simp: cstr_at_def dest: in_set_dropD)
qed

lemma RecvAndParse_data:
  assumes "k_recv k h (p_req_sockfd p) (room (as_rsm p)) = RecvData d" "d \<noteq> []" "length d \<le> room (as_rsm p)"
    "cstr_at (p_recv_buf (stored p d)) 0 \<noteq> None"
  shows "RecvAndParse k p h =
    map_res (\<lambda>q. (q, h @ [Recv (p_req_sockfd p) (room (as_rsm p))])) (feed_blocking p d)"
  using assms by (auto simp: RecvAndParse_def Let_def room_as_rsm [symmetric])

text \<open>
  The loop over a supplied stream: it ends with the state in which the parser has a result, or
  goes on after the last batch.
\<close>

lemma peer_loop_supplied:
  assumes "rsm_ready (as_rsm p)" "undecided p" "supplies k h (p_req_sockfd p) (room (as_rsm p)) ds"
    "length (concat ds) < room (as_rsm p)"
  shows "case feed_seq feed_blocking undecided p ds of
      Inl f \<Rightarrow> peer_loop k p h = Inl f
    | Inr q \<Rightarrow> \<exists>rs. peer_loop k p h = peer_loop k q (h @ rs) \<and> only_recv (p_req_sockfd p) rs \<and>
        p_req_sockfd q = p_req_sockfd p \<and>
        (undecided q \<longrightarrow> rs = recvs (p_req_sockfd p) (room (as_rsm p)) ds \<and>
           room (as_rsm q) = room (as_rsm p) - length (concat ds))"
  using assms
proof (induction ds arbitrary: p h)
  case Nil
  then show ?case by (auto intro!: exI [of _ "[]"])
next
  case (Cons d ds)
  let ?fd = "p_req_sockfd p"
  let ?h = "h @ [Recv ?fd (room (as_rsm p))]"
  have d: "d \<noteq> []" "length d < room (as_rsm p)" "length d \<le> room (as_rsm p)"
    "k_recv k h ?fd (room (as_rsm p)) = RecvData d"
    "supplies k ?h ?fd (room (as_rsm p) - length d) ds" using Cons.prems by auto
  have step: "peer_loop k p h =
      rbind (feed_blocking p d) (\<lambda>q. peer_loop k q ?h)"
    using RecvAndParse_data [OF d(4,1,3)] stored_printable [OF Cons.prems(1) d(2)]
      peer_loop_step [OF Cons.prems(2), of k h]
    by (cases "feed_blocking p d") auto
  show ?case
  proof (cases "feed_blocking p d")
    case (Inl f)
    with step show ?thesis by simp
  next
    case (Inr q)
    have ready: "rsm_ready (as_rsm q)"
      using feed_ready [OF Cons.prems(1) d(3) feed_blocking_Inr [OF Inr]] .
    note fr = feed_blocking_frame [OF Inr]
    have room: "room (as_rsm q) = room (as_rsm p) - length d" using fr by (simp add: room_as_rsm)
    show ?thesis
    proof (cases "undecided q")
      case False
      with Inr step fr show ?thesis by (auto intro!: exI [of _ "[Recv ?fd (room (as_rsm p))]"])
    next
      case True
      have "case feed_seq feed_blocking undecided q ds of
          Inl f \<Rightarrow> peer_loop k q ?h = Inl f
        | Inr u \<Rightarrow> \<exists>rs. peer_loop k q ?h = peer_loop k u (?h @ rs) \<and> only_recv (p_req_sockfd q) rs \<and>
            p_req_sockfd u = p_req_sockfd q \<and>
            (undecided u \<longrightarrow> rs = recvs (p_req_sockfd q) (room (as_rsm q)) ds \<and>
               room (as_rsm u) = room (as_rsm q) - length (concat ds))"
        by (rule Cons.IH [OF ready True]) (use fr room d Cons.prems(4) in auto)
      then show ?thesis using step Inr True fr room by (auto split: sum.splits)
    qed
  qed
qed

section \<open>Every connection\<close>

lemma RecvAndParse_cases:
  assumes "RecvAndParse k p h = Inr (q, h')"
  shows "h' = h @ [Recv (p_req_sockfd p) (room (as_rsm p))] \<and> p_req_sockfd q = p_req_sockfd p \<and>
    (undecided p \<and> undecided q \<and> rsm_ready (as_rsm p) \<longrightarrow> rsm_ready (as_rsm q))"
proof (cases "k_recv k h (p_req_sockfd p) (room (as_rsm p))")
  case (RecvErr e)
  with assms show ?thesis
    by (auto simp: RecvAndParse_def Let_def room_as_rsm undecided_def)
next
  case (RecvData d)
  show ?thesis
  proof (cases "d = []")
    case True
    with RecvData assms show ?thesis
      by (auto simp: RecvAndParse_def Let_def room_as_rsm undecided_def)
  next
    case False
    with RecvData assms have len: "length d \<le> room (as_rsm p)"
      and q: "feed_blocking p d = Inr q" and h: "h' = h @ [Recv (p_req_sockfd p) (room (as_rsm p))]"
      by (auto simp: RecvAndParse_def Let_def room_as_rsm map_res_eq_simps split: if_splits)
    then show ?thesis
      using feed_blocking_frame [OF q] feed_ready [OF _ len feed_blocking_Inr [OF q]] by simp
  qed
qed

lemma RecvAndParse_fault:
  assumes "rsm_ready (as_rsm p)" "recv_bounded k" "undecided p" "RecvAndParse k p h = Inl f"
  shows "f = NullDeref \<or> f = Unterminated"
proof -
  obtain d where d: "k_recv k h (p_req_sockfd p) (room (as_rsm p)) = RecvData d"
    and f: "f = Unterminated \<or> feed_blocking p d = Inl f"
    and len: "length d \<le> room (as_rsm p)"
  proof (cases "k_recv k h (p_req_sockfd p) (room (as_rsm p))")
    case (RecvErr e)
    with assms(4) show thesis by (simp add: RecvAndParse_def Let_def room_as_rsm)
  next
    case (RecvData d)
    then have len: "length d \<le> room (as_rsm p)" using assms(2) by (simp add: recv_bounded_def)
    show thesis
      by (rule that [OF RecvData _ len])
         (use RecvData len assms(4) in
           \<open>auto simp: RecvAndParse_def Let_def room_as_rsm map_res_eq_simps split: if_splits\<close>)
  qed
  have "f = NullDeref" if "feed_blocking p d = Inl f"
    using feed_fault [of "as_rsm p" d f] that assms(1,3) len
    by (simp add: feed_as_rsm wants_more_as_rsm rsm_ready_def)
  with f show ?thesis by blast
qed

lemma peer_loop_run:
  "case peer_loop k p h of
     Inl f \<Rightarrow> rsm_ready (as_rsm p) \<and> recv_bounded k \<longrightarrow> f = NullDeref \<or> f = Unterminated
   | Inr (q, h') \<Rightarrow> \<not> undecided q \<and> (\<exists>rs. h' = h @ rs \<and> only_recv (p_req_sockfd p) rs)"
proof (induction k p h rule: peer_loop.induct)
  case (1 k p h)
  show ?case
  proof (cases "undecided p")
    case False
    then show ?thesis by (simp add: peer_loop_done)
  next
    case True
    show ?thesis
    proof (cases "RecvAndParse k p h")
      case (Inl f)
      then show ?thesis
        using RecvAndParse_fault [of p k h f] True by (simp add: peer_loop_step)
    next
      case (Inr r)
      obtain q h1 where r: "r = (q, h1)" by (cases r)
      note c = RecvAndParse_cases [OF Inr [unfolded r]]
      from "1.IH" [OF True [unfolded undecided_def] Inr r [symmetric]] c True Inr r show ?thesis
        by (cases "undecided q") (auto simp: peer_loop_step peer_loop_done split: sum.splits prod.splits)
    qed
  qed
qed

end
