(* ===== verification/BlockingRuns.thy ===== *)
theory BlockingRuns
  imports BlockingLemmas
begin

text \<open>
  What a connection gets from the blocking server, as a function of the stream received on it,
  and the shape of a whole run: a sequence of sessions.
\<close>

section \<open>One connection\<close>

definition reply :: "result_code \<Rightarrow> fd \<Rightarrow> trace" where
  "reply r fd = (if r = RES_GOT_REQUEST then [Writev fd [hello_head, hello_body]] else [])"

lemma RespondHelloHTTP_trace:
  "RespondHelloHTTP fd h = Inr (h @ [Writev fd [hello_head, hello_body]])"
  using hello_iov_eq [of kHeaderBufSize kDataBufSize]
  by (simp add: RespondHelloHTTP_def kHeaderBufSize_def kDataBufSize_def)

lemma serve_peer_eq:
  "serve_peer k fd h =
     map_res (\<lambda>(p, h). h @ reply (p_result p) fd @ [Close fd]) (peer_loop k (new_parser fd) h)"
proof (cases "peer_loop k (new_parser fd) h")
  case (Inr r)
  then show ?thesis
    by (cases r; cases "p_result (fst r)")
       (auto simp: serve_peer_def reply_def RespondHelloHTTP_trace)
qed (simp add: serve_peer_def)

lemma new_parser_fields [simp]:
  "p_req_sockfd (new_parser fd) = fd" "undecided (new_parser fd)"
  "room (as_rsm (new_parser fd)) = k_recvbuf_size" "pending_bytes (as_rsm (new_parser fd)) = []"
  "p_check_stat (new_parser fd) = CHECK_STAT_REQLINE"
  by (simp_all add: new_parser_def undecided_def room_def pending_bytes_def)

lemma new_parser_init: "as_rsm (new_parser fd) = init 0 fd a_peer (as_rsm (new_parser fd))"
  by (simp add: new_parser_def as_rsm_def init_def kReqBufSize_eq)

lemma new_parser_ready: "rsm_ready (as_rsm (new_parser fd))"
  using rsm_ready_init new_parser_init by metis

text \<open>What a stream that fits makes of a fresh parser.\<close>

lemma feed_seq_blocking:
  assumes "length (concat ds) \<le> k_recvbuf_size" "\<not> bare_cr (concat ds)"
  shows "map_res p_result (feed_seq feed_blocking undecided (new_parser fd) ds) =
         map_res fst (spec_batch LINE_STAT_OK CHECK_STAT_REQLINE (concat ds))"
proof (cases ds)
  case Nil
  then show ?thesis
    by (subst spec_batch.simps) (simp add: first_line_def new_parser_def)
next
  case (Cons d es)
  have ok: "feed_ok (as_rsm (new_parser fd)) (concat (d # es))"
    using feed_ok_init assms Cons new_parser_init by metis
  from feed_outcome [OF ok]
  have "map_res m_result (feed (as_rsm (new_parser fd)) (concat (d # es))) =
      map_res fst (spec_batch LINE_STAT_OK CHECK_STAT_REQLINE (concat ds))"
    using Cons by (simp add: wants_more_as_rsm)
  with blk.feed_seq_concat [OF ok new_parser_fields(2)] Cons show ?thesis
    by (simp only: feed_as_rsm outcome_as_rsm)
qed

text \<open>A connection on which the stream \<open>ds\<close> is received.\<close>

lemma serve_peer_supplied:
  assumes "length (concat ds) < k_recvbuf_size" "\<not> bare_cr (concat ds)"
    "supplies k h fd k_recvbuf_size ds"
  shows "case spec_batch LINE_STAT_OK CHECK_STAT_REQLINE (concat ds) of
      Inl f \<Rightarrow> serve_peer k fd h = Inl f
    | Inr (r, _) \<Rightarrow>
        if r \<noteq> RES_NO_REQUEST
        then \<exists>rs. serve_peer k fd h = Inr (h @ rs @ reply r fd @ [Close fd]) \<and> only_recv fd rs
        else let n = k_recvbuf_size - length (concat ds) in
          \<exists>q. p_req_sockfd q = fd \<and> undecided q \<and> room (as_rsm q) = n \<and>
            serve_peer k fd h = map_res (\<lambda>(p, h). h @ reply (p_result p) fd @ [Close fd])
              (peer_loop k q (h @ recvs fd k_recvbuf_size ds))"
proof -
  let ?p = "new_parser fd"
  have "supplies k h (p_req_sockfd ?p) (room (as_rsm ?p)) ds" "length (concat ds) < room (as_rsm ?p)"
    using assms by simp_all
  note pl = peer_loop_supplied [OF new_parser_ready _ this]
  have out: "map_res p_result (feed_seq feed_blocking undecided ?p ds) =
         map_res fst (spec_batch LINE_STAT_OK CHECK_STAT_REQLINE (concat ds))"
    by (rule feed_seq_blocking) (use assms in auto)
  show ?thesis
  proof (cases "feed_seq feed_blocking undecided ?p ds")
    case (Inl f)
    with pl out show ?thesis by (auto simp: serve_peer_eq map_res_eq_simps split: sum.split)
  next
    case (Inr q)
    then obtain rest where
      sp: "spec_batch LINE_STAT_OK CHECK_STAT_REQLINE (concat ds) = Inr (p_result q, rest)"
      using out by (auto simp: map_res_eq_simps)
    from pl Inr obtain rs where rs: "peer_loop k ?p h = peer_loop k q (h @ rs)" "only_recv fd rs"
      "p_req_sockfd q = fd" "undecided q \<Longrightarrow> rs = recvs fd k_recvbuf_size ds \<and>
           room (as_rsm q) = k_recvbuf_size - length (concat ds)" by auto
    show ?thesis
    proof (cases "undecided q")
      case True
      then show ?thesis using rs sp by (auto simp: serve_peer_eq undecided_def)
    next
      case False
      then show ?thesis using rs sp by (auto simp: serve_peer_eq undecided_def peer_loop_done)
    qed
  qed
qed

text \<open>The peer ends the stream.\<close>

lemma peer_loop_end:
  assumes "undecided q" "k_recv k h (p_req_sockfd q) (room (as_rsm q)) = RecvData []"
  shows "peer_loop k q h =
    Inr (q\<lparr>p_result := RES_DONE_RECV\<rparr>, h @ [Recv (p_req_sockfd q) (room (as_rsm q))])"
  using assms
  by (simp add: peer_loop_step RecvAndParse_def Let_def room_as_rsm peer_loop_done undecided_def)

lemma recvs_only: "only_recv fd (recvs fd n ds)"
  by (induction fd n ds rule: recvs.induct) auto

section \<open>Whole runs\<close>

text \<open>
  One session: the connection is accepted, received from, answered or not, and closed.
\<close>

definition session :: "fd \<Rightarrow> fd \<times> trace \<times> result_code \<Rightarrow> trace" where
  "session my_sockfd = (\<lambda>(fd, rs, r). Accept my_sockfd # rs @ reply r fd @ [Close fd])"

definition session_ok :: "fd \<times> trace \<times> result_code \<Rightarrow> bool" where
  "session_ok = (\<lambda>(fd, rs, r). only_recv fd rs \<and> r \<noteq> RES_NO_REQUEST)"

lemma serve_peer_run:
  "case serve_peer k fd h of
     Inl f \<Rightarrow> recv_bounded k \<longrightarrow> f = NullDeref \<or> f = Unterminated
   | Inr h' \<Rightarrow> \<exists>rs r. h' = h @ rs @ reply r fd @ [Close fd] \<and> session_ok (fd, rs, r)"
  using peer_loop_run [where k = k and p = "new_parser fd" and h = h] new_parser_ready [of fd]
  by (cases "peer_loop k (new_parser fd) h")
     (fastforce simp: serve_peer_eq session_ok_def undecided_def)+

lemma serve_loop_run:
  "serve_loop fuel k my_sockfd h = Some r \<Longrightarrow> case r of
     Inl f \<Rightarrow> recv_bounded k \<longrightarrow> f = NullDeref \<or> f = Unterminated
   | Inr (c, h') \<Rightarrow> \<exists>ss. list_all session_ok ss \<and>
       (c = 0 \<and> h' = h @ concat (map (session my_sockfd) ss) \<or>
        c = 1 \<and> h' = h @ concat (map (session my_sockfd) ss) @ [Accept my_sockfd])"
proof (induction fuel k my_sockfd h rule: serve_loop.induct)
  case (1 fuel k my_sockfd h)
  note unf = serve_loop.simps [of fuel k my_sockfd h]
  show ?case
  proof (cases "k_sigterm k h")
    case True
    with "1.prems" show ?thesis by (auto simp: unf intro!: exI [of _ "[]"])
  next
    case run: False
    with "1.prems" obtain n where n: "fuel = Suc n" by (auto simp: unf split: nat.splits)
    note unf = serve_loop.simps [of "Suc n" k my_sockfd h]
    show ?thesis
    proof (cases "k_accept k h my_sockfd")
      case (AcceptErr e)
      with "1.prems" run n show ?thesis by (auto simp: unf intro!: exI [of _ "[]"])
    next
      case (Accepted fd a)
      note sp = serve_peer_run [where k = k and fd = fd and h = "h @ [Accept my_sockfd]"]
      show ?thesis
      proof (cases "serve_peer k fd (h @ [Accept my_sockfd])")
        case (Inl f)
        with "1.prems" run n Accepted sp show ?thesis by (auto simp: unf)
      next
        case (Inr h1)
        then obtain rs q where s: "h1 = h @ session my_sockfd (fd, rs, q)" "session_ok (fd, rs, q)"
          using sp by (auto simp: session_def)
        have "serve_loop n k my_sockfd h1 = Some r"
          using "1.prems" run n Accepted Inr by (simp add: unf)
        from "1.IH" [OF run n Accepted Inr this] s show ?thesis
          by (fastforce split: sum.splits intro: exI [of _ "(fd, rs, q) # _"])
      qed
    qed
  qed
qed

end
