(* ===== verification/BlockingProps.thy ===== *)
theory BlockingProps
  imports BlockingRuns
begin

text \<open>
  The properties of the two single-process servers of \<^verbatim>\<open>src/examples/framework-intro\<close>:
  \<^verbatim>\<open>handle_http_request.cc\<close> and \<^verbatim>\<open>respond_http.cc\<close>.
\<close>

section \<open>Properties: the blocking server\<close>

text \<open>
  C5. The blocking server answers every well formed request that fits its buffer, in whatever
  number of receives it arrives (the pool server only one that arrives in one readiness event):
  after the receives the response is written to the connection, which is then closed.
\<close>

theorem blocking_request_answered:
  assumes "good_request rl hs" "concat ds = http_request rl hs"
    "length (http_request rl hs) < kReqBufSize" "supplies k h fd kReqBufSize ds"
  shows "\<exists>rs. serve_peer k fd h =
      Inr (h @ rs @ [Writev fd [hello_head, hello_body], Close fd]) \<and> only_recv fd rs"
  using serve_peer_supplied [of ds k h fd] assms good_request_no_bare_cr [OF assms(1)]
    spec_batch_request [OF assms(1), of "[]"]
  by (simp add: kReqBufSize_eq reply_def)

lemma blocking_request_answered_witness:
  "let ds = [''GET / HT'', ''TP/1.1'' @ [CR], LF # ''Host: x'' @ CRLF @ CRLF] in
   \<exists>rs. serve_peer (recv_script ds) 7 [Accept 4] =
      Inr ([Accept 4] @ rs @ [Writev 7 [hello_head, hello_body], Close 7]) \<and> only_recv 7 rs"
proof -
  let ?ds = "[''GET / HT'', ''TP/1.1'' @ [CR], LF # ''Host: x'' @ CRLF @ CRLF]"
  have ok: "request_line_ok ''GET / HTTP/1.1''"
    unfolding request_line_ok_def
    by (intro exI [of _ "''GET''"] exI [of _ SPACE] exI [of _ "''/''"] exI [of _ "''HTTP/1.1''"])
       (simp add: blanks_def method_ok_def version_ok_def strcasecmp_eq_def)
  have sup: "supplies (recv_script ?ds) [Accept 4] 7 kReqBufSize ?ds"
    by (rule delivers_supplies, rule delivers_script)
       (simp_all add: is_recv_def kReqBufSize_eq k_recvbuf_size_eq)
  show ?thesis
    unfolding Let_def
    by (rule blocking_request_answered [where rl = "''GET / HTTP/1.1''" and hs = "[''Host: x'']", OF _ _ _ sup])
       (simp_all add: good_request_def ok text_line_def http_request_def kReqBufSize_eq k_recvbuf_size_eq)
qed

text \<open>
  A connection of the blocking server in full, for any stream that fits the buffer (in which
  every CR precedes a LF), cut in any way and then ended by the peer: the server ends in the
  fault, or writes the response and closes, or only closes, as the specification of the whole
  stream says; a stream that leaves the parser undecided is closed without an answer.
\<close>

theorem blocking_stream_spec:
  assumes "length (concat ds) < kReqBufSize" "\<not> bare_cr (concat ds)" "supplies k h fd kReqBufSize ds"
    "k_recv k (h @ recvs fd kReqBufSize ds) fd (kReqBufSize - length (concat ds)) = RecvData []"
  shows "case spec_batch LINE_STAT_OK CHECK_STAT_REQLINE (concat ds) of
      Inl f \<Rightarrow> serve_peer k fd h = Inl f
    | Inr (r, _) \<Rightarrow> \<exists>rs. serve_peer k fd h = Inr (h @ rs @ reply r fd @ [Close fd]) \<and> only_recv fd rs"
proof -
  note sp = serve_peer_supplied [OF assms(1,2,3) [unfolded kReqBufSize_eq]]
  have "\<exists>rs. serve_peer k fd h = Inr (h @ rs @ reply RES_NO_REQUEST fd @ [Close fd]) \<and> only_recv fd rs"
    if none: "spec_batch LINE_STAT_OK CHECK_STAT_REQLINE (concat ds) = Inr (RES_NO_REQUEST, v)" for v
  proof -
    let ?rs = "recvs fd k_recvbuf_size ds"
    let ?n = "k_recvbuf_size - length (concat ds)"
    obtain q where q: "p_req_sockfd q = fd" "undecided q" "room (as_rsm q) = ?n"
      "serve_peer k fd h = map_res (\<lambda>(p, h). h @ reply (p_result p) fd @ [Close fd])
              (peer_loop k q (h @ ?rs))"
      using sp none by (auto simp: Let_def)
    then have "serve_peer k fd h = Inr (h @ (?rs @ [Recv fd ?n]) @ reply RES_NO_REQUEST fd @ [Close fd])"
      using peer_loop_end [OF q(2), of k "h @ ?rs"] assms(4) by (simp add: kReqBufSize_eq reply_def)
    then show ?thesis using recvs_only [of fd] by (fastforce simp: only_recv_def)
  qed
  then show ?thesis using sp by (auto split: sum.splits if_splits)
qed

lemma blocking_stream_spec_witness:
  "\<exists>rs. serve_peer (recv_script [''GET '', ''/ HT'', []]) 7 [] = Inr ([] @ rs @ [] @ [Close 7]) \<and> only_recv 7 rs"
proof -
  let ?ds = "[''GET '', ''/ HT'']"
  let ?k = "recv_script [''GET '', ''/ HT'', []]"
  have "spec_batch LINE_STAT_OK CHECK_STAT_REQLINE (concat ?ds) =
      Inr (RES_NO_REQUEST, LINE_STAT_OPEN, CHECK_STAT_REQLINE, ''GET / HT'')"
    by (subst spec_batch.simps) (simp add: first_line_def)
  moreover have "supplies ?k [] 7 kReqBufSize ?ds"
    "k_recv ?k ([] @ recvs 7 kReqBufSize ?ds) 7 (kReqBufSize - length (concat ?ds)) = RecvData []"
    by (simp_all add: recv_script_recv kReqBufSize_eq k_recvbuf_size_eq)
  moreover have "length (concat ?ds) < kReqBufSize" "\<not> bare_cr (concat ?ds)"
    by (simp_all add: kReqBufSize_eq k_recvbuf_size_eq)
  ultimately show ?thesis
    using blocking_stream_spec [of ?ds ?k "[]" 7] by (simp add: reply_def)
qed


text \<open>A kernel on which the set-up succeeds and one connection arrives, with a script of batches.\<close>

definition one_connection :: "char list list \<Rightarrow> kernel" where
  "one_connection ds = (recv_script ds)
     \<lparr>k_socket := \<lambda>h. 3, k_bind := \<lambda>h fd. 0, k_listen := \<lambda>h fd. 0,
      k_accept := \<lambda>h fd. if list_ex is_accept h then AcceptErr EBADF else Accepted 7 a_peer\<rparr>"

lemma one_connection_simps [simp]:
  "k_recv (one_connection ds) = k_recv (recv_script ds)" "\<not> k_sigterm (one_connection ds) h"
  "k_accept (one_connection ds) h fd =
     (if list_ex is_accept h then AcceptErr EBADF else Accepted 7 a_peer)"
  "open_listener (one_connection ds) addr = Inr (3, [SocketCreate, Bind 3 addr, Listen 3 5])"
  by (simp_all add: one_connection_def open_listener_def recv_script_def idle_kernel_def Let_def)


text \<open>
  C38. The two parsers of the repository, the one of the pool server and the one of the blocking
  server, agree on every state: same buffer, indices, statuses and result, or the same fault.
\<close>

theorem parsers_agree:
  "parse_batch (as_rsm p) = map_res as_rsm (ParseBatch p)"
  by (rule ParseBatch_as_rsm)

section \<open>Properties: the greeting server\<close>

definition greeting :: "fd \<Rightarrow> fd \<Rightarrow> trace" where
  "greeting my_sockfd fd =
     [Sleep 1, Accept my_sockfd, Writev fd [hello_head, hello_body], Close fd]"

lemma greet_loop_run:
  "greet_loop fuel k my_sockfd h = Some r \<Longrightarrow>
     \<exists>c fds. r = Inr (c, h @ concat (map (greeting my_sockfd) fds) @
       (if c = 0 then [Close my_sockfd] else [Sleep 1, Accept my_sockfd]))"
proof (induction fuel k my_sockfd h rule: greet_loop.induct)
  case (1 fuel k my_sockfd h)
  show ?case
  proof (cases "k_sigterm k h")
    case True
    with "1.prems" show ?thesis
      by (subst (asm) greet_loop.simps) (auto intro!: exI [of _ "0 :: int"] exI [of _ "[]"])
  next
    case run: False
    with "1.prems" obtain n where n: "fuel = Suc n"
      by (subst (asm) greet_loop.simps) (auto split: nat.splits)
    note unf = greet_loop.simps [of "Suc n" k my_sockfd h] RespondHelloHTTP_trace
    show ?thesis
    proof (cases "k_accept k (h @ [Sleep 1]) my_sockfd")
      case (AcceptErr e)
      with "1.prems" run n show ?thesis
        by (auto simp: unf intro!: exI [of _ "1 :: int"] exI [of _ "[]"])
    next
      case (Accepted fd a)
      have g: "(((h @ [Sleep 1]) @ [Accept my_sockfd]) @ [Writev fd [hello_head, hello_body]]) @ [Close fd] =
          h @ greeting my_sockfd fd" by (simp add: greeting_def)
      have "greet_loop n k my_sockfd (h @ greeting my_sockfd fd) = Some r"
        using "1.prems" run n Accepted by (simp add: unf greeting_def)
      from "1.IH" [OF run n refl Accepted RespondHelloHTTP_trace, unfolded g, OF this]
      obtain c fds where "r = Inr (c, (h @ greeting my_sockfd fd) @
          concat (map (greeting my_sockfd) fds) @
          (if c = 0 then [Close my_sockfd] else [Sleep 1, Accept my_sockfd]))"
        by blast
      then show ?thesis by (auto intro!: exI [of _ c] exI [of _ "fd # fds"])
    qed
  qed
qed

text \<open>
  The greeting server never faults; it sends the response to every connection it accepts, in
  the order of acceptance, and closes it; and it closes its own socket when it ends by SIGTERM.
\<close>

theorem greet_main_greets:
  assumes "greet_main fuel k addr = Some r" "open_listener k addr = Inr (my_sockfd, h0)"
  shows "\<exists>c fds. r = Inr (c, h0 @ concat (map (greeting my_sockfd) fds) @
    (if c = 0 then [Close my_sockfd] else [Sleep 1, Accept my_sockfd]))"
  using greet_loop_run assms by (simp add: greet_main_def)

end
