(* ===== verification/FirstPool.thy ===== *)
theory FirstPool
  imports MainMultiProc
begin

text \<open>
  \<^verbatim>\<open>src/examples/multitasking/processpool.h\<close>, the first version of the pool, from which
  \<^verbatim>\<open>src/ProcessPool.h\<close> and \<^verbatim>\<open>src/Process.cc\<close> were made. The pool itself holds the listening socket and the
  epoll descriptor, its array has the children only, numbered from 0, and a process knows its
  role by \<open>m_sub_idx\<close>. The loop of a child is, statement for statement, that of the second version:
  its definition is shared.
\<close>

section \<open>Helpers\<close>

definition setnonblocking :: "kernel \<Rightarrow> fd \<Rightarrow> trace \<Rightarrow> trace" where
  "setnonblocking k fd h =
     (let old_opt = k_getfl k h fd; new_opt = old_opt OR O_NONBLOCK in
      h @ [FcntlGetFl fd, FcntlSetFl fd new_opt])"

definition epoll_addfd :: "fd \<Rightarrow> fd \<Rightarrow> trace \<Rightarrow> trace" where
  "epoll_addfd epollfd fd h = h @ [EpollCtlAdd epollfd fd (EPOLLIN OR EPOLLET)]"

definition test_epoll_addfd_lt :: "fd \<Rightarrow> fd \<Rightarrow> trace \<Rightarrow> trace" where
  "test_epoll_addfd_lt epollfd fd h = h @ [EpollCtlAdd epollfd fd EPOLLIN]"

definition epoll_delfd :: "fd \<Rightarrow> fd \<Rightarrow> trace \<Rightarrow> trace" where
  "epoll_delfd epollfd fd h = h @ [EpollCtlDel epollfd fd, Close fd]"

definition sio_handler :: "sig_pipe \<Rightarrow> int \<Rightarrow> trace \<Rightarrow> trace" where
  "sio_handler sig_pipefd signum h = h @ [Send (snd sig_pipefd) [char_of (nat signum)]]"

definition add_sigaction :: "kernel \<Rightarrow> int \<Rightarrow> trace \<Rightarrow> trace res" where
  "add_sigaction k signum h =
     (if \<not> k_sigaction k h signum \<noteq> -1 then Inl AssertFail else Inr (h @ [Sigaction signum]))"

text \<open>The second version has the same helpers under other names.\<close>

lemma first_helpers [simp]:
  "setnonblocking = SetNonBlocking" "epoll_addfd = EpollAddFd" "test_epoll_addfd_lt = TestEpollAddFdLT"
  "epoll_delfd = EpollDelFd" "sio_handler = SioHandler" "add_sigaction = AddSigaction"
  by (auto simp: fun_eq_iff setnonblocking_def SetNonBlocking_def epoll_addfd_def EpollAddFd_def
      test_epoll_addfd_lt_def TestEpollAddFdLT_def epoll_delfd_def EpollDelFd_def sio_handler_def
      SioHandler_def add_sigaction_def AddSigaction_def Let_def)

section \<open>The pool and its constructor\<close>

record subprocess =
  sp_pid :: pid
  sp_pipefd :: "(fd \<times> fd) option"   \<comment> \<open>not set by the constructor: \<open>None\<close>\<close>

definition subprocess_new :: subprocess where
  "subprocess_new = \<lparr>sp_pid = -1, sp_pipefd = None\<rparr>"

record processpool =
  pp_listenfd :: fd
  pp_epollfd :: fd
  pp_num_process :: nat
  pp_sub_idx :: int
  pp_sub_process :: "subprocess list"
  pp_stop :: bool

text \<open>The loop of the constructor: the index of this child, or -1 in the parent, and the array.\<close>

function fork_children ::
  "kernel \<Rightarrow> nat \<Rightarrow> nat \<Rightarrow> subprocess list \<Rightarrow> trace \<Rightarrow> (int \<times> subprocess list \<times> trace) res" where
  "fork_children k n i ps h =
     (if i < n then
        (case k_socketpair k h of
           None \<Rightarrow> Inl AssertFail
         | Some (rfd, wfd) \<Rightarrow>
             let h = h @ [SocketPair];
                 pid = k_fork k h;
                 h = h @ [Fork] in
             if \<not> 0 \<le> pid then Inl AssertFail
             else
               let ps = ps[i := (ps ! i)\<lparr>sp_pipefd := Some (rfd, wfd), sp_pid := pid\<rparr>] in
               if pid = 0 then Inr (int i, ps, setnonblocking k rfd h @ [Close wfd])
               else fork_children k n (i + 1) ps (setnonblocking k wfd h @ [Close rfd]))
      else Inr (-1, ps, h))"
  by pat_completeness auto
termination by (relation "measure (\<lambda>(k, n, i, ps, h). n - i)") auto

declare fork_children.simps [simp del]

definition processpool_new :: "kernel \<Rightarrow> fd \<Rightarrow> int \<Rightarrow> trace \<Rightarrow> (processpool \<times> trace) res" where
  "processpool_new k listenfd num_process h =
     (if \<not> (0 \<le> num_process \<and> num_process \<le> k_max_num_process) then Inl AssertFail
      else
        rbind (fork_children k (nat num_process) 0 (replicate (nat num_process) subprocess_new) h)
          (\<lambda>(sub_idx, ps, h).
        Inr (\<lparr>pp_listenfd = listenfd, pp_epollfd = -1, pp_num_process = nat num_process,
              pp_sub_idx = sub_idx, pp_sub_process = ps, pp_stop = False\<rparr>, h)))"

text \<open>\<open>create\<close>: the pool is made once; later calls return the one there is.\<close>

definition processpool_create ::
  "kernel \<Rightarrow> processpool option \<Rightarrow> fd \<Rightarrow> int \<Rightarrow> trace \<Rightarrow> (processpool \<times> processpool option \<times> trace) res" where
  "processpool_create k m_instance listenfd num_process h =
     (case m_instance of
        None \<Rightarrow> map_res (\<lambda>(pool, h). (pool, Some pool, h)) (processpool_new k listenfd num_process h)
      | Some pool \<Rightarrow> Inr (pool, Some pool, h))"

section \<open>Set-up\<close>

definition setup_epoll :: "kernel \<Rightarrow> processpool \<Rightarrow> trace \<Rightarrow> (processpool \<times> trace) res" where
  "setup_epoll k pool h =
     (let pool = pool\<lparr>pp_epollfd := k_epoll_create k h\<rparr> in
      if pp_epollfd pool = -1 then Inl AssertFail else Inr (pool, h @ [EpollCreate 5]))"

definition setup_sig_pipe :: "kernel \<Rightarrow> processpool \<Rightarrow> trace \<Rightarrow> (sig_pipe \<times> trace) res" where
  "setup_sig_pipe k pool h =
     (if pp_epollfd pool = -1 then Inl AssertFail
      else case k_socketpair k h of
        None \<Rightarrow> Inl AssertFail
      | Some sig_pipefd \<Rightarrow>
          rbind (add_sigaction k SIGTERM (h @ [SocketPair])) (\<lambda>h.
          rbind (add_sigaction k SIGINT h) (\<lambda>h.
          rbind (add_sigaction k SIGCHLD h) (\<lambda>h.
          Inr (sig_pipefd, epoll_addfd (pp_epollfd pool) (fst sig_pipefd) h)))))"

section \<open>\<open>run_parent\<close>\<close>

record first_parent =
  fp_pool :: processpool
  fp_sig_pipefd :: sig_pipe
  fp_sub_process_idx :: nat
  fp_trace :: trace

text \<open>The selection loop. In a pool without children the first read is outside the array.\<close>

definition sub_body :: "subprocess list \<Rightarrow> nat \<Rightarrow> nat \<Rightarrow> bool \<times> nat \<Rightarrow> bool \<times> nat" where
  "sub_body ps n sub_process_idx st =
     (let sel = snd st in
      if sp_pid (ps ! sel) \<noteq> -1 then (False, sel)
      else let sel = (sel + 1) mod n in (sel \<noteq> sub_process_idx, sel))"

definition sub_select :: "subprocess list \<Rightarrow> nat \<Rightarrow> nat \<Rightarrow> nat res" where
  "sub_select ps n sub_process_idx =
     (if \<not> sub_process_idx < length ps then Inl OutOfBounds
      else case while_option fst (sub_body ps n sub_process_idx) (True, sub_process_idx) of
        None \<Rightarrow> Inl Diverges
      | Some (_, sel) \<Rightarrow> Inr sel)"

definition first_accept :: "first_parent \<Rightarrow> first_parent res" where
  "first_accept s =
     (let pool = fp_pool s in
      rbind (sub_select (pp_sub_process pool) (pp_num_process pool) (fp_sub_process_idx s)) (\<lambda>sel.
      case sp_pipefd (pp_sub_process pool ! sel) of
        None \<Rightarrow> Inl Uninitialised
      | Some (rfd, wfd) \<Rightarrow>
          Inr (s\<lparr>fp_sub_process_idx := (sel + 1) mod pp_num_process pool,
                 fp_trace := fp_trace s @ [Send wfd (''1'' @ [NUL])]\<rparr>)))"

definition first_kill_children :: "processpool \<Rightarrow> trace" where
  "first_kill_children pool =
     concat (map (\<lambda>idx. let pid = sp_pid (pp_sub_process pool ! idx) in
       if pid \<noteq> -1 then [Kill pid SIGTERM] else []) [0..<pp_num_process pool])"

definition first_signal :: "char \<Rightarrow> first_parent \<Rightarrow> first_parent" where
  "first_signal c s =
     (if is_sigchld c then s
      else if is_stop_signal c then
        s\<lparr>fp_pool := (fp_pool s)\<lparr>pp_stop := True\<rparr>,
          fp_trace := fp_trace s @ first_kill_children (fp_pool s)\<rparr>
      else s)"

definition first_event :: "kernel \<Rightarrow> epoll_event \<Rightarrow> first_parent \<Rightarrow> first_parent res" where
  "first_event k ev s =
     (let ev_fd = data_fd ev in
      if ev_fd = pp_listenfd (fp_pool s) then first_accept s
      else if ev_fd = fst (fp_sig_pipefd s) \<and> events ev AND EPOLLIN \<noteq> 0 then
        (let ret = k_recv k (fp_trace s) ev_fd 10;
             s = s\<lparr>fp_trace := fp_trace s @ [Recv ev_fd 10]\<rparr> in
         case ret of
           RecvErr e \<Rightarrow> Inr s
         | RecvData sigs \<Rightarrow>
             if 10 < length sigs then Inl OutOfBounds else Inr (fold first_signal sigs s))
      else Inr s)"

fun first_events :: "kernel \<Rightarrow> epoll_event list \<Rightarrow> first_parent \<Rightarrow> first_parent res" where
  "first_events k [] s = Inr s"
| "first_events k (ev # evs) s = rbind (first_event k ev s) (first_events k evs)"

definition first_round :: "kernel \<Rightarrow> first_parent \<Rightarrow> (bool \<times> first_parent) res" where
  "first_round k s =
     (let epfd = pp_epollfd (fp_pool s);
          ret = k_epoll_wait k (fp_trace s) epfd k_max_num_epoll_event;
          s = s\<lparr>fp_trace := fp_trace s @ [EpollWait epfd k_max_num_epoll_event]\<rparr> in
      case ret of
        EpollErr e \<Rightarrow> Inr (e \<noteq> EINTR, s)
      | EpollEvents evs \<Rightarrow>
          if k_max_num_epoll_event < length evs then Inl OutOfBounds
          else rbind (first_events k evs s) (\<lambda>s. Inr (False, s)))"

fun first_loop :: "nat \<Rightarrow> kernel \<Rightarrow> first_parent \<Rightarrow> first_parent res option" where
  "first_loop 0 k s = (if pp_stop (fp_pool s) then Some (Inr s) else None)"
| "first_loop (Suc n) k s =
     (if pp_stop (fp_pool s) then Some (Inr s)
      else case first_round k s of
             Inl f \<Rightarrow> Some (Inl f)
           | Inr (brk, s) \<Rightarrow> if brk then Some (Inr s) else first_loop n k s)"

definition run_parent_setup :: "kernel \<Rightarrow> processpool \<Rightarrow> trace \<Rightarrow> first_parent res" where
  "run_parent_setup k pool h =
     rbind (setup_epoll k pool h) (\<lambda>(pool, h).
     let h = test_epoll_addfd_lt (pp_epollfd pool) (pp_listenfd pool) h in
     rbind (setup_sig_pipe k pool h) (\<lambda>(sig_pipefd, h).
     Inr \<lparr>fp_pool = pool, fp_sig_pipefd = sig_pipefd, fp_sub_process_idx = 0, fp_trace = h\<rparr>))"

definition run_parent :: "nat \<Rightarrow> kernel \<Rightarrow> processpool \<Rightarrow> trace \<Rightarrow> trace res option" where
  "run_parent fuel k pool h =
     (case run_parent_setup k pool h of
        Inl f \<Rightarrow> Some (Inl f)
      | Inr s \<Rightarrow> map_option (map_res (\<lambda>s. fp_trace s @ [Close (pp_epollfd (fp_pool s))]))
          (first_loop fuel k s))"

section \<open>\<open>run_child\<close> and \<open>run\<close>\<close>

definition run_child_setup ::
  "kernel \<Rightarrow> processpool \<Rightarrow> trace \<Rightarrow> (child_fds \<times> trace) res" where
  "run_child_setup k pool h =
     rbind (setup_epoll k pool h) (\<lambda>(pool, h).
     let h = setnonblocking k (pp_listenfd pool) h; idx = pp_sub_idx pool in
     if idx < 0 \<or> int (length (pp_sub_process pool)) \<le> idx then Inl OutOfBounds
     else case sp_pipefd (pp_sub_process pool ! nat idx) of
       None \<Rightarrow> Inl Uninitialised
     | Some (ipc_pipefd, wfd) \<Rightarrow>
         let h = epoll_addfd (pp_epollfd pool) ipc_pipefd h in
         rbind (setup_sig_pipe k pool h) (\<lambda>(sig_pipefd, h).
         Inr (\<lparr>cf_epollfd = pp_epollfd pool, cf_listenfd = pp_listenfd pool,
               cf_ipc_pipefd = ipc_pipefd, cf_sig_pipefd = sig_pipefd\<rparr>, h)))"

definition run_child ::
  "nat \<Rightarrow> 'c client_class \<Rightarrow> (nat \<Rightarrow> 'c) \<Rightarrow> kernel \<Rightarrow> processpool \<Rightarrow> trace \<Rightarrow> trace res option" where
  "run_child fuel T clients0 k pool h =
     (case run_child_setup k pool h of
        Inl e \<Rightarrow> Some (Inl e)
      | Inr (f, h) \<Rightarrow>
          map_option (map_res (\<lambda>s.
              close_clients T 0 k_max_clientfd (ch_clients s) (ch_trace s) @ [Close (cf_epollfd f)]))
            (child_loop fuel T k f \<lparr>ch_stop = pp_stop pool, ch_clients = clients0, ch_trace = h\<rparr>))"

definition processpool_run ::
  "nat \<Rightarrow> 'c client_class \<Rightarrow> (nat \<Rightarrow> 'c) \<Rightarrow> kernel \<Rightarrow> processpool \<Rightarrow> trace \<Rightarrow> trace res option" where
  "processpool_run fuel T clients0 k pool h =
     (if pp_sub_idx pool = -1 then run_parent fuel k pool h else run_child fuel T clients0 k pool h)"

end
