(* ===== verification/FirstPoolSim.thy ===== *)
theory FirstPoolSim
  imports FirstPool
begin

text \<open>
  The second version of the pool does what the first one did: \<open>as_pool\<close> turns a pool object of
  the first version into one of the second, and the constructors, the event loop of the parent
  and the run of a child correspond through it, call for call.
\<close>

section \<open>The correspondence\<close>

definition as_parent_slot :: "pid \<Rightarrow> processpool \<Rightarrow> Process" where
  "as_parent_slot pid p =
     (if pp_sub_idx p = -1 then
        \<lparr>pr_pid = pid, pr_listenfd = pp_listenfd p, pr_epollfd = pp_epollfd p, pr_pool_id = 0,
         pr_fa_pipefd = None\<rparr>
      else Process_new)"

definition as_child_slot :: "processpool \<Rightarrow> nat \<Rightarrow> Process" where
  "as_child_slot p i =
     (let sp = pp_sub_process p ! i; mine = (int i = pp_sub_idx p) in
      \<lparr>pr_pid = sp_pid sp,
       pr_listenfd = (if mine then pp_listenfd p else -1),
       pr_epollfd = (if mine then pp_epollfd p else -1),
       pr_pool_id = (if mine then int i + 1 else -1),
       pr_fa_pipefd = sp_pipefd sp\<rparr>)"

definition as_pool :: "pid \<Rightarrow> processpool \<Rightarrow> ProcessPool" where
  "as_pool pid p =
     \<lparr>num_proc = pp_num_process p,
      procs = as_parent_slot pid p # map (as_child_slot p) [0..<length (pp_sub_process p)],
      stopped = pp_stop p\<rparr>"

lemma as_pool_simps [simp]:
  "num_proc (as_pool pid p) = pp_num_process p" "stopped (as_pool pid p) = pp_stop p"
  "length (procs (as_pool pid p)) = length (pp_sub_process p) + 1"
  "procs (as_pool pid p) ! 0 = as_parent_slot pid p"
  "i < length (pp_sub_process p) \<Longrightarrow> procs (as_pool pid p) ! Suc i = as_child_slot p i"
  by (simp_all add: as_pool_def)

lemma as_slot_simps [simp]:
  "pr_pid (as_child_slot p i) = sp_pid (pp_sub_process p ! i)"
  "pr_fa_pipefd (as_child_slot p i) = sp_pipefd (pp_sub_process p ! i)"
  by (simp_all add: as_child_slot_def Let_def)

section \<open>The constructors\<close>

definition slot :: "subprocess \<Rightarrow> Process" where
  "slot sp = Process_new\<lparr>pr_pid := sp_pid sp, pr_fa_pipefd := sp_pipefd sp\<rparr>"

definition forked ::
  "fd \<Rightarrow> nat \<Rightarrow> (int \<times> subprocess list \<times> trace) res \<Rightarrow> (bool \<times> Process list \<times> trace) res \<Rightarrow> bool" where
  "forked l n old new \<longleftrightarrow>
     (case old of
        Inl f \<Rightarrow> new = Inl f
      | Inr (idx, qs, h') \<Rightarrow> length qs = n \<and> (idx = -1 \<or> 0 \<le> idx \<and> nat idx < n) \<and>
          new = Inr (idx \<noteq> -1, Process_new #
            (if idx = -1 then map slot qs
             else (map slot qs)[nat idx := (slot (qs ! nat idx))\<lparr>pr_listenfd := l, pr_pool_id := idx + 1\<rparr>]), h'))"

lemma fork_children_sim:
  "length ps = n \<Longrightarrow> forked l n (fork_children k n i ps h)
     (create_children k l n (Suc i) (Process_new # map slot ps) h)"
proof (induction k n i ps h rule: fork_children.induct)
  case (1 k n i ps h)
  note unf = fork_children.simps [of k n i ps h] create_children.simps [of k l n "Suc i"]
  show ?case
  proof (cases "i < n")
    case False
    with "1.prems" show ?thesis by (simp add: unf forked_def)
  next
    case True
    show ?thesis
    proof (cases "k_socketpair k h")
      case None
      with True show ?thesis by (simp add: unf forked_def)
    next
      case (Some rw)
      obtain r w where rw: "k_socketpair k h = Some (r, w)" using Some by (cases rw) auto
      let ?pid = "k_fork k (h @ [SocketPair])"
      let ?qs = "ps[i := (ps ! i)\<lparr>sp_pipefd := Some (r, w), sp_pid := ?pid\<rparr>]"
      let ?h = "SetNonBlocking k w (h @ [SocketPair, Fork]) @ [Close r]"
      have slots: "(map slot ps)[i := (map slot ps ! i)\<lparr>pr_fa_pipefd := Some (r, w), pr_pid := ?pid\<rparr>] =
          map slot ?qs"
        using True "1.prems" by (simp add: map_update slot_def Process_new_def)
      show ?thesis
      proof (cases "0 < ?pid")
        case False
        with True rw "1.prems" slots show ?thesis
          by (auto simp: unf Let_def slot_def [abs_def] map_update Process_new_def add.commute forked_def)
      next
        case pos: True
        have "forked l n (fork_children k n (Suc i) ?qs ?h)
            (create_children k l n (Suc (Suc i)) (Process_new # map slot ?qs) ?h)"
          using "1.IH" [OF True rw refl refl refl refl] pos "1.prems" by simp
        then show ?thesis using True rw pos slots "1.prems" by (simp add: unf Let_def)
      qed
    qed
  qed
qed

lemma processpool_new_sim:
  "case processpool_new k l n h of
     Inl f \<Rightarrow> ProcessPool_new k l n h = Inl f
   | Inr (p, h1) \<Rightarrow> ProcessPool_new k l n h =
       Inr (as_pool (k_getpid k h1) p, if pp_sub_idx p = -1 then h1 @ [Getpid] else h1) \<and>
       pp_num_process p = nat n \<and> length (pp_sub_process p) = pp_num_process p \<and>
       (pp_sub_idx p = -1 \<or> 0 \<le> pp_sub_idx p \<and> nat (pp_sub_idx p) < pp_num_process p)"
proof (cases "0 \<le> n \<and> n \<le> k_max_num_process")
  case False
  then show ?thesis by (auto simp: processpool_new_def ProcessPool_new_def)
next
  case bounds: True
  define m where "m = nat n"
  let ?ps = "replicate m subprocess_new"
  have init: "replicate (m + 1) Process_new = Process_new # map slot ?ps"
    by (simp add: slot_def subprocess_new_def Process_new_def map_replicate_const)
  have sim: "forked l m (fork_children k m 0 ?ps h) (create_children k l m 1 (replicate (m + 1) Process_new) h)"
    unfolding init using fork_children_sim [where ps = ?ps and n = m and k = k and i = 0 and h = h and l = l]
    by simp
  show ?thesis
  proof (cases "fork_children k m 0 ?ps h")
    case (Inl f)
    then show ?thesis using sim [unfolded forked_def] bounds
      by (simp add: processpool_new_def ProcessPool_new_def m_def [symmetric] Let_def del: replicate_Suc)
  next
    case (Inr r)
    obtain idx qs h1 where r: "r = (idx, qs, h1)" by (cases r)
    define p where "p = \<lparr>pp_listenfd = l, pp_epollfd = -1, pp_num_process = m,
              pp_sub_idx = idx, pp_sub_process = qs, pp_stop = False\<rparr>"
    have p: "processpool_new k l n h = Inr (p, h1)"
      using Inr r bounds by (simp add: processpool_new_def p_def m_def)
    have c: "length qs = m" "idx = -1 \<or> 0 \<le> idx \<and> nat idx < m"
        "create_children k l m 1 (replicate (m + 1) Process_new) h =
          Inr (idx \<noteq> -1, Process_new #
            (if idx = -1 then map slot qs
             else (map slot qs)[nat idx := (slot (qs ! nat idx))\<lparr>pr_listenfd := l, pr_pool_id := idx + 1\<rparr>]), h1)"
      using sim [unfolded forked_def] Inr r by simp_all
    have slots: "map (as_child_slot p) [0..<length qs] =
        (if idx = -1 then map slot qs
         else (map slot qs)[nat idx := (slot (qs ! nat idx))\<lparr>pr_listenfd := l, pr_pool_id := idx + 1\<rparr>])"
      by (rule nth_equalityI)
         (use c(2) in \<open>auto simp: p_def as_child_slot_def slot_def Process_new_def nth_list_update Let_def\<close>)
    show ?thesis
      using p c bounds slots
      by (auto simp: ProcessPool_new_def m_def [symmetric] Let_def as_pool_def as_parent_slot_def
            Process_new_def p_def simp del: replicate_Suc)
  qed
qed

section \<open>The set-up\<close>

lemma setup_epoll_sim:
  "pr_epollfd q = pp_epollfd p \<Longrightarrow>
   SetupEpoll k q h = map_res (\<lambda>(p, h). (q\<lparr>pr_epollfd := pp_epollfd p\<rparr>, h)) (setup_epoll k p h)"
  by (simp add: SetupEpoll_def setup_epoll_def Let_def)

lemma setup_epoll_Inr:
  "setup_epoll k p h = Inr (q, h') \<Longrightarrow> \<exists>e. q = p\<lparr>pp_epollfd := e\<rparr>"
  by (auto simp: setup_epoll_def Let_def split: if_splits)

lemma setup_sig_pipe_sim:
  "pr_epollfd q = pp_epollfd p \<Longrightarrow> SetupSigPipe k q h = setup_sig_pipe k p h"
  by (auto simp: SetupSigPipe_def setup_sig_pipe_def split: option.split)

section \<open>The parent\<close>

text \<open>A parent of the first version with all its children.\<close>

definition first_ready :: "processpool \<Rightarrow> bool" where
  "first_ready p \<longleftrightarrow> pp_sub_idx p = -1 \<and> 1 \<le> pp_num_process p \<and>
     length (pp_sub_process p) = pp_num_process p \<and>
     (\<forall>sp \<in> set (pp_sub_process p). 0 < sp_pid sp \<and> sp_pipefd sp \<noteq> None)"

definition same_turn :: "pid \<Rightarrow> first_parent \<Rightarrow> parent \<Rightarrow> bool" where
  "same_turn pid s u \<longleftrightarrow> first_ready (fp_pool s) \<and> pa_pool u = as_pool pid (fp_pool s) \<and>
     pa_sig_pipefd u = fp_sig_pipefd s \<and> pa_trace u = fp_trace s \<and>
     fp_sub_process_idx s < pp_num_process (fp_pool s) \<and>
     (pa_sub_process_idx u = fp_sub_process_idx s + 1 \<or>
      pa_sub_process_idx u = 0 \<and> fp_sub_process_idx s = 0)"

lemma first_readyD:
  assumes "first_ready p" "i < pp_num_process p"
  shows "i < length (pp_sub_process p) \<and> 0 < sp_pid (pp_sub_process p ! i) \<and>
     sp_pid (pp_sub_process p ! i) \<noteq> -1 \<and> (\<exists>r w. sp_pipefd (pp_sub_process p ! i) = Some (r, w))"
proof -
  have "i < length (pp_sub_process p)" using assms by (simp add: first_ready_def)
  moreover from nth_mem [OF this] have
    "0 < sp_pid (pp_sub_process p ! i)" "sp_pipefd (pp_sub_process p ! i) \<noteq> None"
    using assms(1) by (auto simp: first_ready_def)
  ultimately show ?thesis by auto
qed

lemma as_pool_ready: "first_ready p \<Longrightarrow> children_ready (as_pool pid p)"
proof -
  assume r: "first_ready p"
  show ?thesis
    unfolding children_ready_def
  proof (intro allI impI)
    fix i assume "1 \<le> i \<and> i \<le> num_proc (as_pool pid p)"
    then obtain j where "i = Suc j" "j < pp_num_process p" by (cases i) auto
    with first_readyD [OF r] show "0 < pr_pid (procs (as_pool pid p) ! i) \<and>
        pr_fa_pipefd (procs (as_pool pid p) ! i) \<noteq> None" by force
  qed
qed

lemma accept_sim:
  assumes "same_turn pid s u"
  shows "\<exists>s' u'. first_accept s = Inr s' \<and> parent_accept 0 u = Inr u' \<and> same_turn pid s' u'"
proof -
  let ?p = "fp_pool s" and ?j = "fp_sub_process_idx s"
  note a = assms [unfolded same_turn_def]
  have j: "?j < pp_num_process ?p" and r: "first_ready ?p" using a by auto
  obtain rd wr where w: "sp_pipefd (pp_sub_process ?p ! ?j) = Some (rd, wr)"
    using first_readyD [OF r j] by blast
  have "while_option fst (sub_body (pp_sub_process ?p) (pp_num_process ?p) ?j) (True, ?j) = Some (False, ?j)"
    using first_readyD [OF r j] by (simp add: sub_body_def while_option_flag)
  then have old: "first_accept s = Inr (s\<lparr>fp_sub_process_idx := (?j + 1) mod pp_num_process ?p,
      fp_trace := fp_trace s @ [Send wr (''1'' @ [NUL])]\<rparr>)"
    using w first_readyD [OF r j] by (simp add: first_accept_def sub_select_def)
  have "rr_select (procs (pa_pool u)) 0 (num_proc (pa_pool u)) (pa_sub_process_idx u) = Some (?j + 1)"
    using rr_select_ready [OF as_pool_ready [OF r], of pid "pa_sub_process_idx u"] a by (auto simp: first_ready_def)
  then have new: "parent_accept 0 u = Inr (u\<lparr>pa_sub_process_idx := (?j + 1 + 1) mod (pp_num_process ?p + 1),
      pa_trace := pa_trace u @ [Send wr (''1'' @ [NUL])]\<rparr>)"
    using w a first_readyD [OF r j] by (simp add: parent_accept_def kPaWfd_def)
  show ?thesis
    unfolding old new using a by (auto simp: same_turn_def mod_Suc)
qed

text \<open>Results that are the same fault or related values, and how they compose.\<close>

abbreviation same_res :: "('a \<Rightarrow> 'b \<Rightarrow> bool) \<Rightarrow> 'a res \<Rightarrow> 'b res \<Rightarrow> bool" where
  "same_res R \<equiv> rel_sum (=) R"

lemma same_res_rbind:
  "same_res R m m' \<Longrightarrow> (\<And>x y. R x y \<Longrightarrow> same_res S (g x) (g' y)) \<Longrightarrow> same_res S (rbind m g) (rbind m' g')"
  by (cases m; cases m') auto

lemma as_pool_stop: "as_pool pid (p\<lparr>pp_stop := b\<rparr>) = (as_pool pid p)\<lparr>stopped := b\<rparr>"
  by (simp add: as_pool_def as_parent_slot_def as_child_slot_def Let_def)

lemma kill_sim:
  assumes "first_ready p"
  shows "kill_children 0 (as_pool pid p) = first_kill_children p"
proof -
  have upt: "[1..<pp_num_process p + 1] = map Suc [0..<pp_num_process p]" by (simp add: map_Suc_upt)
  have "kill_children 0 (as_pool pid p) =
      map (\<lambda>i. Kill (sp_pid (pp_sub_process p ! i)) SIGTERM) [0..<pp_num_process p]"
    using kill_children_ready [OF as_pool_ready [OF assms], of pid] first_readyD [OF assms]
    unfolding as_pool_simps upt by simp
  also have "\<dots> = concat (map (\<lambda>i. [Kill (sp_pid (pp_sub_process p ! i)) SIGTERM]) [0..<pp_num_process p])"
    by (simp add: concat_map_singleton)
  also have "\<dots> = first_kill_children p"
    unfolding first_kill_children_def Let_def
    by (intro arg_cong [where f = concat] map_cong) (use first_readyD [OF assms] in auto)
  finally show ?thesis .
qed

lemma signal_sim:
  "same_turn pid s u \<Longrightarrow> same_turn pid (first_signal c s) (parent_signal 0 c u)"
  by (auto simp: same_turn_def first_signal_def parent_signal_def as_pool_stop kill_sim)
     (auto simp: first_ready_def)

lemma signals_sim:
  "same_turn pid s u \<Longrightarrow> same_turn pid (fold first_signal sigs s) (fold (parent_signal 0) sigs u)"
  by (induction sigs arbitrary: s u) (simp_all add: signal_sim)

lemma call_sim:
  "same_turn pid s u \<Longrightarrow>
     same_turn pid (s\<lparr>fp_trace := fp_trace s @ [x]\<rparr>) (u\<lparr>pa_trace := pa_trace u @ [x]\<rparr>)"
  by (simp add: same_turn_def)

lemma same_turn_slot:
  assumes "same_turn pid s u"
  shows "procs (pa_pool u) ! 0 = as_parent_slot pid (fp_pool s)"
    "pr_listenfd (procs (pa_pool u) ! 0) = pp_listenfd (fp_pool s)"
    "pr_epollfd (procs (pa_pool u) ! 0) = pp_epollfd (fp_pool s)"
    "pa_sig_pipefd u = fp_sig_pipefd s" "pa_trace u = fp_trace s"
    "stopped (pa_pool u) = pp_stop (fp_pool s)"
  using assms by (simp_all add: same_turn_def as_parent_slot_def first_ready_def)

lemma event_sim:
  assumes "same_turn pid s u"
  shows "same_res (same_turn pid) (first_event k ev s) (parent_event k 0 ev u)"
proof (cases "data_fd ev = pp_listenfd (fp_pool s)")
  case True
  then show ?thesis
    using accept_sim [OF assms] same_turn_slot [OF assms]
    by (auto simp: first_event_def parent_event_def)
next
  case False
  note slot = same_turn_slot [OF assms]
  show ?thesis
  proof (cases "data_fd ev = fst (fp_sig_pipefd s) \<and> events ev AND EPOLLIN \<noteq> 0")
    case True
    then show ?thesis
      using False slot signals_sim [OF call_sim [OF assms]] call_sim [OF assms]
      by (auto simp: first_event_def parent_event_def Let_def split: recv_ret.split)
  next
    case no_signal: False
    then show ?thesis
      using False slot assms by (auto simp: first_event_def parent_event_def Let_def)
  qed
qed

lemma events_sim:
  "same_turn pid s u \<Longrightarrow> same_res (same_turn pid) (first_events k evs s) (parent_events k 0 evs u)"
proof (induction evs arbitrary: s u)
  case (Cons ev evs)
  show ?case
    unfolding first_events.simps parent_events.simps
    by (rule same_res_rbind [OF event_sim [OF Cons.prems] Cons.IH])
qed simp

lemma round_sim:
  assumes "same_turn pid s u"
  shows "same_res (rel_prod (=) (same_turn pid)) (first_round k s) (parent_round k 0 u)"
proof -
  note slot = same_turn_slot [OF assms]
  let ?c = "EpollWait (pp_epollfd (fp_pool s)) k_max_num_epoll_event"
  have "same_res (rel_prod (=) (same_turn pid))
      (rbind (first_events k evs (s\<lparr>fp_trace := fp_trace s @ [?c]\<rparr>)) (\<lambda>s. Inr (False, s)))
      (rbind (parent_events k 0 evs (u\<lparr>pa_trace := pa_trace u @ [?c]\<rparr>)) (\<lambda>s. Inr (False, s)))" for evs
    by (rule same_res_rbind [OF events_sim [OF call_sim [OF assms]]]) simp
  then show ?thesis
    using slot call_sim [OF assms, of ?c]
    by (auto simp: first_round_def parent_round_def Let_def split: epoll_ret.split)
qed

lemma loop_sim:
  "same_turn pid s u \<Longrightarrow>
     rel_option (same_res (same_turn pid)) (first_loop fuel k s) (parent_loop fuel k 0 u)"
proof (induction fuel arbitrary: s u)
  case 0
  then show ?case using same_turn_slot [OF 0] by auto
next
  case (Suc n)
  note slot = same_turn_slot [OF Suc.prems]
  from round_sim [OF Suc.prems, of k] show ?case
    by (cases rule: rel_sum.cases) (use slot Suc in \<open>auto split: prod.splits\<close>)
qed

text \<open>The set-up and the whole of the parent's run.\<close>

lemma as_pool_epollfd:
  "pp_sub_idx p = -1 \<Longrightarrow> as_pool pid (p\<lparr>pp_epollfd := e\<rparr>) =
     (as_pool pid p)\<lparr>procs := (procs (as_pool pid p))[0 := (as_parent_slot pid p)\<lparr>pr_epollfd := e\<rparr>]\<rparr>"
  by (auto simp: as_pool_def as_parent_slot_def as_child_slot_def Let_def)

lemma setup_sim:
  assumes "first_ready p"
  shows "same_res (same_turn pid) (run_parent_setup k p h) (parent_setup k 0 (as_pool pid p) h)"
proof -
  let ?e = "k_epoll_create k h"
  let ?p = "p\<lparr>pp_epollfd := ?e\<rparr>" and ?q = "(as_parent_slot pid p)\<lparr>pr_epollfd := ?e\<rparr>"
  let ?h = "h @ [EpollCreate 5, EpollCtlAdd ?e (pp_listenfd p) EPOLLIN]"
  have sub: "pp_sub_idx p = -1" and r: "first_ready ?p" using assms by (simp_all add: first_ready_def)
  have sig: "SetupSigPipe k ?q ?h = setup_sig_pipe k ?p ?h"
    by (rule setup_sig_pipe_sim) simp
  have listen: "pr_listenfd (as_parent_slot pid p) = pp_listenfd p" using sub by (simp add: as_parent_slot_def)
  show ?thesis
  proof (cases "setup_sig_pipe k ?p ?h")
    case (Inl f)
    then show ?thesis using sig listen
      by (simp add: run_parent_setup_def parent_setup_def setup_epoll_def SetupEpoll_def Let_def
          TestEpollAddFdLT_def)
  next
    case (Inr sp)
    then show ?thesis using sig listen r sub
      by (cases sp) (simp add: run_parent_setup_def parent_setup_def setup_epoll_def SetupEpoll_def
          Let_def TestEpollAddFdLT_def same_turn_def as_pool_epollfd first_ready_def)
  qed
qed

lemma run_parent_sim:
  assumes "first_ready p"
  shows "map_option (map_res snd) (RunParent fuel k 0 (as_pool pid p) h) = run_parent fuel k p h"
  using setup_sim [OF assms, of pid k h]
proof (cases rule: rel_sum.cases)
  case (1 f g)
  then show ?thesis by (simp add: RunParent_def run_parent_def)
next
  case (2 s u)
  from loop_sim [OF 2(3), of fuel k] show ?thesis
    by (cases rule: option.rel_cases; auto elim!: rel_sum.cases
          simp: RunParent_def run_parent_def 2 same_turn_slot(3,5))
qed

section \<open>The child\<close>

text \<open>A child of the first version: it knows its index and has its pipe.\<close>

definition first_child :: "processpool \<Rightarrow> bool" where
  "first_child p \<longleftrightarrow> 0 \<le> pp_sub_idx p \<and> nat (pp_sub_idx p) < length (pp_sub_process p) \<and>
     length (pp_sub_process p) = pp_num_process p"

lemma child_setup_sim:
  assumes "first_child p"
  shows "map_res (\<lambda>(f, pool, h). (f, h)) (child_setup k (pp_sub_idx p + 1) (as_pool pid p) h) =
    run_child_setup k p h"
    and "child_setup k (pp_sub_idx p + 1) (as_pool pid p) h = Inr (f, pool, h') \<Longrightarrow> stopped pool = pp_stop p"
proof -
  define i where "i = nat (pp_sub_idx p)"
  have idx: "pp_sub_idx p = int i" "i < length (pp_sub_process p)"
    using assms by (simp_all add: i_def first_child_def)
  let ?e = "k_epoll_create k h"
  let ?q = "(as_child_slot p i)\<lparr>pr_epollfd := ?e\<rparr>"
  have nat: "nat (int i + 1) = Suc i" by simp
  have q: "pr_listenfd ?q = pp_listenfd p" "pr_fa_pipefd ?q = sp_pipefd (pp_sub_process p ! i)"
    using idx by (simp_all add: as_child_slot_def Let_def)
  have sig: "SetupSigPipe k ?q h1 = setup_sig_pipe k (p\<lparr>pp_epollfd := ?e\<rparr>) h1" for h1
    by (rule setup_sig_pipe_sim) simp
  note defs = child_setup_def run_child_setup_def SetupEpoll_def setup_epoll_def kChRfd_def Let_def
  show "map_res (\<lambda>(f, pool, h). (f, h)) (child_setup k (pp_sub_idx p + 1) (as_pool pid p) h) =
    run_child_setup k p h"
  proof (cases "?e = -1 \<or> sp_pipefd (pp_sub_process p ! i) = None")
    case True
    then show ?thesis using idx q nat by (auto simp: defs)
  next
    case False
    then obtain rd wr where "sp_pipefd (pp_sub_process p ! i) = Some (rd, wr)" by auto
    with False show ?thesis using idx q nat sig
      by (cases "setup_sig_pipe k (p\<lparr>pp_epollfd := ?e\<rparr>)
            (EpollAddFd ?e rd (SetNonBlocking k (pp_listenfd p) (h @ [EpollCreate 5])))")
         (auto simp: defs)
  qed
  show "child_setup k (pp_sub_idx p + 1) (as_pool pid p) h = Inr (f, pool, h') \<Longrightarrow> stopped pool = pp_stop p"
    by (auto simp: child_setup_def rbind_eq_Inr_iff Let_def split: if_splits)
qed

lemma run_child_sim:
  assumes "first_child p"
  shows "map_option (map_res snd) (RunChild fuel T clients0 k (pp_sub_idx p + 1) (as_pool pid p) h) =
    run_child fuel T clients0 k p h"
  using child_setup_sim(1) [OF assms, of k pid h, symmetric] child_setup_sim(2) [OF assms, of k pid h]
  by (cases "child_setup k (pp_sub_idx p + 1) (as_pool pid p) h")
     (auto simp: RunChild_def child_end_def run_child_def option.map_comp comp_def map_res_map_res)

section \<open>What the constructor leaves\<close>

lemma processpool_new_states:
  assumes "processpool_new k l n h = Inr (p, h1)" "1 \<le> n"
  shows "pp_sub_idx p = -1 \<and> first_ready p \<or> first_child p"
proof (cases "pp_sub_idx p = -1")
  case True
  let ?q = "as_pool (k_getpid k h1) p"
  have sim: "ProcessPool_new k l n h = Inr (?q, h1 @ [Getpid])" "pp_num_process p = nat n"
      "length (pp_sub_process p) = pp_num_process p"
    using processpool_new_sim [of k l n h] assms(1) True by auto
  have "run_role ?q = Inr (Parent 0)"
    using True by (simp add: run_role_def as_pool_def as_parent_slot_def)
  then have ready: "children_ready ?q" using ProcessPool_new_roles [OF sim(1)] by auto
  have "0 < sp_pid sp \<and> sp_pipefd sp \<noteq> None" if sp: "sp \<in> set (pp_sub_process p)" for sp
  proof -
    obtain j where j: "j < length (pp_sub_process p)" "sp = pp_sub_process p ! j"
      using sp by (auto simp: in_set_conv_nth)
    have "0 < pr_pid (procs ?q ! Suc j) \<and> pr_fa_pipefd (procs ?q ! Suc j) \<noteq> None"
      using ready j(1) sim(3) unfolding children_ready_def by (elim allE [of _ "Suc j"]) simp
    with j show ?thesis by simp
  qed
  with True sim assms(2) show ?thesis by (auto simp: first_ready_def)
next
  case False
  with processpool_new_sim [of k l n h] assms(1) show ?thesis by (auto simp: first_child_def)
qed

lemma run_role_child:
  assumes "first_child p"
  shows "run_role (as_pool pid p) = Inr (Child (pp_sub_idx p + 1))"
proof -
  define i where "i = nat (pp_sub_idx p)"
  have i: "pp_sub_idx p = int i" "i < length (pp_sub_process p)" "length (pp_sub_process p) = pp_num_process p"
    using assms by (simp_all add: i_def first_child_def)
  have others: "pr_pool_id (procs (as_pool pid p) ! j) = -1" if "j < Suc i" for j
    using that i by (cases j) (auto simp: as_parent_slot_def as_child_slot_def Process_new_def Let_def)
  have "find_pool_id (procs (as_pool pid p)) 0 = int (0 + Suc i)"
    by (rule find_pool_id_first) (use others i in \<open>auto simp: as_child_slot_def Let_def\<close>)
  moreover have "take (num_proc (as_pool pid p) + 1) (procs (as_pool pid p)) = procs (as_pool pid p)"
    using i(3) by (intro take_all) simp
  ultimately show ?thesis
    using others [of 0] i(1) by (simp add: run_role_def as_pool_def)
qed

text \<open>\<open>run\<close> of the second version on the pool of the first.\<close>

lemma run_sim:
  assumes "pp_sub_idx p = -1 \<and> first_ready p \<or> first_child p"
  shows "run fuel T clients0 k (as_pool pid p) h = processpool_run fuel T clients0 k p h"
proof (cases "pp_sub_idx p = -1")
  case True
  with assms have "first_ready p" by (auto simp: first_child_def)
  moreover have "run_role (as_pool pid p) = Inr (Parent 0)"
    using True by (simp add: run_role_def as_pool_def as_parent_slot_def)
  ultimately show ?thesis
    using True run_parent_sim [of p fuel k pid h] by (simp add: run_def processpool_run_def)
next
  case False
  with assms have c: "first_child p" by auto
  with False run_child_sim [OF c, of fuel T clients0 k pid h] show ?thesis
    by (simp add: run_def processpool_run_def run_role_child)
qed

end
