(* ===== verification/FirstPoolProps.thy ===== *)
theory FirstPoolProps
  imports FirstPoolSim
begin

text \<open>
  The properties of the first version of the pool: that the second version is a refactoring of
  it, and what therefore holds of the first as well.
\<close>

section \<open>Properties\<close>

text \<open>
  C39. The refactoring of the pool kept its behaviour. For every kernel and every positive number
  of children, in every process: where the first version's constructor returns, the second
  version's returns the corresponding pool after the same calls (and \<open>getpid\<close> in the parent);
  and from there \<open>run\<close>, as parent or as child, makes exactly the same calls and ends in the same
  way, fault included, for every class of clients.
\<close>

theorem pool_refactoring:
  assumes "processpool_new k listenfd num_process h = Inr (p, h1)" "1 \<le> num_process"
  shows "ProcessPool_new k listenfd num_process h =
      Inr (as_pool (k_getpid k h1) p, if pp_sub_idx p = -1 then h1 @ [Getpid] else h1) \<and>
    run fuel T clients0 k (as_pool (k_getpid k h1) p) h2 = processpool_run fuel T clients0 k p h2"
  using processpool_new_sim [of k listenfd num_process h] run_sim [OF processpool_new_states [OF assms]]
    assms(1) by simp

definition first_demo :: processpool where
  "first_demo =
     \<lparr>pp_listenfd = 4, pp_epollfd = -1, pp_num_process = 2, pp_sub_idx = -1,
      pp_sub_process = [\<lparr>sp_pid = 101, sp_pipefd = Some (10, 11)\<rparr>, \<lparr>sp_pid = 102, sp_pipefd = Some (12, 13)\<rparr>],
      pp_stop = False\<rparr>"

lemma first_demo_new: "processpool_new demo_kernel 4 2 [] = Inr (first_demo, butlast demo_trace)"
  by code_simp

lemma pool_refactoring_witness:
  "processpool_new demo_kernel 4 2 [] = Inr (first_demo, butlast demo_trace) \<and>
   ProcessPool_new demo_kernel 4 2 [] = Inr (demo_pool, demo_trace) \<and>
   processpool_run 2 reqstat_class (\<lambda>i. zero_machine) demo_kernel first_demo demo_trace = Some (Inr demo_run)"
proof -
  note r = pool_refactoring [OF first_demo_new, of 2 reqstat_class "\<lambda>i. zero_machine" demo_trace]
  have p: "as_pool (k_getpid demo_kernel (butlast demo_trace)) first_demo = demo_pool"
    using r demo_new by simp
  show ?thesis
    using r demo_RunParent demo_new first_demo_new demo_pool_ready(5) unfolding p
    by (simp add: run_def)
qed

text \<open>
  Round robin in the first version: the parent's only fault is a failed assertion of the set-up,
  and all it sends are the notices to the children in strict rotation.
\<close>

theorem first_pool_rotation:
  assumes "processpool_new k listenfd num_process [] = Inr (p, h)" "pp_sub_idx p = -1" "1 \<le> num_process"
    "recv_bounded k" "epoll_bounded k" "run_parent fuel k p h2 = Some r"
  shows "r = Inl AssertFail \<or>
    (\<exists>h' c. r = Inr h' \<and> filter is_send h' = filter is_send h2 @ map (notice (as_pool 0 p)) [0..<c])"
proof -
  have r: "first_ready p"
    using processpool_new_states [OF assms(1,3)] assms(2) by (auto simp: first_child_def)
  obtain r' where run: "RunParent fuel k 0 (as_pool 0 p) h2 = Some r'" "r = map_res snd r'"
    using run_parent_sim [OF r, of fuel k 0 h2] assms(6) by auto
  have "pool_wf (as_pool 0 p)" "1 \<le> num_proc (as_pool 0 p)" "\<not> stopped (as_pool 0 p)"
    using r assms(1) by (auto simp: pool_wf_def first_ready_def processpool_new_def rbind_eq_Inr_iff
        split: if_splits)
  from RunParent_run [OF this(1) as_pool_ready [OF r] this(2,3) assms(4,5) run(1)] run(2)
  show ?thesis by auto
qed

end
