(* ===== verification/TimingRuns.thy ===== *)
theory TimingRuns
  imports TimingSteps TimerProps ChatProps
begin

text \<open>
  Whole runs of the timing chat. As long as everyone who leaves or expires is the last of the members,
  the indices stay in step with the pollfds; then no round faults, whatever the kernel answers.
\<close>

section \<open>The state between the steps\<close>

definition in_step :: "timed_chat \<Rightarrow> bool" where
  "in_step s \<longleftrightarrow> (\<exists>es. timed_ok es s) \<and> indexed s"

lemma in_stepI: "timed_ok es s \<Longrightarrow> indexed s \<Longrightarrow> in_step s"
  by (auto simp: in_step_def)

text \<open>Updates that touch neither the members, nor their data, nor the timers.\<close>

lemma in_step_same:
  assumes "in_step s" "members kStIdxClient t = members kStIdxClient s" "room_ok kStIdxClient t"
    "kClient t = kClient s" "kClientTimerList t = kClientTimerList s"
  shows "in_step t"
proof -
  have "fds t = fds s" using assms(2) by (simp add: fds_def)
  with assms show ?thesis by (auto simp: in_step_def timed_ok_def indexed_def)
qed

lemma in_step_room: "in_step s \<Longrightarrow> room_ok kStIdxClient s"
  by (auto simp: in_step_def timed_ok_def)

lemma same_fds_in_step:
  assumes "in_step s" "map pfd_fd (members kStIdxClient t) = map pfd_fd (members kStIdxClient s)"
    "room_ok kStIdxClient t" "kClient t = kClient s" "kClientTimerList t = kClientTimerList s"
  shows "in_step t"
  using assms by (auto simp: in_step_def timed_ok_def indexed_def fds_def)

lemma members_count: "in_step s \<Longrightarrow> int (length (members kStIdxClient s)) = kCntClient s"
  using length_members [OF in_step_room [of s]] in_step_room [of s] by (simp add: room_ok_def)

section \<open>Polling and signals\<close>

lemma poll_fds_frame: "poll_fds k n s = Inr (err, t) \<Longrightarrow> \<exists>f h. t = s\<lparr>kFDS := f, kTrace := h\<rparr>"
  by (auto simp: poll_fds_def call_def Let_def split: if_splits prod.splits)

lemma poll_in_step:
  assumes "in_step s"
  obtains err p where "poll_fds k (kStIdxClient + kCntClient s) s = Inr (err, p)" "in_step p"
proof (rule poll_fds_members [OF in_step_room [OF assms], of k])
  fix t err r
  assume t: "poll_fds k (kStIdxClient + kCntClient s) s = Inr (err, t)" "room_ok kStIdxClient t"
    "members kStIdxClient t = polled kStIdxClient r (members kStIdxClient s)" "kClient t = kClient s"
  have "kClientTimerList t = kClientTimerList s" using poll_fds_frame [OF t(1)] by auto
  with same_fds_in_step [OF assms] t have "in_step t" by simp
  with t(1) show thesis by (rule that)
qed

lemma fold_timed_signal:
  "fold timed_signal sigs s = s\<lparr>kStop := kStop s \<or> (\<exists>c \<in> set sigs. of_char c = SIGTERM),
     kTimeout := kTimeout s \<or> (\<exists>c \<in> set sigs. of_char c = SIGALRM)\<rparr>"
proof (induction sigs arbitrary: s)
  case (Cons c sigs)
  show ?case unfolding fold_simps comp_apply Cons.IH by (auto simp: timed_signal_def)
qed simp

lemma signals_in_step:
  assumes "in_step s" "recv_bounded k"
  obtains q where "timed_signals k s = Inr q" "in_step q"
proof -
  let ?p = "kFDS s ! 1"
  let ?s = "call (Recv (pfd_fd ?p) 1025) s"
  have at: "fds_at 1 s = Inr ?p"
    using in_step_room [OF assms(1)] by (simp add: fds_at_def room_ok_def kMaxnClient_def kStIdxClient_def)
  have same: "in_step (?s\<lparr>kStop := b, kTimeout := c\<rparr>)" "in_step ?s" for b c
    using in_step_room [OF assms(1)]
    by (auto intro!: in_step_same [OF assms(1)] simp: members_def room_ok_def call_def)
  show thesis
  proof (cases "revents_has ?p POLLIN")
    case False
    with at assms(1) that show thesis by (simp add: timed_signals_def)
  next
    case True
    show thesis
    proof (cases "k_recv k (kTrace s) (pfd_fd ?p) 1025")
      case (RecvErr e)
      with True at same(2) that show thesis by (simp add: timed_signals_def Let_def)
    next
      case (RecvData sigs)
      then have "length sigs \<le> 1025" using assms(2) by (auto simp: recv_bounded_def)
      then have "timed_signals k s = Inr (fold timed_signal sigs ?s)"
        using True at RecvData by (simp add: timed_signals_def Let_def)
      moreover have "in_step (fold timed_signal sigs ?s)" unfolding fold_timed_signal by (rule same(1))
      ultimately show thesis by (rule that)
    qed
  qed
qed

section \<open>Accepting\<close>

text \<open>
  A descriptor that is accepted is not in use, and neither is the memory of a new timer.
\<close>

definition unused :: "kernel \<Rightarrow> fd \<Rightarrow> timed_chat \<Rightarrow> bool" where
  "unused k l s \<longleftrightarrow>
     (\<forall>p a. k_accept k (kTrace s) l = Accepted p a \<longrightarrow> valid_fd p \<and> p \<notin> set (fds s)) \<and>
     tl_heap (kClientTimerList s) (k_new k (kTrace s @ [Accept l])) = None"

lemma timer_allocated:
  assumes "timer_repr q es" "tl_heap q a = None"
  shows "a \<notin> fst ` set es"
proof -
  obtain xs where xs: "linked q xs" "es = map (entry_of (tl_heap q)) xs"
    using assms(1) by (auto simp: timer_repr_def)
  have "fst ` set es = set xs" by (simp add: xs(2) entry_of_def image_image)
  with linkedD [OF xs(1)] assms(2) show ?thesis by force
qed

lemma accept_in_step:
  assumes "in_step s" "unused k l s"
  obtains t where "timed_accept_phase k l s = Inr t" "in_step t"
proof -
  obtain es where ok: "timed_ok es s" and idx: "indexed s" using assms(1) by (auto simp: in_step_def)
  have at: "fds_at 0 s = Inr (kFDS s ! 0)"
    using in_step_room [OF assms(1)] by (simp add: fds_at_def room_ok_def kMaxnClient_def kStIdxClient_def)
  have same: "in_step (call y (call x s))" "in_step (call x s)" for x y
    using in_step_room [OF assms(1)] by (auto intro!: in_step_same [OF assms(1)] simp: member_simps)
  show thesis
  proof (cases "revents_has (kFDS s ! 0) POLLIN")
    case False
    with at assms(1) that show thesis by (simp add: timed_accept_phase_def)
  next
    case True
    then have eq: "timed_accept_phase k l s = timed_accept_client k l s" using at by (simp add: timed_accept_phase_def)
    show thesis
    proof (cases "k_accept k (kTrace s) l")
      case (AcceptErr e)
      with eq same(2) that show thesis by (simp add: timed_accept_client_def)
    next
      case (Accepted p a)
      show thesis
      proof (cases "kCntClient s < kMaxnClient")
        case False
        with Accepted eq same(1) that show thesis by (simp add: timed_accept_client_def)
      next
        case True
        let ?new = "k_new k (kTrace s @ [Accept l])"
        have p: "valid_fd p" "p \<notin> set (fds s)" using assms(2) Accepted by (auto simp: unused_def)
        have new: "?new \<notin> fst ` set es"
          using assms(2) ok by (intro timer_allocated) (auto simp: unused_def timed_ok_def)
        obtain t es' where t: "timed_accept_client k l s = Inr t" "timed_ok es' t" "fds t = fds s @ [p]"
          "pollfds_idx (kClient t p) = kStIdxClient + kCntClient s" "\<forall>c. c \<noteq> p \<longrightarrow> kClient t c = kClient s c"
          using timed_accept_joins [OF ok Accepted True p new] by blast
        have "int (length (fds s)) = kCntClient s"
          using members_count [OF assms(1)] by (simp add: fds_def)
        then have "indexed t"
          using t(3-5) idx p(2) by (auto simp: indexed_def nth_append less_Suc_eq in_set_conv_nth)
        with t(1,2) eq that in_stepI show thesis by metis
      qed
    qed
  qed
qed

section \<open>The clients\<close>

lemma read_in_step:
  assumes "in_step s" "recv_bounded k" "fd \<in> set (fds s)"
  obtains t where "timed_read_client k fd s = Inr t" "in_step t"
    "members kStIdxClient t = members kStIdxClient s"
proof -
  obtain es where ok: "timed_ok es s" and idx: "indexed s" using assms(1) by (auto simp: in_step_def)
  have room: "room_ok kStIdxClient s" by (rule timed_ok_room [OF ok])
  show thesis
  proof (cases "client_says k (kTrace s) fd = []")
    case True
    have v: "valid_fd fd" using assms(3) member_valid [OF room] by (auto simp: fds_def)
    obtain c where c: "read_client k kStIdxClient fd s = Inr (False, s\<lparr>kClient := (kClient s)(fd := c),
        kTrace := kTrace s @ relay k (kTrace s) fd (members kStIdxClient s)\<rparr>)"
      "c = (kClient s fd)\<lparr>recv_buf := recv_buf c\<rparr>"
      using read_client_members [OF room assms(2) v] True by auto
    have keep: "timer_ptr c = timer_ptr (kClient s fd)" "pollfds_idx c = pollfds_idx (kClient s fd)"
      by (subst c(2), simp)+
    let ?t = "s\<lparr>kClient := (kClient s)(fd := c),
        kTrace := kTrace s @ relay k (kTrace s) fd (members kStIdxClient s)\<rparr>"
    have "timed_ok es ?t" "indexed ?t"
      using ok idx keep by (auto simp: timed_ok_def indexed_def member_simps)
    then have "in_step ?t" by (rule in_stepI)
    moreover have "timed_read_client k fd s = Inr ?t" using c(1) by (simp add: timed_read_client_def)
    ultimately show thesis using that by (simp add: members_def)
  next
    case False
    obtain t es' where t: "timed_read_client k fd s = Inr t" "timed_ok es' t"
      "members kStIdxClient t = members kStIdxClient s" "\<forall>c. pollfds_idx (kClient t c) = pollfds_idx (kClient s c)"
      using timed_read_client_heard [OF ok assms(2,3) False] by blast
    have "indexed t" using idx t(3,4) by (simp add: indexed_def fds_def)
    with t(1-3) that in_stepI show thesis by metis
  qed
qed

lemma turn_stays:
  assumes "in_step s" "recv_bounded k" "n < length (members kStIdxClient s)" "stays (members kStIdxClient s ! n)"
  obtains t where "timed_client_turn k (kStIdxClient + int n) s = Inr (kStIdxClient + int n + 1, t)" "in_step t"
    "members kStIdxClient t = members kStIdxClient s"
proof -
  let ?p = "members kStIdxClient s ! n"
  have at: "fds_at (kStIdxClient + int n) s = Inr ?p" by (rule member_fds_at [OF in_step_room [OF assms(1)] assms(3)])
  have fd: "pfd_fd ?p \<in> set (fds s)" using assms(3) by (simp add: fds_def)
  obtain t where "timed_read_client k (pfd_fd ?p) s = Inr t" "in_step t"
      "members kStIdxClient t = members kStIdxClient s"
    using read_in_step [OF assms(1,2) fd] .
  with at assms(1,4) that show thesis
    by (cases "revents_has ?p POLLOUT"; cases "revents_has ?p POLLIN")
       (simp_all add: timed_client_turn_def stays_def)
qed

lemma swap_remove_last: "Suc n = length xs \<Longrightarrow> swap_remove n xs = butlast xs"
  by (cases xs rule: rev_cases) (simp_all add: swap_remove_def)

lemma turn_last_leaves:
  assumes "in_step s" "Suc n = length (members kStIdxClient s)" "\<not> stays (members kStIdxClient s ! n)"
  obtains t where "timed_client_turn k (kStIdxClient + int n) s = Inr (kStIdxClient + int n, t)" "in_step t"
    "members kStIdxClient t = butlast (members kStIdxClient s)"
proof -
  let ?ms = "members kStIdxClient s"
  obtain es where ok: "timed_ok es s" and idx: "indexed s" using assms(1) by (auto simp: in_step_def)
  have n: "n < length (fds s)" "fds s ! n = pfd_fd (?ms ! n)" using assms(2) by (simp_all add: fds_def)
  have place: "pollfds_idx (kClient s (fds s ! n)) = kStIdxClient + int n" using idx n(1) by (simp add: indexed_def)
  obtain t es' where t: "client_gone (kStIdxClient + int n) (fds s ! n) s = Inr t" "timed_ok es' t"
    "members kStIdxClient t = swap_remove n ?ms" "\<forall>c. c \<noteq> fds s ! n \<longrightarrow> kClient t c = kClient s c"
    using client_gone_in_place [OF ok n(1) place] by blast
  have m: "members kStIdxClient t = butlast ?ms" using t(3) swap_remove_last [OF assms(2)] by simp
  then have f: "fds t = butlast (fds s)" by (simp add: fds_def map_butlast)
  have "fds t ! i \<noteq> fds s ! n" if "i < length (fds t)" for i
  proof -
    have "length (fds t) = n" using m assms(2) by (simp add: fds_def)
    with that n(1) have "i < n" "n < length (fds s)" by simp_all
    moreover have "distinct (fds s)" using ok by (simp add: timed_ok_def)
    ultimately show ?thesis using f that by (simp add: nth_butlast nth_eq_iff_index_eq)
  qed
  then have "indexed t" using idx t(4) f by (auto simp: indexed_def nth_butlast)
  moreover have "fds_at (kStIdxClient + int n) s = Inr (?ms ! n)"
    using assms(2) by (intro member_fds_at [OF in_step_room [OF assms(1)]]) simp
  then have "timed_client_turn k (kStIdxClient + int n) s = Inr (kStIdxClient + int n, t)"
    using assms(3) t(1) n(2) by (auto simp: timed_client_turn_def stays_def)
  ultimately show thesis using that m t(2) in_stepI by metis
qed

text \<open>The loop over the clients, when at most the last member leaves.\<close>

definition last_leaves :: "nat \<Rightarrow> pollfd list \<Rightarrow> bool" where
  "last_leaves n ms \<longleftrightarrow> (\<forall>i. n \<le> i \<and> Suc i < length ms \<longrightarrow> stays (ms ! i))"

lemma clients_in_step:
  assumes "in_step s" "recv_bounded k" "n \<le> length (members kStIdxClient s)"
    "last_leaves n (members kStIdxClient s)"
  shows "\<exists>t. timed_client_loop k (kStIdxClient + int n) s = Inr t \<and> in_step t"
  using assms
proof (induction "length (members kStIdxClient s) - n" arbitrary: s n)
  case 0
  with members_count [OF "0.prems"(1)] show ?case by (subst timed_client_loop.simps) simp
next
  case (Suc m)
  let ?ms = "members kStIdxClient s"
  have n: "n < length ?ms" using Suc.hyps(2) by simp
  have cnt: "kStIdxClient + int n < kStIdxClient + kCntClient s"
    using n length_members [OF in_step_room [OF Suc.prems(1)]] by simp
  note unf = timed_client_loop.simps [of k "kStIdxClient + int n" s]
  show ?case
  proof (cases "stays (?ms ! n)")
    case True
    obtain t where t: "timed_client_turn k (kStIdxClient + int n) s = Inr (kStIdxClient + int n + 1, t)" "in_step t"
      "members kStIdxClient t = ?ms" using turn_stays [OF Suc.prems(1,2) n True] .
    have "last_leaves (Suc n) ?ms" using Suc.prems(4) by (simp add: last_leaves_def)
    then have "\<exists>u. timed_client_loop k (kStIdxClient + int (Suc n)) t = Inr u \<and> in_step u"
      using Suc.hyps(2) n t(2,3) Suc.prems(2) by (intro Suc.hyps(1)) simp_all
    moreover have "kStIdxClient + int (Suc n) = kStIdxClient + int n + 1" by simp
    ultimately show ?thesis using t(1) cnt by (simp only: unf if_True rbind.simps prod.case)
  next
    case False
    then have last: "Suc n = length ?ms" using Suc.prems(4) n by (force simp: last_leaves_def)
    obtain t where t: "timed_client_turn k (kStIdxClient + int n) s = Inr (kStIdxClient + int n, t)" "in_step t"
      "members kStIdxClient t = butlast ?ms" using turn_last_leaves [OF Suc.prems(1) last False] .
    have len: "length (members kStIdxClient t) = n" using t(3) last by simp
    then have "int n = kCntClient t" using members_count [OF t(2)] by simp
    then have "timed_client_loop k (kStIdxClient + int n) t = Inr t" by (subst timed_client_loop.simps) simp
    then show ?thesis using t(1,2) cnt by (simp add: unf)
  qed
qed

section \<open>Rounds\<close>

text \<open>The states of a round before a connection is accepted and before the loop over the clients.\<close>

definition at_accept :: "kernel \<Rightarrow> timed_chat \<Rightarrow> timed_chat \<Rightarrow> bool" where
  "at_accept k s q \<longleftrightarrow> (\<exists>err p. poll_fds k (kStIdxClient + kCntClient s) s = Inr (err, p) \<and>
     (err = None \<or> err = Some EINTR) \<and> timed_signals k p = Inr q)"

definition at_clients :: "kernel \<Rightarrow> fd \<Rightarrow> timed_chat \<Rightarrow> timed_chat \<Rightarrow> bool" where
  "at_clients k l s u \<longleftrightarrow> (\<exists>q. at_accept k s q \<and> timed_accept_phase k l q = Inr u)"

text \<open>
  An orderly round: the kernel and the allocator hand out nothing that is in use; no member but the
  last one has hung up; and every member's index is its place.
\<close>

definition orderly :: "kernel \<Rightarrow> fd \<Rightarrow> timed_chat \<Rightarrow> bool" where
  "orderly k l s \<longleftrightarrow> indexed s \<and> (\<forall>q. at_accept k s q \<longrightarrow> unused k l q) \<and>
     (\<forall>u. at_clients k l s u \<longrightarrow> last_leaves 0 (members kStIdxClient u))"

lemma timed_round_orderly:
  assumes "timed_ok es s" "orderly k l s" "recv_bounded k"
  shows "\<exists>b t es'. timed_round k l s = Inr (b, t) \<and> timed_ok es' t"
proof -
  have s: "in_step s" using assms(1,2) by (auto simp: orderly_def intro: in_stepI)
  obtain err p where p: "poll_fds k (kStIdxClient + kCntClient s) s = Inr (err, p)" "in_step p"
    using poll_in_step [OF s] .
  show ?thesis
  proof (cases "err = None \<or> err = Some EINTR")
    case False
    with p show ?thesis by (auto simp: timed_round_def in_step_def)
  next
    case True
    obtain q where q: "timed_signals k p = Inr q" "in_step q" using signals_in_step [OF p(2) assms(3)] .
    have at: "at_accept k s q" using p(1) True q(1) by (auto simp: at_accept_def)
    then obtain u where u: "timed_accept_phase k l q = Inr u" "in_step u"
      using accept_in_step [OF q(2)] assms(2) by (metis orderly_def)
    have "last_leaves 0 (members kStIdxClient u)" using at u(1) assms(2) by (auto simp: orderly_def at_clients_def)
    then obtain v where v: "timed_client_loop k kStIdxClient u = Inr v" "in_step v"
      using clients_in_step [OF u(2) assms(3), of 0] by auto
    obtain es1 where es1: "timed_ok es1 v" "indexed v" using v(2) by (auto simp: in_step_def)
    have round: "timed_round k l s = (if kTimeout v then map_res (Pair False) (AlarmHandler k v) else Inr (False, v))"
      using p(1) True q(1) u(1) v(1) by (auto simp: timed_round_def)
    show ?thesis
    proof (cases "kTimeout v")
      case False
      with round es1(1) show ?thesis by auto
    next
      case True
      obtain t where "AlarmHandler k v = Inr t" "timed_ok (filter (\<lambda>e. k_time k (kTrace v) \<le> due e) es1) t"
        using AlarmHandler_effect [OF es1(1) indexed_findable [OF timed_ok_room [OF es1(1)] es1(2)], of k] by blast
      with True round show ?thesis by auto
    qed
  qed
qed

section \<open>Runs\<close>

text \<open>The states at the head of the loop that a run comes to.\<close>

inductive timed_reach :: "kernel \<Rightarrow> fd \<Rightarrow> timed_chat \<Rightarrow> timed_chat \<Rightarrow> bool" for k l where
  starts: "timed_reach k l s s"
| rounds: "timed_reach k l s t \<Longrightarrow> \<not> kStop t \<Longrightarrow> timed_round k l t = Inr (False, u) \<Longrightarrow> timed_reach k l s u"

lemma timed_reach_round:
  "timed_reach k l t u \<Longrightarrow> \<not> kStop s \<Longrightarrow> timed_round k l s = Inr (False, t) \<Longrightarrow> timed_reach k l s u"
  by (induction rule: timed_reach.induct) (auto intro: timed_reach.intros)

lemma timed_loop_orderly:
  assumes "timed_loop fuel k l s = Some res" "timed_ok es s" "recv_bounded k"
    "\<forall>u. timed_reach k l s u \<longrightarrow> orderly k l u"
  shows "\<exists>t es'. res = Inr t \<and> timed_ok es' t"
  using assms(1,2,4)
proof (induction fuel arbitrary: s es)
  case 0
  then show ?case by (subst (asm) timed_loop.simps) (auto split: if_splits)
next
  case (Suc n)
  note unf = Suc.prems(1) [unfolded timed_loop.simps [of "Suc n"] nat.case]
  show ?case
  proof (cases "kStop s")
    case True
    with unf Suc.prems(2) show ?thesis by auto
  next
    case False
    have "orderly k l s" using Suc.prems(3) timed_reach.starts by blast
    then obtain b t es' where t: "timed_round k l s = Inr (b, t)" "timed_ok es' t"
      using timed_round_orderly [OF Suc.prems(2) _ assms(3)] by blast
    show ?thesis
    proof (cases b)
      case True
      with unf False t show ?thesis by auto
    next
      case go: False
      then have "timed_round k l s = Inr (False, t)" using t(1) by simp
      from timed_reach_round [OF _ False this] have "\<forall>u. timed_reach k l t u \<longrightarrow> orderly k l u"
        using Suc.prems(3) by blast
      then show ?thesis using Suc.IH [of t es'] unf False t go by simp
    qed
  qed
qed

lemma timed_init_ok: "timed_ok [] (timed_init l sp h)" 
  by (simp add: timed_ok_def fds_def members_def timed_init_def room_ok_def kStIdxClient_def kMaxnClient_def
      timer_repr_empty)

lemma timed_setup_ok: "timed_setup k addr = Inr (l, s) \<Longrightarrow> timed_ok [] s"
  by (auto simp: timed_setup_def timed_init_ok split: sum.splits option.splits prod.splits)

lemma timed_reach_ok:
  assumes "timed_reach k l s u" "\<exists>es. timed_ok es s" "recv_bounded k" "\<forall>u. timed_reach k l s u \<longrightarrow> orderly k l u"
  shows "\<exists>es. timed_ok es u"
  using assms
proof (induction rule: timed_reach.induct)
  case (rounds s t u)
  then obtain es where "timed_ok es t" by blast
  moreover have "orderly k l t" using rounds by blast
  ultimately show ?case using timed_round_orderly [of es t k l] rounds by fastforce
qed


text \<open>A check of whole runs that computes, for the concrete run of the witness.\<close>

definition orderly_check :: "kernel \<Rightarrow> fd \<Rightarrow> timed_chat \<Rightarrow> bool" where
  "orderly_check k l s \<longleftrightarrow> indexed s \<and>
     (case poll_fds k (kStIdxClient + kCntClient s) s of
        Inl f \<Rightarrow> True
      | Inr (err, p) \<Rightarrow>
          if err \<noteq> None \<and> err \<noteq> Some EINTR then True
          else case timed_signals k p of
            Inl f \<Rightarrow> True
          | Inr q \<Rightarrow>
              (case k_accept k (kTrace q) l of AcceptErr e \<Rightarrow> True | Accepted p a \<Rightarrow> valid_fd p \<and> p \<notin> set (fds q)) \<and>
              tl_heap (kClientTimerList q) (k_new k (kTrace q @ [Accept l])) = None \<and>
              (case timed_accept_phase k l q of
                 Inl f \<Rightarrow> True
               | Inr u \<Rightarrow> list_all stays (butlast (members kStIdxClient u))))"

lemma last_leaves_butlast: "last_leaves 0 ms \<longleftrightarrow> list_all stays (butlast ms)"
  by (auto simp: last_leaves_def list_all_length nth_butlast)

lemma orderly_check: "orderly k l s \<longleftrightarrow> orderly_check k l s"
  by (auto simp: orderly_def orderly_check_def at_clients_def at_accept_def unused_def last_leaves_butlast
      split: sum.splits accept_ret.splits)

fun orderly_run :: "nat \<Rightarrow> kernel \<Rightarrow> fd \<Rightarrow> timed_chat \<Rightarrow> bool" where
  "orderly_run 0 k l s = False"
| "orderly_run (Suc n) k l s =
     (orderly_check k l s \<and>
      (kStop s \<or> (case timed_round k l s of
         Inl f \<Rightarrow> True | Inr (brk, t) \<Rightarrow> brk \<or> orderly_run n k l t)))"

lemma timed_reach_cases:
  "timed_reach k l s u \<Longrightarrow>
     u = s \<or> (\<exists>t. \<not> kStop s \<and> timed_round k l s = Inr (False, t) \<and> timed_reach k l t u)"
  by (induction rule: timed_reach.induct) (auto intro: timed_reach.intros)

lemma orderly_run_reach: "orderly_run n k l s \<Longrightarrow> timed_reach k l s u \<Longrightarrow> orderly k l u"
proof (induction n arbitrary: s)
  case (Suc n)
  from timed_reach_cases [OF Suc.prems(2)] show ?case
  proof (elim disjE exE conjE)
    assume "u = s"
    with Suc.prems(1) show ?thesis by (simp add: orderly_check)
  next
    fix t assume t: "\<not> kStop s" "timed_round k l s = Inr (False, t)" "timed_reach k l t u"
    then have "orderly_run n k l t" using Suc.prems(1) by simp
    from Suc.IH [OF this t(3)] show ?thesis .
  qed
qed simp

lemma orderly_run_ends: "orderly_run n k l s \<Longrightarrow> \<exists>r. timed_loop n k l s = Some r"
proof (induction n arbitrary: s)
  case (Suc n)
  then show ?case by (subst timed_loop.simps) (auto split: sum.splits)
qed simp

text \<open>A client joins; it hangs up and SIGTERM arrives in one round.\<close>

definition orderly_chat :: kernel where
  "orderly_chat = chat_kernel [[POLLIN], [0, POLLIN, POLLRDHUP]]"


end
