(* ===== verification/Arguments.thy ===== *)
theory Arguments
  imports HttpResponse
begin

text \<open>
  The arguments of the service programs: the library functions that take them apart, the option loops
  of the two kinds of programs (\<^verbatim>\<open>"p:"\<close> and \<^verbatim>\<open>"p:f:"\<close>), and the address they give.
\<close>

section \<open>\<open>getopt\<close>, \<open>atoi\<close>, \<open>inet_pton\<close>\<close>

text \<open>
  What successive calls of \<open>getopt\<close> return, for option letters that all take an argument: an option
  with its argument, which is the rest of the word or the next word, or \<open>None\<close> for the character
  \<open>?\<close>. Words that are no options are passed over, the word \<open>--\<close> ends the options. (After a \<open>?\<close> all the
  programs leave.)
\<close>

fun getopt :: "char list \<Rightarrow> string list \<Rightarrow> (char \<times> string) option list" where
  "getopt opts [] = []"
| "getopt opts (word # words) =
     (if length word < 2 \<or> hd word \<noteq> CHR ''-'' then getopt opts words
      else if word = ''--'' then []
      else if word ! 1 \<notin> set opts then [None]
      else if drop 2 word \<noteq> [] then Some (word ! 1, drop 2 word) # getopt opts words
      else case words of
        [] \<Rightarrow> [None]
      | optarg # words \<Rightarrow> Some (word ! 1, optarg) # getopt opts words)"

definition is_digit :: "char \<Rightarrow> bool" where
  "is_digit c \<longleftrightarrow> 48 \<le> (of_char c :: nat) \<and> (of_char c :: nat) \<le> 57"

definition digit :: "char \<Rightarrow> nat" where
  "digit c = of_char c - 48"

definition is_space :: "char \<Rightarrow> bool" where
  "is_space c \<longleftrightarrow> c = SPACE \<or> 9 \<le> (of_char c :: nat) \<and> (of_char c :: nat) \<le> 13"

definition decimal :: "string \<Rightarrow> nat" where
  "decimal ds = foldl (\<lambda>n c. 10 * n + digit c) 0 ds"

text \<open>
  \<open>strtol\<close> in base 10: blanks, a sign, digits, and then anything; a value that a \<open>long\<close> cannot hold becomes
  the nearest one. \<open>atoi\<close> converts the result to an \<open>int\<close>.
\<close>

definition strtol :: "string \<Rightarrow> int" where
  "strtol s =
     (let s = dropWhile is_space s;
          negative = (s \<noteq> [] \<and> hd s = CHR ''-'');
          s = (if s \<noteq> [] \<and> (hd s = CHR ''-'' \<or> hd s = CHR ''+'') then tl s else s);
          n = int (decimal (takeWhile is_digit s));
          n = (if negative then - n else n) in
      max (- (2 ^ 63)) (min (2 ^ 63 - 1) n))"

definition atoi :: "string \<Rightarrow> int" where
  "atoi s = sint (word_of_int (strtol s) :: 32 word)"

text \<open>
  \<open>inet_pton(AF_INET, s)\<close>: four decimal numbers of one to three digits, at most 255, with dots between; the
  address as a number. \<open>None\<close> is the result 0, which leaves the destination as it was.
\<close>

fun split_dots :: "string \<Rightarrow> string list" where
  "split_dots [] = [[]]"
| "split_dots (c # cs) =
     (if c = CHR ''.'' then [] # split_dots cs
      else case split_dots cs of [] \<Rightarrow> [[c]] | part # parts \<Rightarrow> (c # part) # parts)"

definition octet :: "string \<Rightarrow> nat option" where
  "octet s = (if s \<noteq> [] \<and> length s \<le> 3 \<and> list_all is_digit s \<and> decimal s \<le> 255 then Some (decimal s) else None)"

definition inet_pton :: "string \<Rightarrow> 32 word option" where
  "inet_pton s =
     (case map octet (split_dots s) of
        [Some a, Some b, Some c, Some d] \<Rightarrow> Some (of_nat (((a * 256 + b) * 256 + c) * 256 + d))
      | _ \<Rightarrow> None)"

section \<open>The code\<close>

text \<open>
  Results: \<open>Inl\<close> is an exit with its code after the usage message. The number of words is tested
  before anything else, so \<open>argv[1]\<close> exists. The port has no value before an option gives it one.
\<close>

fun port_options :: "int option \<Rightarrow> (char \<times> string) option list \<Rightarrow> (int + int option)" where
  "port_options port [] = Inr port"
| "port_options port (None # os) = Inl 1"
| "port_options port (Some (op, optarg) # os) =
     (if op = CHR ''p'' then port_options (Some (atoi optarg)) os else Inl 1)"

definition port_args :: "string list \<Rightarrow> (int + string \<times> int) res" where
  "port_args argv =
     (if length argv < 3 then Inr (Inl 1)
      else
        let ip = argv ! 1 in
        case port_options None (getopt ''p'' (tl argv)) of
          Inl code \<Rightarrow> Inr (Inl code)
        | Inr None \<Rightarrow> Inl Uninitialised
        | Inr (Some port) \<Rightarrow> Inr (Inr (ip, port)))"

text \<open>With the second option, a file name. Most programs give it a value first, and only print it.\<close>

fun file_options ::
  "int option \<times> string option \<Rightarrow> (char \<times> string) option list \<Rightarrow> int + int option \<times> string option" where
  "file_options st [] = Inr st"
| "file_options st (None # os) = Inl 1"
| "file_options st (Some (op, optarg) # os) =
     (if op = CHR ''p'' then file_options (Some (atoi optarg), snd st) os
      else if op = CHR ''f'' then file_options (fst st, Some optarg) os
      else Inl 1)"

definition file_args :: "string option \<Rightarrow> string list \<Rightarrow> (int + string \<times> int \<times> string) res" where
  "file_args filename argv =
     (if length argv < 3 then Inr (Inl 1)
      else
        let ip = argv ! 1 in
        case file_options (None, filename) (getopt ''pf'' (tl argv)) of
          Inl code \<Rightarrow> Inr (Inl code)
        | Inr (Some port, Some filename) \<Rightarrow> Inr (Inr (ip, port, filename))
        | Inr _ \<Rightarrow> Inl Uninitialised)"

text \<open>
  The address: the answer of \<open>inet_pton\<close> is not looked at, so the field keeps what its memory held, here
  \<open>junk\<close>, if the word is no address; \<open>htons\<close> takes the low 16 bits of the port.
\<close>

definition service_addr :: "32 word \<Rightarrow> string \<Rightarrow> int \<Rightarrow> sockaddr_in" where
  "service_addr junk ip port =
     \<lparr>sin_addr = (case inet_pton ip of None \<Rightarrow> junk | Some a \<Rightarrow> a), sin_port = word_of_int port\<rparr>"

section \<open>Numbers\<close>

lemma digit_char: "n < 10 \<Longrightarrow> is_digit (char_of (48 + n)) \<and> digit (char_of (48 + n)) = n"
  by (simp add: is_digit_def digit_def)

lemma decimal_snoc: "decimal (ds @ [c]) = 10 * decimal ds + digit c"
  by (simp add: decimal_def)

lemma decimal_dec_string: "decimal (dec_string n) = n \<and> list_all is_digit (dec_string n)"
proof (induction n rule: dec_string.induct)
  case (1 n)
  show ?case
  proof (cases "n < 10")
    case True
    with digit_char [OF True] show ?thesis by (simp add: dec_string.simps [of n] decimal_def)
  next
    case False
    with 1 digit_char [of "n mod 10"] show ?thesis
      by (simp add: dec_string.simps [of n] decimal_snoc del: of_char_of char_of_nat)
  qed
qed

lemma dec_string_length: "n < 1000 \<Longrightarrow> dec_string n \<noteq> [] \<and> length (dec_string n) \<le> 3"
proof -
  have one: "length (dec_string m) \<le> 1" if "m < 10" for m using that by (simp add: dec_string.simps [of m])
  have two: "length (dec_string m) \<le> 2" if "m < 100" for m
    using that one [of "m div 10"] by (auto simp: dec_string.simps [of m])
  assume "n < 1000"
  with two [of "n div 10"] show ?thesis by (auto simp: dec_string.simps [of n])
qed

lemma octet_dec_string: "n < 256 \<Longrightarrow> octet (dec_string n) = Some n"
  using decimal_dec_string [of n] dec_string_length [of n] by (simp add: octet_def)

lemma strtol_dec_string:
  assumes "n < 2 ^ 63"
  shows "strtol (dec_string n) = int n"
proof -
  have ne: "dec_string n \<noteq> []" by (simp add: dec_string.simps [of n])
  have digits: "list_all is_digit (dec_string n)" "decimal (dec_string n) = n"
    using decimal_dec_string [of n] by simp_all
  then have hd: "is_digit (hd (dec_string n))" using ne by (cases "dec_string n") auto
  then have "\<not> is_space (hd (dec_string n))" "hd (dec_string n) \<noteq> CHR ''-''" "hd (dec_string n) \<noteq> CHR ''+''"
    by (auto simp: is_digit_def is_space_def)
  moreover have "dropWhile is_space (dec_string n) = dec_string n"
    using ne \<open>\<not> is_space (hd (dec_string n))\<close> by (cases "dec_string n") auto
  moreover have "takeWhile is_digit (dec_string n) = dec_string n"
    using digits(1) by (subst takeWhile_eq_all_conv) (simp add: list_all_iff)
  then have "decimal (takeWhile is_digit (dec_string n)) = n" using digits(2) by metis
  moreover have "int n < 2 ^ 63" using assms by (metis of_nat_less_iff of_nat_numeral of_nat_power)
  ultimately show ?thesis by (simp add: strtol_def)
qed

lemma sin_port_dec_string:
  assumes "n < 2 ^ 63"
  shows "sin_port (service_addr junk ip (atoi (dec_string n))) = of_nat n"
proof -
  have "word_of_int (sint (word_of_int (int n) :: 32 word)) = (word_of_int (int n) :: 16 word)"
    by (simp add: scast_eq [symmetric]) (rule bit_word_eqI, simp add: bit_simps)
  then show ?thesis by (simp add: service_addr_def atoi_def strtol_dec_string [OF assms])
qed

section \<open>Addresses\<close>

definition dotted :: "nat \<Rightarrow> nat \<Rightarrow> nat \<Rightarrow> nat \<Rightarrow> string" where
  "dotted a b c d = dec_string a @ ''.'' @ dec_string b @ ''.'' @ dec_string c @ ''.'' @ dec_string d"

lemma split_dots_no_dot: "CHR ''.'' \<notin> set s \<Longrightarrow> split_dots s = [s]"
  by (induction s) auto

lemma split_dots_dot: "CHR ''.'' \<notin> set s \<Longrightarrow> split_dots (s @ CHR ''.'' # t) = s # split_dots t"
  by (induction s) auto

lemma no_dot: "CHR ''.'' \<notin> set (dec_string n)"
  using decimal_dec_string [of n] by (auto simp: list_all_iff is_digit_def)

lemma inet_pton_dotted:
  "a < 256 \<Longrightarrow> b < 256 \<Longrightarrow> c < 256 \<Longrightarrow> d < 256 \<Longrightarrow>
     inet_pton (dotted a b c d) = Some (of_nat (((a * 256 + b) * 256 + c) * 256 + d))"
  by (simp add: inet_pton_def dotted_def split_dots_dot split_dots_no_dot no_dot octet_dec_string)

lemma dotted_no_option: "hd (dotted a b c d) \<noteq> CHR ''-''"
proof -
  have "dec_string a \<noteq> []" by (simp add: dec_string.simps [of a])
  with decimal_dec_string [of a] show ?thesis by (cases "dec_string a") (auto simp: dotted_def is_digit_def)
qed

text \<open>The words \<open>ip -p n\<close>, as the usage message asks for.\<close>

lemma port_args_usual:
  assumes "hd ip \<noteq> CHR ''-''"
  shows "port_args [prog, ip, ''-p'', n] = Inr (Inr (ip, atoi n))"
    "file_args (Some name) [prog, ip, ''-p'', n] = Inr (Inr (ip, atoi n, name))"
    "file_args f [prog, ip, ''-p'', n, ''-f'', name] = Inr (Inr (ip, atoi n, name))"
  using assms by (simp_all add: port_args_def file_args_def)

text \<open>Without options the port stays unset.\<close>

lemma getopt_plain: "\<forall>w \<in> set words. hd w \<noteq> CHR ''-'' \<Longrightarrow> getopt opts words = []"
  by (induction words) auto

lemma port_args_missing:
  assumes "3 \<le> length argv" "\<forall>w \<in> set (tl argv). hd w \<noteq> CHR ''-''"
  shows "port_args argv = Inl Uninitialised" "file_args f argv = Inl Uninitialised"
  using assms by (simp_all add: port_args_def file_args_def getopt_plain)

end
