(* ===== verification/FirstHandler.thy ===== *)
theory FirstHandler
  imports FirstPool
begin

text \<open>
  \<^verbatim>\<open>examples/multitasking/nonblock_http_handler.h\<close>, the handler of the first version of the pool. The class
  has the members of \<open>ReqStatMach\<close> of \<^verbatim>\<open>src/ReqStatMach.h\<close> and its enumerations, which are shared here;
  its operations are defined again, from this file, and shown to be those of the second version.
\<close>

section \<open>Construction\<close>

definition nb_new :: "req_stat_mach \<Rightarrow> req_stat_mach" where
  "nb_new junk = junk\<lparr>m_sockfd := -1\<rparr>"

definition nb_init :: "fd \<Rightarrow> fd \<Rightarrow> sockaddr_in \<Rightarrow> req_stat_mach \<Rightarrow> req_stat_mach" where
  "nb_init epollfd sockfd addr s =
     s\<lparr>m_epollfd := epollfd, m_sockfd := sockfd, m_addr := addr,
       m_read_idx := 0, m_checked_idx := 0, m_linest_idx := 0,
       m_lastline_stat := LINE_STAT_OK, m_check_stat := CHECK_STAT_REQLINE,
       m_result := RES_NO_REQUEST, recvbuf := replicate k_recvbuf_size NUL\<rparr>"

definition nb_is_init :: "req_stat_mach \<Rightarrow> fd \<Rightarrow> bool" where
  "nb_is_init s expected_sockfd \<longleftrightarrow> m_sockfd s = expected_sockfd"

section \<open>The parser\<close>

function nb_check_one_line :: "req_stat_mach \<Rightarrow> (line_stat \<times> req_stat_mach) res" where
  "nb_check_one_line s =
     (let checked_idx = m_checked_idx s; read_idx = m_read_idx s; buf = recvbuf s in
      if \<not> checked_idx < read_idx then Inr (LINE_STAT_OPEN, s)
      else if length buf \<le> checked_idx then Inl OutOfBounds
      else
        let c = buf ! checked_idx in
        if c = CR then
          if checked_idx + 1 = read_idx then Inr (LINE_STAT_WAITING_N, s)
          else if length buf \<le> checked_idx + 1 then Inl OutOfBounds
          else if buf ! (checked_idx + 1) = LF then
            Inr (LINE_STAT_OK, s\<lparr>recvbuf := buf[checked_idx := NUL, checked_idx + 1 := NUL],
                                 m_checked_idx := checked_idx + 2\<rparr>)
          else nb_check_one_line (s\<lparr>m_checked_idx := checked_idx + 1\<rparr>)
        else if c = LF then
          if m_lastline_stat s \<noteq> LINE_STAT_WAITING_N then Inr (LINE_STAT_BAD, s)
          else if checked_idx = 0 then Inl OutOfBounds
          else Inr (LINE_STAT_OK, s\<lparr>recvbuf := buf[checked_idx - 1 := NUL, checked_idx := NUL],
                                    m_checked_idx := checked_idx + 1\<rparr>)
        else nb_check_one_line (s\<lparr>m_checked_idx := checked_idx + 1\<rparr>))"
  by pat_completeness auto
termination
  by (relation "measure (\<lambda>s. m_read_idx s - m_checked_idx s)") auto

declare nb_check_one_line.simps [simp del]

definition nb_parse_requesturi :: "string \<Rightarrow> result_code res" where
  "nb_parse_requesturi line =
     (let method_end = strpbrk line [SPACE, TAB];
          is_get = (case method_end of
              None \<Rightarrow> strcasecmp_eq line ''GET''   \<comment> \<open>the length is computed from a null pointer\<close>
            | Some n \<Rightarrow> strncasecmp_eq n line ''GET'') in
      if \<not> is_get then Inr RES_BAD_REQUEST
      else case method_end of
        None \<Rightarrow> Inl NullDeref
      | Some n \<Rightarrow>
          let line = drop (n + 1) line; uri_end = strpbrk line [SPACE, TAB] in
          (case uri_end of
             None \<Rightarrow> Inr RES_BAD_REQUEST
           | Some u \<Rightarrow>
               if u = 0 then Inr RES_BAD_REQUEST
               else
                 let line = drop (u + 1) line in
                 Inr (if strncasecmp_eq 8 line ''HTTP/1.1'' \<or> strncasecmp_eq 8 line ''HTTP/1.0''
                      then RES_NO_REQUEST else RES_BAD_REQUEST)))"

definition nb_parse_headers :: "string option \<Rightarrow> result_code" where
  "nb_parse_headers line =
     (case line of
        None \<Rightarrow> RES_INTERNAL_ERROR
      | Some cs \<Rightarrow> if cs = [] then RES_GOT_REQUEST else RES_NO_REQUEST)"

definition nb_parse_line :: "string \<Rightarrow> req_stat_mach \<Rightarrow> req_stat_mach res" where
  "nb_parse_line cur_line s =
     (case m_check_stat s of
        CHECK_STAT_REQLINE \<Rightarrow>
          map_res (\<lambda>res.
            let s = s\<lparr>m_result := res\<rparr> in
            if res = RES_NO_REQUEST then s\<lparr>m_check_stat := CHECK_STAT_HEADER\<rparr> else s)
            (nb_parse_requesturi cur_line)
      | CHECK_STAT_HEADER \<Rightarrow> Inr (s\<lparr>m_result := nb_parse_headers (Some cur_line)\<rparr>)
      | CHECK_STAT_ENTITY \<Rightarrow> Inl AssertFail)"

text \<open>The scanner is that of the second version, so the loop ends for the same reason.\<close>

lemma nb_check_one_line: "nb_check_one_line s = check_one_line s"
proof (induction s rule: check_one_line.induct)
  case (1 s)
  show ?case
    by (subst nb_check_one_line.simps, subst check_one_line.simps)
       (use "1.IH" in \<open>auto simp: Let_def\<close>)
qed

lemma nb_parse_requesturi: "nb_parse_requesturi line = parse_requesturi line"
  by (simp add: nb_parse_requesturi_def parse_requesturi_def Let_def split: option.split)

lemma nb_parse_line: "nb_parse_line line s = parse_line line s"
proof -
  have "nb_parse_headers (Some line) = parse_headers (Some line)"
    by (cases line) (simp_all add: nb_parse_headers_def)
  then show ?thesis
    by (cases "parse_requesturi line")
       (simp_all add: nb_parse_line_def parse_line.simps nb_parse_requesturi Let_def split: check_stat.split)
qed

function nb_parse_batch :: "req_stat_mach \<Rightarrow> req_stat_mach res" where
  "nb_parse_batch s =
     (case nb_check_one_line s of
        Inl f \<Rightarrow> Inl f
      | Inr (line_stat, s) \<Rightarrow>
          (let s = s\<lparr>m_lastline_stat := line_stat\<rparr> in
           if line_stat = LINE_STAT_OK then
             (case cstr_at (recvbuf s) (m_linest_idx s) of
                None \<Rightarrow> Inl Unterminated
              | Some cur_line \<Rightarrow>
                  (case nb_parse_line cur_line (s\<lparr>m_linest_idx := m_checked_idx s\<rparr>) of
                     Inl f \<Rightarrow> Inl f
                   | Inr s \<Rightarrow> if m_result s = RES_NO_REQUEST then nb_parse_batch s else Inr s))
           else if line_stat = LINE_STAT_OPEN \<or> line_stat = LINE_STAT_WAITING_N then Inr s
           else Inr (s\<lparr>m_result := RES_BAD_REQUEST\<rparr>)))"
  by pat_completeness auto
termination
  by (relation "measure (\<lambda>s. m_read_idx s - m_checked_idx s)")
    (fastforce simp: nb_check_one_line nb_parse_line dest!: check_one_line_progress parse_line_frame)+

declare nb_parse_batch.simps [simp del]

lemma nb_parse_batch: "nb_parse_batch s = parse_batch s"
proof (induction s rule: parse_batch.induct)
  case (1 s)
  show ?case
    by (subst nb_parse_batch.simps, subst parse_batch.simps)
       (use "1.IH" in \<open>auto simp: Let_def nb_check_one_line nb_parse_line split: sum.split line_stat.split option.split\<close>)
qed

section \<open>The response\<close>

definition nb_hello_iov :: "(string \<times> string) res" where
  "nb_hello_iov =
     (let head_buf = replicate k_headerbuf_size None; data_buf = replicate k_databuf_size None in
      rbind (snprintf data_buf 0 k_databuf_size (''Hello from Tom HTTP Server'' @ [LF])) (\<lambda>(data_buf, databuf_used_len).
      rbind (snprintf head_buf 0 k_headerbuf_size (''HTTP/1.1'' @ '' '' @ k_status_line STATUS_OK @ CRLF))
        (\<lambda>(head_buf, headbuf_used_len).
      rbind (snprintf head_buf headbuf_used_len (k_headerbuf_size - headbuf_used_len)
               (''Content-Length: '' @ dec_string databuf_used_len @ CRLF)) (\<lambda>(head_buf, ret).
      let headbuf_used_len = headbuf_used_len + ret in
      rbind (snprintf head_buf headbuf_used_len (k_headerbuf_size - headbuf_used_len) CRLF) (\<lambda>(head_buf, ret).
      let headbuf_used_len = headbuf_used_len + ret in
      rbind (iov_bytes head_buf headbuf_used_len) (\<lambda>head.
      map_res (Pair head) (iov_bytes data_buf databuf_used_len)))))))"

definition nb_respond_http :: "req_stat_mach \<Rightarrow> trace \<Rightarrow> trace res" where
  "nb_respond_http s h =
     (let peer_sockfd = m_sockfd s in
      rbind nb_hello_iov (\<lambda>(head, data).
        Inr (h @ [FcntlGetFl peer_sockfd, Writev peer_sockfd [head, data]])))"

lemma map_res_Pair: "map_res (Pair x) m = rbind m (\<lambda>d. Inr (x, d))"
  by (cases m) auto

lemma nb_respond_http: "nb_respond_http s h = respond_http s h"
proof -
  have "nb_hello_iov = hello_iov k_headerbuf_size k_databuf_size"
    by (simp add: nb_hello_iov_def hello_iov_def map_res_Pair Let_def)
  then show ?thesis by (simp add: nb_respond_http_def respond_http_def)
qed

section \<open>\<open>process\<close>\<close>

function nb_recv_loop :: "kernel \<Rightarrow> req_stat_mach \<Rightarrow> trace \<Rightarrow> (req_stat_mach \<times> trace) res" where
  "nb_recv_loop k s h =
     (if m_result s \<noteq> RES_NO_REQUEST then Inr (s, h)
      else
        let n = k_recvbuf_size - m_read_idx s;
            bytes_read = k_recv k h (m_sockfd s) n;
            h = h @ [Recv (m_sockfd s) n] in
        case bytes_read of
          RecvErr errno \<Rightarrow>
            Inr (if errno = EAGAIN \<or> errno = EWOULDBLOCK then s else s\<lparr>m_result := RES_INTERNAL_ERROR\<rparr>, h)
        | RecvData d \<Rightarrow>
            if d = [] then Inr (s\<lparr>m_result := RES_DONE_RECV\<rparr>, h)
            else if n < length d then Inl OutOfBounds
            else
              let s' = s\<lparr>recvbuf := overwrite (recvbuf s) (m_read_idx s) d\<rparr> in
              if cstr_at (recvbuf s') (m_read_idx s') = None then Inl Unterminated
              else case nb_parse_batch (s'\<lparr>m_read_idx := m_read_idx s' + length d\<rparr>) of
                Inl f \<Rightarrow> Inl f
              | Inr t \<Rightarrow> nb_recv_loop k t h)"
  by pat_completeness auto
termination
  by (relation "measure (\<lambda>(k, s, h). k_recvbuf_size - m_read_idx s)")
     (auto simp: nb_parse_batch dest!: parse_batch_frame intro: room_shrinks)

declare nb_recv_loop.simps [simp del]

lemma nb_recv_loop: "nb_recv_loop k s h = recv_loop k s h"
proof (induction k s h rule: recv_loop.induct)
  case (1 k s h)
  have batch: "nb_parse_batch (s\<lparr>recvbuf := overwrite (recvbuf s) (m_read_idx s) d, m_read_idx := m_read_idx s + length d\<rparr>) =
      feed s d" for d
    by (simp add: nb_parse_batch feed_def received_def)
  show ?case
    by (subst nb_recv_loop.simps, subst recv_loop.simps)
       (use "1.IH" in \<open>auto simp: Let_def batch received_def split: recv_ret.split sum.split\<close>)
qed

definition nb_process :: "kernel \<Rightarrow> req_stat_mach \<Rightarrow> trace \<Rightarrow> (req_stat_mach \<times> trace) res" where
  "nb_process k s h =
     rbind (nb_recv_loop k s h) (\<lambda>(s, h).
     rbind
       (case m_result s of
          RES_NO_REQUEST \<Rightarrow> Inr h
        | RES_GOT_REQUEST \<Rightarrow>
            rbind (nb_respond_http s h) (\<lambda>h. Inr (epoll_delfd (m_epollfd s) (m_sockfd s) h))
        | RES_DONE_RECV \<Rightarrow> Inr (epoll_delfd (m_epollfd s) (m_sockfd s) h)
        | _ \<Rightarrow> Inr (epoll_delfd (m_epollfd s) (m_sockfd s) h))
       (\<lambda>h. Inr (s\<lparr>m_sockfd := -1\<rparr>, h)))"

definition nb_class :: "req_stat_mach client_class" where
  "nb_class = \<lparr>c_init = nb_init, c_is_init = nb_is_init, c_process = nb_process\<rparr>"

text \<open>So the class is that of the second version, and what is proved of that one holds of this one.\<close>

lemma nb_class: "nb_class = reqstat_class"
proof -
  have "nb_process = process"
    by (simp add: fun_eq_iff nb_process_def process_def nb_recv_loop nb_respond_http cong: result_code.case_cong)
  moreover have "nb_init = init" "nb_is_init = is_init"
    by (simp_all add: fun_eq_iff nb_init_def init_def nb_is_init_def is_init_def)
  ultimately show ?thesis by (simp add: nb_class_def reqstat_class_def)
qed

lemma nb_new: "nb_new = ReqStatMach_new"
  by (simp add: fun_eq_iff nb_new_def ReqStatMach_new_def)

end
