(* ===== verification/FirstServer.thy ===== *)
theory FirstServer
  imports FirstPoolProps FirstHandler
begin

text \<open>
  The programs around the pools: \<^verbatim>\<open>examples/multitasking/test_multiproc_http_handler.cc\<close>, the HTTP server on
  the first version of the pool with the handler of \<^verbatim>\<open>nonblock_http_handler.h\<close>, and the test programs
  \<^verbatim>\<open>test/TestProcessPool.cc\<close> and \<^verbatim>\<open>examples/multitasking/test_processpool.cc\<close> of both versions, with a
  client that prints what it receives.
\<close>

section \<open>The programs\<close>

definition first_main ::
  "nat \<Rightarrow> (nat \<Rightarrow> req_stat_mach) \<Rightarrow> kernel \<Rightarrow> sockaddr_in \<Rightarrow> (int \<times> trace) res option" where
  "first_main fuel junk k addr =
     (let listenfd = k_socket k []; h = [SocketCreate] in
      if \<not> 0 \<le> listenfd then Some (Inl AssertFail)
      else
        let ret = k_bind k h listenfd; h = h @ [Bind listenfd addr] in
        if ret = -1 then Some (Inr (0, h))
        else
          let ret = k_listen k h listenfd; h = h @ [Listen listenfd 5] in
          if ret = -1 then Some (Inl AssertFail)
          else case processpool_create k None listenfd 2 h of
            Inl e \<Rightarrow> Some (Inl e)
          | Inr (pool, _, h) \<Rightarrow>
              map_option (map_res (\<lambda>h. (0, h @ [Close listenfd])))
                (processpool_run fuel nb_class (\<lambda>i. nb_new (junk i)) k pool h))"

text \<open>The address of the test programs, 192.168.56.2 at port 11111; its fields read as numbers.\<close>

definition test_addr :: sockaddr_in where
  "test_addr = \<lparr>sin_addr = 0xC0A83802, sin_port = 11111\<rparr>"

definition test_main :: "nat \<Rightarrow> (nat \<Rightarrow> test_client) \<Rightarrow> kernel \<Rightarrow> (int \<times> trace) res option" where
  "test_main fuel junk k =
     (let listenfd = k_socket k []; h = [SocketCreate] in
      if \<not> 0 \<le> listenfd then Some (Inl AssertFail)
      else
        let ret = k_bind k h listenfd; h = h @ [Bind listenfd test_addr] in
        if ret = -1 then Some (Inr (0, h))
        else
          let ret = k_listen k h listenfd; h = h @ [Listen listenfd 5] in
          if ret = -1 then Some (Inl AssertFail)
          else case create k None listenfd 3 h of
            Inl e \<Rightarrow> Some (Inl e)
          | Inr (pool, _, h) \<Rightarrow>
              map_option (map_res (\<lambda>h. (0, h @ [Close listenfd])))
                (run fuel test_class (\<lambda>i. tc_new (junk i)) k pool h))"

definition first_test_main :: "nat \<Rightarrow> (nat \<Rightarrow> test_client) \<Rightarrow> kernel \<Rightarrow> (int \<times> trace) res option" where
  "first_test_main fuel junk k =
     (let listenfd = k_socket k []; h = [SocketCreate] in
      if \<not> 0 \<le> listenfd then Some (Inl AssertFail)
      else
        let ret = k_bind k h listenfd; h = h @ [Bind listenfd test_addr] in
        if ret = -1 then Some (Inr (0, h))
        else
          let ret = k_listen k h listenfd; h = h @ [Listen listenfd 5] in
          if ret = -1 then Some (Inl AssertFail)
          else case processpool_create k None listenfd 3 h of
            Inl e \<Rightarrow> Some (Inl e)
          | Inr (pool, _, h) \<Rightarrow>
              map_option (map_res (\<lambda>h. (0, h @ [Close listenfd])))
                (processpool_run fuel test_class (\<lambda>i. tc_new (junk i)) k pool h))"

section \<open>The first version, for any class of clients\<close>

definition first_serve ::
  "nat \<Rightarrow> 'c client_class \<Rightarrow> (nat \<Rightarrow> 'c) \<Rightarrow> int \<Rightarrow> kernel \<Rightarrow> sockaddr_in \<Rightarrow> (int \<times> trace) res option" where
  "first_serve fuel T clients0 n k addr =
     (let l = k_socket k []; h = [SocketCreate, Bind l addr] in
      if l < 0 then Some (Inl AssertFail)
      else if k_bind k [SocketCreate] l = -1 then Some (Inr (0, h))
      else if k_listen k h l = -1 then Some (Inl AssertFail)
      else case processpool_new k l n (h @ [Listen l 5]) of
        Inl e \<Rightarrow> Some (Inl e)
      | Inr (pool, h) \<Rightarrow>
          map_option (map_res (\<lambda>h. (0, h @ [Close l]))) (processpool_run fuel T clients0 k pool h))"

lemma test_main_serve: "test_main fuel junk k = serve fuel test_class (\<lambda>i. tc_new (junk i)) 3 k test_addr"
  by (simp add: test_main_def serve_def create_def Let_def not_le split: sum.split)

lemma first_test_main_serve:
  "first_test_main fuel junk k = first_serve fuel test_class (\<lambda>i. tc_new (junk i)) 3 k test_addr"
  by (simp add: first_test_main_def first_serve_def processpool_create_def Let_def not_le split: sum.split)

lemma first_main_serve:
  "first_main fuel junk k addr = first_serve fuel reqstat_class (\<lambda>i. ReqStatMach_new (junk i)) 2 k addr"
  by (simp add: first_main_def first_serve_def processpool_create_def nb_class nb_new Let_def not_le
      split: sum.split)

text \<open>
  The parent runs on, after \<open>getpid\<close>, as the second version does; a child, and a process whose
  set-up fails, make the same calls from beginning to end.
\<close>

lemma processpool_new_fault:
  "processpool_new k l n h = Inl f \<Longrightarrow> ProcessPool_new k l n h = Inl f"
  using processpool_new_sim [of k l n h] by simp

definition in_parent :: "kernel \<Rightarrow> sockaddr_in \<Rightarrow> int \<Rightarrow> bool" where
  "in_parent k addr n =
     (case processpool_new k (k_socket k []) n
             [SocketCreate, Bind (k_socket k []) addr, Listen (k_socket k []) 5] of
        Inl f \<Rightarrow> False
      | Inr (pool, h) \<Rightarrow> pp_sub_idx pool = -1)"

lemma serve_first_serve:
  assumes "\<not> in_parent k addr n" "1 \<le> n"
  shows "first_serve fuel T clients0 n k addr = serve fuel T clients0 n k addr"
proof -
  let ?l = "k_socket k []"
  let ?h = "[SocketCreate, Bind ?l addr, Listen ?l 5]"
  show ?thesis
  proof (cases "processpool_new k ?l n ?h")
    case (Inl f)
    with processpool_new_fault [OF Inl] show ?thesis by (simp add: first_serve_def serve_def Let_def)
  next
    case (Inr b)
    obtain p h1 where b: "b = (p, h1)" by (cases b)
    with Inr assms(1) have "pp_sub_idx p \<noteq> -1" by (simp add: in_parent_def)
    moreover have "run fuel T clients0 k (as_pool pid p) h = processpool_run fuel T clients0 k p h" for pid h
      by (rule run_sim [OF processpool_new_states [OF Inr [unfolded b] assms(2)]])
    ultimately show ?thesis
      using processpool_new_sim [of k ?l n ?h] Inr b by (simp add: first_serve_def serve_def Let_def)
  qed
qed

section \<open>Properties\<close>

text \<open>
  C40. The HTTP server did not change when the pool was refactored: in every child, and in every
  process whose constructor fails, the whole run of the first version's program, from the first call to
  the end, is that of \<^verbatim>\<open>src/MainMultiProc.cc\<close>: the same calls, the same exit code, the same fault.
\<close>

theorem first_server_same:
  assumes "\<not> in_parent k addr 2"
  shows "first_main fuel junk k addr = main fuel junk k addr"
  using serve_first_serve [OF assms] by (simp add: first_main_serve main_serve)

text \<open>A first child of the demonstration pool: its \<open>fork\<close> returns 0.\<close>

definition child_kernel :: kernel where
  "child_kernel = main_kernel\<lparr>k_fork := (\<lambda>h. 0)\<rparr>"

lemma first_server_same_witness:
  "first_main 2 (\<lambda>i. zero_machine) child_kernel a_peer = main 2 (\<lambda>i. zero_machine) child_kernel a_peer \<and>
   (\<exists>p h. processpool_new child_kernel 4 2 [SocketCreate, Bind 4 a_peer, Listen 4 5] = Inr (p, h) \<and> pp_sub_idx p = 0)"
proof -
  have child: "\<exists>p h. processpool_new child_kernel 4 2 [SocketCreate, Bind 4 a_peer, Listen 4 5] = Inr (p, h) \<and>
      pp_sub_idx p = 0"
    by (simp add: processpool_new_def fork_children.simps child_kernel_def main_kernel_def demo_kernel_def
        pool_kernel_def k_max_num_process_def Let_def)
  then have "\<not> in_parent child_kernel a_peer 2"
    by (auto simp: in_parent_def child_kernel_def main_kernel_def)
  from first_server_same [OF this] child show ?thesis by blast
qed

text \<open>
  The test program seen from its first process: the same protocol with three children.
\<close>

theorem test_main_parent:
  assumes "test_main fuel junk k = Some r" "recv_bounded k" "epoll_bounded k" "\<forall>h. k_fork k h \<noteq> 0"
  shows "r = Inl AssertFail \<or> r = Inr (0, [SocketCreate, Bind (k_socket k []) test_addr]) \<or>
    (\<exists>pool h c. r = Inr (0, h @ [Close (k_socket k [])]) \<and>
       num_proc pool = 3 \<and> filter is_send h = map (notice pool) [0..<c])"
  using serve_parent [OF assms(1) [unfolded test_main_serve] assms(2-4)] by simp

text \<open>And the two test programs agree in their children.\<close>

theorem first_test_same:
  "\<not> in_parent k test_addr 3 \<Longrightarrow> first_test_main fuel junk k = test_main fuel junk k"
  by (simp add: first_test_main_serve test_main_serve serve_first_serve)

end
