(* ===== verification/SpliceEcho.thy ===== *)
theory SpliceEcho
  imports Posix
begin

text \<open>
  \<^verbatim>\<open>examples/network-programming-api-basic/echo_splice.cc\<close> and \<^verbatim>\<open>daemo_echo_splice.cc\<close>: a server for
  one connection that sends back what it gets, without a buffer of its own: a pipe whose ends it has
  both lies between two calls of \<open>splice\<close>. The second program turns itself into a daemon before
  its loop. The bytes in the pipe are kept by the kernel; they are part of the state here.
\<close>

definition kBufferSize :: nat where "kBufferSize = 4096"   \<comment> \<open>PIPE_BUF\<close>

text \<open>
  Besides the pipe and the calls, two history variables: what the connection has delivered, and what
  has been sent back on it.
\<close>

record echo =
  ec_pipe :: "char list"
  ec_got :: "char list"
  ec_echoed :: "char list"
  ec_trace :: trace

definition echo_call :: "syscall \<Rightarrow> echo \<Rightarrow> echo" where
  "echo_call c s = s\<lparr>ec_trace := ec_trace s @ [c]\<rparr>"

text \<open>The socket, bound and listening; every result is asserted.\<close>

definition open_service :: "kernel \<Rightarrow> sockaddr_in \<Rightarrow> trace \<Rightarrow> (fd \<times> trace) res" where
  "open_service k my_sockaddr h =
     (let my_sockfd = k_socket k h; h = h @ [SocketCreate] in
      if \<not> 0 \<le> my_sockfd then Inl AssertFail
      else
        let ret = k_bind k h my_sockfd; h = h @ [Bind my_sockfd my_sockaddr] in
        if ret = -1 then Inl AssertFail
        else
          let ret = k_listen k h my_sockfd; h = h @ [Listen my_sockfd 5] in
          if ret = -1 then Inl AssertFail else Inr (my_sockfd, h))"

lemma open_service_Inr:
  "open_service k addr h = Inr (my, h') \<Longrightarrow> h' = h @ [SocketCreate, Bind my addr, Listen my 5]"
  by (auto simp: open_service_def Let_def split: if_splits)

lemma open_service_fault: "open_service k addr h = Inl f \<Longrightarrow> f = AssertFail"
  by (auto simp: open_service_def Let_def split: if_splits)

section \<open>The loop\<close>

text \<open>
  From the socket into the pipe. An empty result is the end of the connection.
\<close>

definition splice_from_peer :: "kernel \<Rightarrow> fd \<Rightarrow> fd \<Rightarrow> echo \<Rightarrow> echo res" where
  "splice_from_peer k peer_sockfd wfd s =
     (let ret = k_splice_in k (ec_trace s) peer_sockfd kBufferSize;
          s = echo_call (Splice peer_sockfd wfd kBufferSize) s in
      case ret of
        RecvErr e \<Rightarrow> Inl AssertFail
      | RecvData d \<Rightarrow> Inr (s\<lparr>ec_pipe := ec_pipe s @ d, ec_got := ec_got s @ d\<rparr>))"

text \<open>
  From the pipe to the socket. If the pipe is empty, the call waits for data that only this process
  could write, since it has the write end open itself: it never returns.
\<close>

definition splice_to_peer :: "kernel \<Rightarrow> fd \<Rightarrow> fd \<Rightarrow> echo \<Rightarrow> echo res" where
  "splice_to_peer k peer_sockfd rfd s =
     (if ec_pipe s = [] then Inl Diverges
      else
        let ret = k_splice_out k (ec_trace s) peer_sockfd kBufferSize;
            s = echo_call (Splice rfd peer_sockfd kBufferSize) s in
        if ret = -1 then Inl AssertFail
        else Inr (s\<lparr>ec_pipe := drop (nat ret) (ec_pipe s),
                    ec_echoed := ec_echoed s @ take (nat ret) (ec_pipe s)\<rparr>))"

definition echo_round :: "kernel \<Rightarrow> fd \<Rightarrow> fd \<times> fd \<Rightarrow> echo \<Rightarrow> echo res" where
  "echo_round k peer_sockfd pipefd s =
     rbind (splice_from_peer k peer_sockfd (snd pipefd) (echo_call (Sleep 5) s))
       (splice_to_peer k peer_sockfd (fst pipefd))"

text \<open>The loop; its handler of SIGTERM sets the flag that ends it.\<close>

fun echo_loop :: "nat \<Rightarrow> kernel \<Rightarrow> fd \<Rightarrow> fd \<times> fd \<Rightarrow> echo \<Rightarrow> echo res option" where
  "echo_loop fuel k peer_sockfd pipefd s =
     (if k_sigterm k (ec_trace s) then Some (Inr s)
      else case fuel of
        0 \<Rightarrow> None
      | Suc n \<Rightarrow>
          (case echo_round k peer_sockfd pipefd s of
             Inl f \<Rightarrow> Some (Inl f)
           | Inr s \<Rightarrow> echo_loop n k peer_sockfd pipefd s))"

declare echo_loop.simps [simp del]

section \<open>The programs\<close>

definition echo_start :: "trace \<Rightarrow> echo" where
  "echo_start h = \<lparr>ec_pipe = [], ec_got = [], ec_echoed = [], ec_trace = h\<rparr>"

text \<open>
  After the loop the ends of the pipe are closed, the write end first, then the connection and the
  listening socket.
\<close>

definition echo_close :: "fd list \<Rightarrow> echo \<Rightarrow> echo" where
  "echo_close fds s = s\<lparr>ec_trace := ec_trace s @ map Close fds\<rparr>"

definition echo_main :: "nat \<Rightarrow> kernel \<Rightarrow> sockaddr_in \<Rightarrow> (int \<times> echo) res option" where
  "echo_main fuel k my_sockaddr =
     (case open_service k my_sockaddr [] of
        Inl f \<Rightarrow> Some (Inl f)
      | Inr (my_sockfd, h) \<Rightarrow>
          (case k_accept k h my_sockfd of
             AcceptErr e \<Rightarrow> Some (Inr (0, echo_close [my_sockfd] (echo_start (h @ [Accept my_sockfd]))))
           | Accepted peer_sockfd peer_sockaddr \<Rightarrow>
               let h = h @ [Accept my_sockfd] in
               if peer_sockfd < 0 then Some (Inr (0, echo_close [my_sockfd] (echo_start h)))
               else
                 (case k_pipe k h of
                    None \<Rightarrow>
                      Some (Inr (0, echo_close [peer_sockfd, my_sockfd] (echo_start (h @ [PipeCreate]))))
                  | Some pipefd \<Rightarrow>
                      map_option (map_res (\<lambda>s.
                          (0, echo_close [snd pipefd, fst pipefd, peer_sockfd, my_sockfd] s)))
                        (echo_loop fuel k peer_sockfd pipefd (echo_start (h @ [PipeCreate]))))))"

text \<open>
  \<open>Daemonize\<close>: \<open>Inl\<close> is an \<open>exit\<close> with its code, \<open>Inr\<close> the return in the daemon.
\<close>

abbreviation (input) O_RDONLY :: int where "O_RDONLY \<equiv> 0"
abbreviation (input) O_WRONLY :: int where "O_WRONLY \<equiv> 1"

definition dev_null :: string where "dev_null = ''/dev/null''"

definition daemon_calls :: trace where
  "daemon_calls = [Close 0, Close 1, Close 2, Open dev_null O_RDONLY, Open dev_null O_WRONLY,
     Open dev_null O_WRONLY]"

definition Daemonize :: "kernel \<Rightarrow> trace \<Rightarrow> int \<times> trace + trace" where
  "Daemonize k h =
     (let pid = k_fork k h; h = h @ [Fork] in
      if pid < 0 then Inl (1, h)
      else if pid > 0 then Inl (0, h)
      else
        let gid = k_setsid k h; h = h @ [Setsid] in
        if gid < 0 then Inl (1, h)
        else Inr (h @ daemon_calls))"

definition daemon_main :: "nat \<Rightarrow> kernel \<Rightarrow> sockaddr_in \<Rightarrow> (int \<times> echo) res option" where
  "daemon_main fuel k my_sockaddr =
     (case open_service k my_sockaddr [] of
        Inl f \<Rightarrow> Some (Inl f)
      | Inr (my_sockfd, h) \<Rightarrow>
          (case k_accept k h my_sockfd of
             AcceptErr e \<Rightarrow> Some (Inr (0, echo_close [my_sockfd] (echo_start (h @ [Accept my_sockfd]))))
           | Accepted peer_sockfd peer_sockaddr \<Rightarrow>
               let h = h @ [Accept my_sockfd] in
               if peer_sockfd < 0 then Some (Inr (0, echo_close [my_sockfd] (echo_start h)))
               else
                 (case k_pipe k h of
                    None \<Rightarrow>
                      Some (Inr (0, echo_close [peer_sockfd, my_sockfd] (echo_start (h @ [PipeCreate]))))
                  | Some pipefd \<Rightarrow>
                      (case Daemonize k (h @ [PipeCreate]) of
                         Inl (code, h) \<Rightarrow> Some (Inr (code, echo_start h))
                       | Inr h \<Rightarrow>
                           map_option (map_res (\<lambda>s.
                               (0, echo_close [snd pipefd, fst pipefd, peer_sockfd, my_sockfd] s)))
                             (echo_loop fuel k peer_sockfd pipefd (echo_start h))))))"

end
