(* ===== verification/SpliceEchoProps.thy ===== *)
theory SpliceEchoProps
  imports SpliceEcho
begin

text \<open>
  The echo server: the bytes it sends back are the bytes it got, in order; every descriptor is closed
  at the end; the daemon behaves as the plain program does; and the end of the connection is not
  noticed.
\<close>

section \<open>A round\<close>

lemma echo_call_simps [simp]:
  "ec_pipe (echo_call c s) = ec_pipe s" "ec_got (echo_call c s) = ec_got s"
  "ec_echoed (echo_call c s) = ec_echoed s" "ec_trace (echo_call c s) = ec_trace s @ [c]"
  by (simp_all add: echo_call_def)

definition in_order :: "echo \<Rightarrow> bool" where
  "in_order s \<longleftrightarrow> ec_got s = ec_echoed s @ ec_pipe s"

definition closing :: "syscall \<Rightarrow> bool" where
  "closing c = (case c of Close fd \<Rightarrow> True | _ \<Rightarrow> False)"

lemma closing_simps [simp]:
  "closing (Close fd)" "\<not> closing (Sleep n)" "\<not> closing (Splice f g n)" "\<not> closing SocketCreate"
  "\<not> closing (Bind fd a)" "\<not> closing (Listen fd m)" "\<not> closing (Accept fd)" "\<not> closing PipeCreate"
  by (simp_all add: closing_def)

lemma splice_from_peer_Inr:
  "splice_from_peer k peer w s = Inr t \<Longrightarrow> in_order s \<Longrightarrow> in_order t"
  "splice_from_peer k peer w s = Inr t \<Longrightarrow> ec_trace t = ec_trace s @ [Splice peer w kBufferSize]"
  by (auto simp: splice_from_peer_def in_order_def Let_def split: recv_ret.splits)

lemma splice_to_peer_Inr:
  "splice_to_peer k peer r s = Inr t \<Longrightarrow> in_order s \<Longrightarrow> in_order t"
  "splice_to_peer k peer r s = Inr t \<Longrightarrow> ec_trace t = ec_trace s @ [Splice r peer kBufferSize]"
  by (auto simp: splice_to_peer_def in_order_def Let_def split: if_splits)

lemma echo_round_Inr:
  assumes "echo_round k peer (r, w) s = Inr t"
  shows "ec_trace t = ec_trace s @ [Sleep 5, Splice peer w kBufferSize, Splice r peer kBufferSize]"
    "in_order s \<Longrightarrow> in_order t"
proof -
  obtain u where u: "splice_from_peer k peer w (echo_call (Sleep 5) s) = Inr u" "splice_to_peer k peer r u = Inr t"
    using assms by (auto simp: echo_round_def rbind_eq_Inr_iff)
  from splice_from_peer_Inr(2) [OF u(1)] splice_to_peer_Inr(2) [OF u(2)]
  show "ec_trace t = ec_trace s @ [Sleep 5, Splice peer w kBufferSize, Splice r peer kBufferSize]" by simp
  assume "in_order s"
  then have "in_order (echo_call (Sleep 5) s)" by (simp add: in_order_def)
  then show "in_order t" using splice_from_peer_Inr(1) [OF u(1)] splice_to_peer_Inr(1) [OF u(2)] by simp
qed

lemma echo_round_fault: "echo_round k peer p s = Inl f \<Longrightarrow> f = AssertFail \<or> f = Diverges"
  by (auto simp: echo_round_def splice_from_peer_def splice_to_peer_def rbind_eq_Inl_iff Let_def
      split: recv_ret.splits if_splits)

text \<open>A round in which both calls move everything: the bytes got are echoed.\<close>

lemma echo_round_complete:
  assumes "ec_pipe s = []" "k_splice_in k (ec_trace s @ [Sleep 5]) peer kBufferSize = RecvData d" "d \<noteq> []"
    "k_splice_out k (ec_trace s @ [Sleep 5, Splice peer w kBufferSize]) peer kBufferSize = int (length d)"
  shows "\<exists>t. echo_round k peer (r, w) s = Inr t \<and> ec_pipe t = [] \<and> ec_echoed t = ec_echoed s @ d"
  using assms by (simp add: echo_round_def splice_from_peer_def splice_to_peer_def Let_def)

section \<open>A run\<close>

text \<open>How a loop that started from the calls \<open>h\<close> ends, and what has been called by then.\<close>

definition echo_calls :: "fd \<Rightarrow> fd \<times> fd \<Rightarrow> nat \<Rightarrow> trace" where
  "echo_calls peer p m = concat (replicate m
     [Sleep 5, Splice peer (snd p) kBufferSize, Splice (fst p) peer kBufferSize])"

lemma echo_calls_Suc: "echo_calls peer p (Suc m) =
    [Sleep 5, Splice peer (snd p) kBufferSize, Splice (fst p) peer kBufferSize] @ echo_calls peer p m"
  "echo_calls peer p 0 = []"
  by (simp_all add: echo_calls_def)

definition echo_fault :: "fault \<Rightarrow> bool" where
  "echo_fault f \<longleftrightarrow> f = AssertFail \<or> f = Diverges"

lemma echo_loop_run:
  assumes "echo_loop fuel k peer p s = Some res" "in_order s"
  shows "case res of
      Inl f \<Rightarrow> echo_fault f
    | Inr t \<Rightarrow> in_order t \<and> (\<exists>m. ec_trace t = ec_trace s @ echo_calls peer p m)"
  using assms
proof (induction fuel arbitrary: s)
  case 0
  then have "res = Inr s" by (simp add: echo_loop.simps [of 0] split: if_splits)
  with 0 show ?case by (auto intro: exI [of _ 0] simp: echo_calls_Suc)
next
  case (Suc n)
  note unf = echo_loop.simps [of "Suc n"]
  show ?case
  proof (cases "k_sigterm k (ec_trace s)")
    case True
    with Suc.prems have "res = Inr s" by (simp add: unf)
    with Suc.prems show ?thesis by (auto intro: exI [of _ 0] simp: echo_calls_Suc)
  next
    case running: False
    show ?thesis
    proof (cases "echo_round k peer p s")
      case (Inl f)
      with running Suc.prems echo_round_fault [OF Inl] show ?thesis by (auto simp: unf echo_fault_def)
    next
      case (Inr t)
      obtain r w where p: "p = (r, w)" by (cases p)
      note round = echo_round_Inr [OF Inr [unfolded p]]
      have "echo_loop n k peer p t = Some res" using Inr running Suc.prems by (simp add: unf)
      from Suc.IH [OF this round(2) [OF Suc.prems(2)]] round(1) show ?thesis
        by (auto simp: p echo_calls_Suc split: sum.splits intro: exI [of _ "Suc m" for m])
    qed
  qed
qed

text \<open>
  The calls before the end close nothing; so the descriptors closed at the end are closed once each.
\<close>

definition echo_closed :: "fd list \<Rightarrow> trace \<Rightarrow> bool" where
  "echo_closed fds h \<longleftrightarrow> (\<exists>h0. h = h0 @ map Close fds \<and> filter closing h0 = [])"

lemma echo_calls_closing: "filter closing (echo_calls peer p m) = []"
  by (induction m) (simp_all add: echo_calls_Suc)

lemma echo_start_simps [simp]:
  "ec_trace (echo_start h) = h" "ec_got (echo_start h) = []" "ec_echoed (echo_start h) = []"
  "ec_pipe (echo_start h) = []" "in_order (echo_start h)"
  by (simp_all add: echo_start_def in_order_def)

lemma echo_close_simps [simp]:
  "ec_trace (echo_close fds s) = ec_trace s @ map Close fds" "ec_got (echo_close fds s) = ec_got s"
  "ec_echoed (echo_close fds s) = ec_echoed s" "ec_pipe (echo_close fds s) = ec_pipe s"
  by (simp_all add: echo_close_def)

lemma echo_served:
  assumes "echo_loop fuel k peer p (echo_start h) = Some (Inr t)"
  shows "in_order t" "\<exists>m. ec_trace t = h @ echo_calls peer p m"
  using echo_loop_run [OF assms] by simp_all

lemma echo_closed_intro:
  "filter closing h = [] \<Longrightarrow> ec_trace t = h @ echo_calls peer p m \<Longrightarrow>
     echo_closed fds (ec_trace (echo_close fds t))"
  unfolding echo_closed_def by (rule exI [of _ "ec_trace t"]) (simp add: echo_calls_closing)

text \<open>The descriptors that a run opens, the last one first.\<close>

definition echo_opened :: "kernel \<Rightarrow> sockaddr_in \<Rightarrow> fd list" where
  "echo_opened k addr =
     (let my = k_socket k []; h = [SocketCreate, Bind my addr, Listen my 5] in
      case k_accept k h my of
        AcceptErr e \<Rightarrow> [my]
      | Accepted peer peer_addr \<Rightarrow>
          if peer < 0 then [my]
          else (case k_pipe k (h @ [Accept my]) of
                  None \<Rightarrow> [peer, my]
                | Some (r, w) \<Rightarrow> [w, r, peer, my]))"

text \<open>
  The result of a run: one of two faults, or 0, the bytes in order and the opened descriptors closed.
\<close>

definition echo_result :: "fd list \<Rightarrow> (int \<times> echo) res \<Rightarrow> bool" where
  "echo_result fds res = (case res of
      Inl f \<Rightarrow> echo_fault f
    | Inr (code, s) \<Rightarrow> code = 0 \<and> in_order s \<and> echo_closed fds (ec_trace s))"

lemma echo_result_closed:
  "filter closing h = [] \<Longrightarrow> echo_result fds (Inr (0, echo_close fds (echo_start h)))"
  using echo_closed_intro [of h "echo_start h" "0" "(0, 0)" 0 fds]
  by (simp add: echo_calls_Suc echo_result_def in_order_def)

lemma echo_result_served:
  assumes "map_option (map_res (\<lambda>s. (0, echo_close fds s))) (echo_loop fuel k peer p (echo_start h)) = Some res"
    "filter closing h = []"
  shows "echo_result fds res"
proof (cases "echo_loop fuel k peer p (echo_start h)")
  case None
  with assms show ?thesis by simp
next
  case (Some out)
  show ?thesis
  proof (cases out)
    case (Inl f)
    with Some assms echo_loop_run [OF Some] show ?thesis by (auto simp: echo_result_def)
  next
    case (Inr t)
    note served = echo_served [OF Some [unfolded Inr]]
    obtain m where "ec_trace t = h @ echo_calls peer p m" using served(2) by blast
    from echo_closed_intro [OF assms(2) this] served(1) Some Inr assms(1) show ?thesis
      by (auto simp: echo_result_def in_order_def)
  qed
qed

lemma echo_main_result:
  assumes "echo_main fuel k addr = Some res"
  shows "echo_result (echo_opened k addr) res"
proof (cases "open_service k addr []")
  case (Inl f)
  with assms open_service_fault [OF Inl] show ?thesis
    by (auto simp: echo_main_def echo_result_def echo_fault_def)
next
  case (Inr b)
  obtain my h where b: "b = (my, h)" by (cases b)
  have h: "my = k_socket k []" "h = [SocketCreate, Bind my addr, Listen my 5]"
    using Inr [unfolded b] by (auto simp: open_service_def Let_def split: if_splits)
  note run = assms [unfolded echo_main_def Inr b sum.case prod.case]
  show ?thesis
  proof (cases "k_accept k h my")
    case (AcceptErr e)
    with run have "res = Inr (0, echo_close [my] (echo_start (h @ [Accept my])))" by simp
    with AcceptErr h show ?thesis by (simp add: echo_opened_def echo_result_closed)
  next
    case (Accepted peer whom)
    show ?thesis
    proof (cases "peer < 0")
      case True
      with run Accepted have "res = Inr (0, echo_close [my] (echo_start (h @ [Accept my])))" by simp
      with Accepted True h show ?thesis by (simp add: echo_opened_def echo_result_closed)
    next
      case valid: False
      show ?thesis
      proof (cases "k_pipe k (h @ [Accept my])")
        case None
        with run Accepted valid
        have "res = Inr (0, echo_close [peer, my] (echo_start (h @ [Accept my] @ [PipeCreate])))"
          by simp
        with Accepted valid None h show ?thesis by (simp add: echo_opened_def echo_result_closed)
      next
        case (Some p)
        have "echo_opened k addr = [snd p, fst p, peer, my]"
          using Accepted valid Some h by (cases p) (simp add: echo_opened_def)
        moreover have "map_option (map_res (\<lambda>s. (0, echo_close [snd p, fst p, peer, my] s)))
            (echo_loop fuel k peer p (echo_start (h @ [Accept my] @ [PipeCreate]))) = Some res"
          using run Accepted valid Some by simp
        ultimately show ?thesis using h(2) by (simp add: echo_result_served)
      qed
    qed
  qed
qed


text \<open>A scripted kernel: the service opens, each \<open>splice\<close> from the connection brings the next batch.\<close>

definition is_splice_to :: "fd \<Rightarrow> syscall \<Rightarrow> bool" where
  "is_splice_to fd c = (case c of Splice f t n \<Rightarrow> t = fd | _ \<Rightarrow> False)"

definition echo_script :: "char list list \<Rightarrow> nat \<Rightarrow> kernel" where
  "echo_script ds moved = idle_kernel\<lparr>
     k_accept := (\<lambda>h fd. Accepted 4 a_peer), k_fork := (\<lambda>h. 0), k_socket := (\<lambda>h. 3), k_bind := (\<lambda>h fd. 0),
     k_listen := (\<lambda>h fd. 0), k_sigterm := (\<lambda>h. length ds \<le> length (filter (is_splice_to 6) h)),
     k_pipe := (\<lambda>h. Some (5, 6)),
     k_splice_in := (\<lambda>h fd n. RecvData (ds ! length (filter (is_splice_to 6) h))),
     k_splice_out := (\<lambda>h fd n. int moved), k_setsid := (\<lambda>h. 7)\<rparr>"

lemmas echo_run_simps = echo_main_def open_service_def echo_round_def splice_from_peer_def
  splice_to_peer_def echo_script_def idle_kernel_def is_splice_to_def echo_loop.simps [of "Suc n" for n]
  echo_loop.simps [of 0] Let_def numeral_2_eq_2 numeral_3_eq_3


text \<open>
  The server does not notice the end of the connection. When its pipe is empty and the connection
  delivers nothing more, the next round never ends: the second call waits for bytes that only this
  process could write. A SIGTERM sets the flag, which the loop does not come to read again.
\<close>

theorem echo_eof_hangs:
  assumes "ec_pipe s = []" "\<not> k_sigterm k (ec_trace s)"
    "k_splice_in k (ec_trace s @ [Sleep 5]) peer kBufferSize = RecvData []"
  shows "echo_loop (Suc n) k peer p s = Some (Inl Diverges)"
  using assms by (simp add: echo_loop.simps [of "Suc n"] echo_round_def splice_from_peer_def
      splice_to_peer_def Let_def)

lemma echo_eof_hangs_witness:
  "echo_loop (Suc 0) (echo_script [[]] 0) 4 (5, 6) (echo_start []) = Some (Inl Diverges)"
  by (rule echo_eof_hangs) (simp_all add: echo_start_def echo_script_def is_splice_to_def)

section \<open>The daemon\<close>

text \<open>
  A trace of the plain program as the daemon sees it: the calls that detach it stand after the ones
  with which the service is opened.
\<close>

definition detach_calls :: trace where
  "detach_calls = [Fork, Setsid] @ daemon_calls"

definition detached :: "trace \<Rightarrow> trace" where
  "detached h = take 5 h @ detach_calls @ drop 5 h"

definition daemon_view :: "kernel \<Rightarrow> kernel" where
  "daemon_view k = k\<lparr>
     k_sigterm := (\<lambda>h. k_sigterm k (detached h)),
     k_splice_in := (\<lambda>h. k_splice_in k (detached h)),
     k_splice_out := (\<lambda>h. k_splice_out k (detached h))\<rparr>"

definition detached_echo :: "echo \<Rightarrow> echo" where
  "detached_echo s = s\<lparr>ec_trace := detached (ec_trace s)\<rparr>"

lemma detached_append: "5 \<le> length h \<Longrightarrow> detached (h @ g) = detached h @ g"
  by (simp add: detached_def)

lemma daemon_view_simps [simp]:
  "k_sigterm (daemon_view k) h = k_sigterm k (detached h)"
  "k_splice_in (daemon_view k) h = k_splice_in k (detached h)"
  "k_splice_out (daemon_view k) h = k_splice_out k (detached h)"
  "k_accept (daemon_view k) = k_accept k" "k_pipe (daemon_view k) = k_pipe k"
  "open_service (daemon_view k) addr h = open_service k addr h"
  by (simp_all add: daemon_view_def open_service_def Let_def)

lemma detached_echo_simps [simp]:
  "ec_trace (detached_echo s) = detached (ec_trace s)" "ec_pipe (detached_echo s) = ec_pipe s"
  "ec_got (detached_echo s) = ec_got s" "ec_echoed (detached_echo s) = ec_echoed s"
  by (simp_all add: detached_echo_def)

lemma detached_echo_call:
  "5 \<le> length (ec_trace s) \<Longrightarrow> echo_call c (detached_echo s) = detached_echo (echo_call c s)"
  by (simp add: detached_echo_def echo_call_def detached_append)

lemma detached_splice_from_peer:
  "5 \<le> length (ec_trace s) \<Longrightarrow> splice_from_peer k peer w (detached_echo s) =
     map_res detached_echo (splice_from_peer (daemon_view k) peer w s)"
  by (simp add: splice_from_peer_def detached_echo_call detached_append Let_def split: recv_ret.split)

lemma detached_splice_to_peer:
  "5 \<le> length (ec_trace s) \<Longrightarrow> splice_to_peer k peer r (detached_echo s) =
     map_res detached_echo (splice_to_peer (daemon_view k) peer r s)"
  by (simp add: splice_to_peer_def detached_echo_call Let_def)

lemma detached_echo_round:
  assumes "5 \<le> length (ec_trace s)"
  shows "echo_round k peer p (detached_echo s) = map_res detached_echo (echo_round (daemon_view k) peer p s)"
proof -
  let ?s = "echo_call (Sleep 5) s"
  note inward = detached_splice_from_peer [of ?s k peer "snd p"]
  show ?thesis
  proof (cases "splice_from_peer (daemon_view k) peer (snd p) ?s")
    case (Inl f)
    with inward assms show ?thesis by (simp add: echo_round_def detached_echo_call)
  next
    case (Inr t)
    from splice_from_peer_Inr(2) [OF Inr] assms have "5 \<le> length (ec_trace t)" by simp
    with inward assms Inr show ?thesis
      by (simp add: echo_round_def detached_echo_call detached_splice_to_peer)
  qed
qed

lemma detached_echo_loop:
  "5 \<le> length (ec_trace s) \<Longrightarrow> echo_loop fuel k peer p (detached_echo s) =
     map_option (map_res detached_echo) (echo_loop fuel (daemon_view k) peer p s)"
proof (induction fuel arbitrary: s)
  case 0
  then show ?case by (simp add: echo_loop.simps [of 0])
next
  case (Suc n)
  show ?case
  proof (cases "echo_round (daemon_view k) peer p s")
    case (Inl f)
    with Suc.prems show ?thesis by (simp add: echo_loop.simps [of "Suc n"] detached_echo_round)
  next
    case (Inr t)
    have "5 \<le> length (ec_trace t)"
      using echo_round_Inr(1) [of "daemon_view k" peer "fst p" "snd p" s t] Inr Suc.prems by simp
    with Suc Inr show ?thesis by (simp add: echo_loop.simps [of "Suc n"] detached_echo_round)
  qed
qed

text \<open>
  C16. The daemon is the plain program: when the program gets as far as its pipe, forks and opens its
  session, then what it does and returns is what the plain program does and returns, with the eight
  calls that detach it after the first five; the kernel it runs with is the plain program's, which
  sees these calls too.
\<close>

theorem daemon_is_echo:
  assumes "open_service k addr [] = Inr (my, h)" "k_accept k h my = Accepted peer from_addr" "0 \<le> peer"
    "k_pipe k (h @ [Accept my]) = Some p"
    "k_fork k (h @ [Accept my, PipeCreate]) = 0" "0 \<le> k_setsid k (h @ [Accept my, PipeCreate, Fork])"
  shows "daemon_main fuel k addr =
    map_option (map_res (map_prod id detached_echo)) (echo_main fuel (daemon_view k) addr)"
proof -
  have h: "h = [SocketCreate, Bind my addr, Listen my 5]"
    using assms(1) by (auto simp: open_service_def Let_def split: if_splits)
  let ?h = "h @ [Accept my, PipeCreate]"
  have h5: "length ?h = 5" by (simp add: h)
  have start: "echo_start (detached ?h) = detached_echo (echo_start ?h)"
    by (simp add: detached_echo_def echo_start_def)
  have daemon: "Daemonize k ?h = Inr (detached ?h)"
    using assms(5,6) h5 by (simp add: Daemonize_def detached_def detach_calls_def Let_def)
  let ?run = "echo_loop fuel (daemon_view k) peer p (echo_start ?h)"
  let ?fds = "[snd p, fst p, peer, my]"
  have close: "echo_close ?fds (detached_echo s) = detached_echo (echo_close ?fds s)"
    if "5 \<le> length (ec_trace s)" for s
    using that by (simp add: echo_close_def detached_echo_def detached_append)
  have "daemon_main fuel k addr = map_option (map_res (\<lambda>s. (0, echo_close ?fds s)))
      (map_option (map_res detached_echo) ?run)"
    using assms daemon detached_echo_loop [of "echo_start ?h" fuel k peer p] h5
    by (simp add: daemon_main_def Let_def start)
  also have "\<dots> = map_option (map_res (map_prod id detached_echo))
      (map_option (map_res (\<lambda>s. (0, echo_close ?fds s))) ?run)"
  proof (cases ?run)
    case None
    then show ?thesis by simp
  next
    case (Some out)
    show ?thesis
    proof (cases out)
      case (Inl f)
      with Some show ?thesis by simp
    next
      case (Inr t)
      obtain m where "ec_trace t = ?h @ echo_calls peer p m" using echo_served(2) Some Inr by blast
      with h5 have "5 \<le> length (ec_trace t)" by simp
      with Some Inr show ?thesis by (simp add: close)
    qed
  qed
  also have "\<dots> = map_option (map_res (map_prod id detached_echo)) (echo_main fuel (daemon_view k) addr)"
    using assms by (simp add: echo_main_def Let_def)
  finally show ?thesis .
qed

lemma daemon_is_echo_witness:
  "daemon_main 3 (echo_script [''ab'', ''c''] 1) a_peer =
     map_option (map_res (map_prod id detached_echo))
       (echo_main 3 (daemon_view (echo_script [''ab'', ''c''] 1)) a_peer)"
  by (rule daemon_is_echo [of _ _ 3 "[SocketCreate, Bind 3 a_peer, Listen 3 5]" 4 a_peer "(5, 6)"])
    (simp_all add: echo_script_def open_service_def idle_kernel_def)

end
