(* ===== verification/SendFile.thy ===== *)
theory SendFile
  imports SpliceEcho
begin

text \<open>
  \<^verbatim>\<open>examples/network-programming-api-basic/sendfile_service.cc\<close>: one file to one client, by a single
  \<open>sendfile\<close>. The file is opened and its size taken before the socket exists. What the lemmas show:
  every run in which nothing is asserted asks for the whole file at most once, whatever that call
  moves; and the file is closed on the two paths that say so, and on no other.
\<close>

definition sendfile_main :: "kernel \<Rightarrow> string \<Rightarrow> sockaddr_in \<Rightarrow> (int \<times> trace) res" where
  "sendfile_main k filename my_sockaddr =
     (let filefd = k_open k [] filename; h = [Open filename O_RDONLY] in
      if filefd = -1 then Inr (1, h)
      else case k_fstat k h filefd of
        None \<Rightarrow> Inr (1, h @ [Fstat filefd, Close filefd])
      | Some st_size \<Rightarrow>
          rbind (open_service k my_sockaddr (h @ [Fstat filefd])) (\<lambda>(my_sockfd, h).
          let ret = k_accept k h my_sockfd; h = h @ [Accept my_sockfd] in
          case ret of
            AcceptErr e \<Rightarrow> Inr (0, h @ [Close my_sockfd])
          | Accepted peer_sockfd peer_sockaddr \<Rightarrow>
              if peer_sockfd < 0 then Inr (0, h @ [Close my_sockfd])
              else
                let ret = k_sendfile k h peer_sockfd st_size;
                    h = h @ [Sendfile peer_sockfd filefd st_size];
                    h = (if ret = -1 then h else h @ [Close filefd]) in
                Inr (0, h @ [Close peer_sockfd, Close my_sockfd])))"

section \<open>What a run does\<close>

text \<open>The calls of a run that gets as far as the connection.\<close>

definition sending_calls :: "string \<Rightarrow> fd \<Rightarrow> fd \<Rightarrow> sockaddr_in \<Rightarrow> trace" where
  "sending_calls filename file my addr =
     [Open filename O_RDONLY, Fstat file, SocketCreate, Bind my addr, Listen my 5, Accept my]"

text \<open>
  The five ways a run ends: an assertion, no file, no size, no connection, or one call of \<open>sendfile\<close>
  for the whole file. Only where that call fails or there is no connection is the file left open.
\<close>

theorem sendfile_outcomes:
  "sendfile_main k filename addr = Inl AssertFail \<or>
   sendfile_main k filename addr = Inr (1, [Open filename O_RDONLY]) \<or>
   (\<exists>file. sendfile_main k filename addr = Inr (1, [Open filename O_RDONLY, Fstat file, Close file])) \<or>
   (\<exists>file my. sendfile_main k filename addr = Inr (0, sending_calls filename file my addr @ [Close my])) \<or>
   (\<exists>file my peer size closed.
      k_fstat k [Open filename O_RDONLY] file = Some size \<and>
      closed = (if k_sendfile k (sending_calls filename file my addr) peer size = -1 then [] else [Close file]) \<and>
      sendfile_main k filename addr =
        Inr (0, sending_calls filename file my addr @ [Sendfile peer file size] @ closed @ [Close peer, Close my]))"
proof -
  let ?file = "k_open k [] filename" and ?h = "[Open filename O_RDONLY]"
  show ?thesis
  proof (cases "?file = -1")
    case True
    then show ?thesis by (simp add: sendfile_main_def)
  next
    case opened: False
    show ?thesis
    proof (cases "k_fstat k ?h ?file")
      case None
      with opened show ?thesis by (simp add: sendfile_main_def Let_def)
    next
      case (Some size)
      show ?thesis
      proof (cases "open_service k addr (?h @ [Fstat ?file])")
        case (Inl f)
        with opened Some open_service_fault [OF Inl] show ?thesis by (simp add: sendfile_main_def Let_def)
      next
        case (Inr b)
        obtain my h where b: "b = (my, h)" by (cases b)
        have h: "h = [Open filename O_RDONLY, Fstat ?file, SocketCreate, Bind my addr, Listen my 5]"
          using open_service_Inr [OF Inr [unfolded b]] by simp
        have run: "sendfile_main k filename addr =
            (case k_accept k h my of
               AcceptErr e \<Rightarrow> Inr (0, sending_calls filename ?file my addr @ [Close my])
             | Accepted peer a \<Rightarrow>
                 if peer < 0 then Inr (0, sending_calls filename ?file my addr @ [Close my])
                 else Inr (0, sending_calls filename ?file my addr @ [Sendfile peer ?file size] @
                   (if k_sendfile k (sending_calls filename ?file my addr) peer size = -1 then []
                    else [Close ?file]) @ [Close peer, Close my]))"
          using opened Some Inr b h by (simp add: sendfile_main_def sending_calls_def Let_def split: accept_ret.split)
        show ?thesis
        proof (cases "k_accept k h my")
          case (AcceptErr e)
          with run show ?thesis by auto
        next
          case (Accepted peer a)
          with run Some show ?thesis by (cases "peer < 0") auto
        qed
      qed
    qed
  qed
qed

text \<open>A run never repeats \<open>sendfile\<close>: a call that moves less than the file leaves the rest unsent.\<close>

definition is_sendfile :: "syscall \<Rightarrow> bool" where
  "is_sendfile c = (case c of Sendfile a b n \<Rightarrow> True | _ \<Rightarrow> False)"

theorem sendfile_once:
  "sendfile_main k filename addr = Inr (code, h) \<Longrightarrow> length (filter is_sendfile h) \<le> 1"
  using sendfile_outcomes [of k filename addr]
  by (auto simp: sending_calls_def is_sendfile_def split: if_splits)

end
