(* ===== verification/EchoDup.thy ===== *)
theory EchoDup
  imports SpliceEcho HttpResponse
begin

text \<open>
  \<^verbatim>\<open>examples/network-programming-api-basic/echo_dup.cc\<close>: an echo through standard output, in the style of
  CGI. The program closes descriptor 1 and duplicates the connection, which takes its place when
  descriptor 0 is open; so what \<open>printf\<close> writes goes to the client. A \<open>Print\<close> of a trace is what is
  written to the stream \<open>stdout\<close>; the library passes it on in blocks, and the rest at exit.
\<close>

section \<open>The code\<close>

text \<open>The batches that \<open>recv\<close> has answered are kept as a history variable.\<close>

record dup =
  du_got :: "recv_ret list"
  du_trace :: trace

definition tom_echo :: "nat \<Rightarrow> string \<Rightarrow> string" where
  "tom_echo ret buf = ''[Tom Echo] '' @ dec_string ret @ '' bytes of data: '' @ buf @ ''-----------'' @ [LF]"

definition dup_error :: "errno \<Rightarrow> string" where
  "dup_error errno = ''[ERROR] errno: '' @ dec_string (nat errno) @ [LF]"

definition dup_size :: nat where "dup_size = 1023"

text \<open>
  One turn. The buffer has one byte more than the \<open>len\<close> bytes that are cleared and received; nobody
  writes it. If the received bytes fill the rest without a NUL, \<open>%s\<close> reads it.
\<close>

definition CleanReceiveAndPrint :: "kernel \<Rightarrow> fd \<Rightarrow> nat \<Rightarrow> dup \<Rightarrow> dup res" where
  "CleanReceiveAndPrint k peer_sockfd len s =
     (let buf = replicate len NUL;
          ret = k_recv k (du_trace s) peer_sockfd len;
          s = s\<lparr>du_got := du_got s @ [ret], du_trace := du_trace s @ [Recv peer_sockfd len]\<rparr> in
      case ret of
        RecvErr errno \<Rightarrow> Inr (s\<lparr>du_trace := du_trace s @ [Print (dup_error errno)]\<rparr>)
      | RecvData d \<Rightarrow>
          if d = [] then Inr s
          else if len < length d then Inl OutOfBounds
          else
            case cstr_at (overwrite buf 0 d) 0 of
              None \<Rightarrow> Inl Uninitialised
            | Some text \<Rightarrow> Inr (s\<lparr>du_trace := du_trace s @ [Print (tom_echo (length d) text)]\<rparr>))"

fun dup_loop :: "nat \<Rightarrow> kernel \<Rightarrow> fd \<Rightarrow> dup \<Rightarrow> dup res option" where
  "dup_loop fuel k peer_sockfd s =
     (if k_sigterm k (du_trace s) then Some (Inr s)
      else case fuel of
        0 \<Rightarrow> None
      | Suc n \<Rightarrow>
          (case CleanReceiveAndPrint k peer_sockfd dup_size s of
             Inl f \<Rightarrow> Some (Inl f)
           | Inr s \<Rightarrow> dup_loop n k peer_sockfd s))"

declare dup_loop.simps [simp del]

definition dup_main :: "nat \<Rightarrow> kernel \<Rightarrow> sockaddr_in \<Rightarrow> (int \<times> dup) res option" where
  "dup_main fuel k my_sockaddr =
     (case open_service k my_sockaddr [] of
        Inl f \<Rightarrow> Some (Inl f)
      | Inr (my_sockfd, h) \<Rightarrow>
          let ret = k_accept k h my_sockfd; h = h @ [Accept my_sockfd];
              failed = Some (Inr (0, \<lparr>du_got = [], du_trace = h @ [Close my_sockfd]\<rparr>)) in
          (case ret of
             AcceptErr e \<Rightarrow> failed
           | Accepted peer_sockfd peer_sockaddr \<Rightarrow>
               if peer_sockfd < 0 then failed
               else
                 map_option (map_res (\<lambda>s.
                     (0, s\<lparr>du_trace := du_trace s @ [Close peer_sockfd, Close my_sockfd]\<rparr>)))
                   (dup_loop fuel k peer_sockfd
                     \<lparr>du_got = [], du_trace = h @ [Close 1, Dup peer_sockfd]\<rparr>)))"

section \<open>What it answers\<close>

definition prints :: "trace \<Rightarrow> string list" where
  "prints h = concat (map (\<lambda>c. case c of Print s \<Rightarrow> [s] | _ \<Rightarrow> []) h)"

lemma prints_simps [simp]:
  "prints [] = []" "prints (h @ g) = prints h @ prints g" "prints (Print s # h) = s # prints h"
  "prints (Recv fd n # h) = prints h" "prints (Close fd # h) = prints h" "prints (Dup fd # h) = prints h"
  "prints (SocketCreate # h) = prints h" "prints (Bind fd a # h) = prints h"
  "prints (Listen fd b # h) = prints h" "prints (Accept fd # h) = prints h"
  by (simp_all add: prints_def)

text \<open>The answer to one batch: nothing at the end of the connection, else its length and its text.\<close>

definition dup_reply :: "recv_ret \<Rightarrow> string list" where
  "dup_reply r = (case r of
      RecvErr e \<Rightarrow> [dup_error e]
    | RecvData d \<Rightarrow> if d = [] then [] else [tom_echo (length d) (cstr d)])"

definition dup_ok :: "dup \<Rightarrow> bool" where
  "dup_ok s \<longleftrightarrow> prints (du_trace s) = concat (map dup_reply (du_got s))"

definition unended :: "char list \<Rightarrow> bool" where
  "unended d \<longleftrightarrow> length d = dup_size \<and> NUL \<notin> set d"

lemma cstr_at_cleared:
  assumes "length d \<le> n"
  shows "cstr_at (overwrite (replicate n NUL) 0 d) 0 = (if length d = n \<and> NUL \<notin> set d then None else Some (cstr d))"
proof -
  have buf: "overwrite (replicate n NUL) 0 d = d @ replicate (n - length d) NUL" by (simp add: overwrite_def)
  have "cstr (d @ replicate m NUL) = cstr d" for m by (cases m) (simp_all add: cstr_def takeWhile_tail)
  with assms show ?thesis by (auto simp: cstr_at_def buf)
qed

lemma turn_cases:
  assumes "recv_bounded k"
  shows "case CleanReceiveAndPrint k peer dup_size s of
      Inl f \<Rightarrow> f = Uninitialised \<and> (\<exists>d. k_recv k (du_trace s) peer dup_size = RecvData d \<and> unended d)
    | Inr t \<Rightarrow> (dup_ok s \<longrightarrow> dup_ok t)"
proof (cases "k_recv k (du_trace s) peer dup_size")
  case (RecvErr e)
  then show ?thesis by (simp add: CleanReceiveAndPrint_def dup_ok_def dup_reply_def Let_def)
next
  case (RecvData d)
  with assms have "length d \<le> dup_size" by (simp add: recv_bounded_def)
  with RecvData show ?thesis
    by (auto simp: CleanReceiveAndPrint_def dup_ok_def dup_reply_def unended_def cstr_at_cleared Let_def)
qed

lemma dup_loop_run:
  assumes "recv_bounded k" "dup_loop fuel k peer s = Some res" "dup_ok s"
  shows "case res of
      Inl f \<Rightarrow> f = Uninitialised \<and> (\<exists>h d. k_recv k h peer dup_size = RecvData d \<and> unended d)
    | Inr t \<Rightarrow> dup_ok t"
  using assms(2,3)
proof (induction fuel arbitrary: s)
  case 0
  then show ?case by (auto simp: dup_loop.simps [of 0] split: if_splits)
next
  case (Suc n)
  note unf = dup_loop.simps [of "Suc n"]
  show ?case
  proof (cases "k_sigterm k (du_trace s)")
    case True
    with Suc.prems show ?thesis by (auto simp: unf)
  next
    case running: False
    show ?thesis
    proof (cases "CleanReceiveAndPrint k peer dup_size s")
      case (Inl f)
      with turn_cases [OF assms(1), where peer = peer and s = s] running Suc.prems show ?thesis by (auto simp: unf) blast
    next
      case (Inr t)
      with turn_cases [OF assms(1), where peer = peer and s = s] Suc.prems(2) have "dup_ok t" by simp
      with Suc.IH Inr running Suc.prems show ?thesis by (simp add: unf)
    qed
  qed
qed

text \<open>
  Every batch is answered, in order, by its length and its text up to the first NUL; the end of the
  connection by nothing. The only undefined behaviour a client can cause is the byte behind a full
  buffer.
\<close>

theorem dup_answers:
  assumes "dup_main fuel k addr = Some res" "recv_bounded k"
  shows "(\<exists>s. res = Inr (0, s) \<and> prints (du_trace s) = concat (map dup_reply (du_got s))) \<or>
    res = Inl AssertFail \<or>
    res = Inl Uninitialised \<and> (\<exists>h peer d. k_recv k h peer dup_size = RecvData d \<and> unended d)"
proof (cases "open_service k addr []")
  case (Inl f)
  with open_service_fault [OF Inl] assms(1) show ?thesis by (simp add: dup_main_def)
next
  case (Inr b)
  obtain my h where b: "b = (my, h)" by (cases b)
  have h: "h = [SocketCreate, Bind my addr, Listen my 5]"
    using open_service_Inr [OF Inr [unfolded b]] by simp
  note run = assms(1) [unfolded dup_main_def Inr b sum.case prod.case Let_def]
  show ?thesis
  proof (cases "\<exists>peer a. k_accept k h my = Accepted peer a \<and> 0 \<le> peer")
    case False
    with run h have "res = Inr (0, \<lparr>du_got = [], du_trace = h @ [Accept my] @ [Close my]\<rparr>)"
      by (auto split: accept_ret.splits if_splits)
    with h show ?thesis by simp
  next
    case True
    then obtain peer a where peer: "k_accept k h my = Accepted peer a" "0 \<le> peer" by blast
    let ?s = "\<lparr>du_got = [], du_trace = (h @ [Accept my]) @ [Close 1, Dup peer]\<rparr>"
    obtain out where out: "dup_loop fuel k peer ?s = Some out"
      "res = map_res (\<lambda>s. (0, s\<lparr>du_trace := du_trace s @ [Close peer, Close my]\<rparr>)) out"
      using run peer by auto
    have "dup_ok ?s" by (simp add: dup_ok_def h)
    from dup_loop_run [OF assms(2) out(1) this] out(2) show ?thesis
      by (cases out) (auto simp: dup_ok_def)
  qed
qed

text \<open>The end of the connection does not end the loop: it spins until a SIGTERM comes.\<close>

theorem dup_eof_spins:
  assumes "\<forall>h. k_recv k h peer dup_size = RecvData []" "\<forall>h. \<not> k_sigterm k h"
  shows "dup_loop fuel k peer s = None"
  using assms
  by (induction fuel arbitrary: s) (simp_all add: dup_loop.simps [of 0] dup_loop.simps [of "Suc n" for n]
      CleanReceiveAndPrint_def Let_def)

end
