(* ===== verification/Programs.thy ===== *)
theory Programs
  imports Arguments FirstServer SpliceEchoProps SendFile EchoDup PlainChat TimingChat BlockingServer
begin

text \<open>
  The programs from the words of their command line. Each takes its arguments apart, leaves with the
  usage message or serves at the address they name. \<open>junk\<close> is what the memory of the address holds.
\<close>

section \<open>The programs\<close>

definition with_args ::
  "(int + 'a) res \<Rightarrow> 's \<Rightarrow> ('a \<Rightarrow> (int \<times> 's) res option) \<Rightarrow> (int \<times> 's) res option" where
  "with_args args s serving =
     (case args of
        Inl f \<Rightarrow> Some (Inl f)
      | Inr (Inl code) \<Rightarrow> Some (Inr (code, s))
      | Inr (Inr a) \<Rightarrow> serving a)"

definition echo_program :: "nat \<Rightarrow> kernel \<Rightarrow> 32 word \<Rightarrow> string list \<Rightarrow> (int \<times> echo) res option" where
  "echo_program fuel k junk argv =
     with_args (port_args argv) (echo_start []) (\<lambda>(ip, port). echo_main fuel k (service_addr junk ip port))"

definition daemon_program :: "nat \<Rightarrow> kernel \<Rightarrow> 32 word \<Rightarrow> string list \<Rightarrow> (int \<times> echo) res option" where
  "daemon_program fuel k junk argv =
     with_args (port_args argv) (echo_start []) (\<lambda>(ip, port). daemon_main fuel k (service_addr junk ip port))"

definition dup_program :: "nat \<Rightarrow> kernel \<Rightarrow> 32 word \<Rightarrow> string list \<Rightarrow> (int \<times> dup) res option" where
  "dup_program fuel k junk argv =
     with_args (port_args argv) \<lparr>du_got = [], du_trace = []\<rparr>
       (\<lambda>(ip, port). dup_main fuel k (service_addr junk ip port))"

definition sendfile_program :: "kernel \<Rightarrow> 32 word \<Rightarrow> string list \<Rightarrow> (int \<times> trace) res option" where
  "sendfile_program k junk argv =
     with_args (file_args None argv) []
       (\<lambda>(ip, port, filename). Some (sendfile_main k filename (service_addr junk ip port)))"

definition group_program :: "nat \<Rightarrow> kernel \<Rightarrow> 32 word \<Rightarrow> string list \<Rightarrow> (int \<times> trace) res option" where
  "group_program fuel k junk argv =
     with_args (file_args (Some (argv ! 0)) argv) []
       (\<lambda>(ip, port, filename). group_main fuel k (service_addr junk ip port))"

definition sio_program :: "nat \<Rightarrow> kernel \<Rightarrow> 32 word \<Rightarrow> string list \<Rightarrow> (int \<times> trace) res option" where
  "sio_program fuel k junk argv =
     with_args (file_args (Some (argv ! 0)) argv) []
       (\<lambda>(ip, port, filename). sio_main fuel k (service_addr junk ip port))"

definition timed_program :: "nat \<Rightarrow> kernel \<Rightarrow> 32 word \<Rightarrow> string list \<Rightarrow> (int \<times> trace) res option" where
  "timed_program fuel k junk argv =
     with_args (file_args (Some (argv ! 0)) argv) []
       (\<lambda>(ip, port, filename). timed_main fuel k (service_addr junk ip port))"

definition http_program :: "nat \<Rightarrow> kernel \<Rightarrow> 32 word \<Rightarrow> string list \<Rightarrow> (int \<times> trace) res option" where
  "http_program fuel k junk argv =
     with_args (file_args (Some (argv ! 0)) argv) []
       (\<lambda>(ip, port, filename). http_main fuel k (service_addr junk ip port))"

definition greet_program :: "nat \<Rightarrow> kernel \<Rightarrow> 32 word \<Rightarrow> string list \<Rightarrow> (int \<times> trace) res option" where
  "greet_program fuel k junk argv =
     with_args (file_args (Some (argv ! 0)) argv) []
       (\<lambda>(ip, port, filename). greet_main fuel k (service_addr junk ip port))"

text \<open>
  The pool servers take the address and the port by their position, after the socket has been made, and do
  not count the words: a missing one is a null pointer.
\<close>

definition server_program ::
  "nat \<Rightarrow> (nat \<Rightarrow> req_stat_mach) \<Rightarrow> kernel \<Rightarrow> 32 word \<Rightarrow> string list \<Rightarrow> (int \<times> trace) res option" where
  "server_program fuel junk k junk_addr argv =
     (if \<not> 0 \<le> k_socket k [] then Some (Inl AssertFail)
      else if length argv < 3 then Some (Inl NullDeref)
      else main fuel junk k (service_addr junk_addr (argv ! 1) (atoi (argv ! 2))))"

definition first_server_program ::
  "nat \<Rightarrow> (nat \<Rightarrow> req_stat_mach) \<Rightarrow> kernel \<Rightarrow> 32 word \<Rightarrow> string list \<Rightarrow> (int \<times> trace) res option" where
  "first_server_program fuel junk k junk_addr argv =
     (if \<not> 0 \<le> k_socket k [] then Some (Inl AssertFail)
      else if length argv < 3 then Some (Inl NullDeref)
      else first_main fuel junk k (service_addr junk_addr (argv ! 1) (atoi (argv ! 2))))"

lemmas program_defs = echo_program_def daemon_program_def dup_program_def sendfile_program_def
  group_program_def sio_program_def timed_program_def http_program_def greet_program_def with_args_def

section \<open>Properties\<close>

lemma service_addr_usual:
  assumes "a < 256" "b < 256" "c < 256" "d < 256" "n < 65536"
  shows "service_addr junk (dotted a b c d) (atoi (dec_string n)) =
    \<lparr>sin_addr = of_nat (((a * 256 + b) * 256 + c) * 256 + d), sin_port = of_nat n\<rparr>"
proof -
  have "sin_port (service_addr junk (dotted a b c d) (atoi (dec_string n))) = of_nat n"
    using assms(5) by (intro sin_port_dec_string) simp
  then show ?thesis using inet_pton_dotted [OF assms(1-4)] by (simp add: service_addr_def)
qed

text \<open>
  C15. The address on the command line is the address served: each of the services, started with the words
  its usage message asks for, a dotted address and a port below 65536, runs as the model of its main
  program at exactly that address and port.
\<close>

theorem programs_serve_address:
  assumes "a < 256" "b < 256" "c < 256" "d < 256" "n < 65536"
    "addr = \<lparr>sin_addr = of_nat (((a * 256 + b) * 256 + c) * 256 + d), sin_port = of_nat n\<rparr>"
    "argv = [prog, dotted a b c d, ''-p'', dec_string n]"
  shows "echo_program fuel k junk argv = echo_main fuel k addr \<and>
    daemon_program fuel k junk argv = daemon_main fuel k addr \<and>
    dup_program fuel k junk argv = dup_main fuel k addr \<and>
    sendfile_program k junk (argv @ [''-f'', name]) = Some (sendfile_main k name addr) \<and>
    group_program fuel k junk argv = group_main fuel k addr \<and>
    sio_program fuel k junk argv = sio_main fuel k addr \<and>
    timed_program fuel k junk argv = timed_main fuel k addr \<and>
    http_program fuel k junk argv = http_main fuel k addr \<and>
    greet_program fuel k junk argv = greet_main fuel k addr \<and>
    (0 \<le> k_socket k [] \<longrightarrow>
       server_program fuel mem k junk [prog, dotted a b c d, dec_string n] = main fuel mem k addr \<and>
       first_server_program fuel mem k junk [prog, dotted a b c d, dec_string n] = first_main fuel mem k addr)"
  using port_args_usual [OF dotted_no_option] service_addr_usual [OF assms(1-5)]
  by (simp add: program_defs server_program_def first_server_program_def assms(6,7))

lemma programs_serve_address_witness:
  "echo_program 3 (echo_script [''ab'', ''c''] 2) 0 [''echo'', dotted 127 0 0 1, ''-p'', dec_string 8080] =
     echo_main 3 (echo_script [''ab'', ''c''] 2) \<lparr>sin_addr = 0x7F000001, sin_port = 8080\<rparr>"
  using programs_serve_address [of 127 0 0 1 8080 _ _ "''echo''", OF _ _ _ _ _ refl refl] by simp



text \<open>
  The option with the port is necessary, and its absence is not noticed: started with three words or
  more and no option, as the pool servers are, every other service reads a port that nothing has set.
\<close>

theorem missing_port_unnoticed:
  assumes "3 \<le> length argv" "\<forall>w \<in> set (tl argv). hd w \<noteq> CHR ''-''"
  shows "echo_program fuel k junk argv = Some (Inl Uninitialised) \<and>
    daemon_program fuel k junk argv = Some (Inl Uninitialised) \<and>
    dup_program fuel k junk argv = Some (Inl Uninitialised) \<and>
    sendfile_program k junk argv = Some (Inl Uninitialised) \<and>
    group_program fuel k junk argv = Some (Inl Uninitialised) \<and>
    sio_program fuel k junk argv = Some (Inl Uninitialised) \<and>
    timed_program fuel k junk argv = Some (Inl Uninitialised) \<and>
    http_program fuel k junk argv = Some (Inl Uninitialised) \<and>
    greet_program fuel k junk argv = Some (Inl Uninitialised)"
  using port_args_missing [OF assms] by (simp add: program_defs)

lemma missing_port_unnoticed_witness:
  "http_program 1 idle_kernel 0 [''http'', ''127.0.0.1'', ''8080''] = Some (Inl Uninitialised)"
  using missing_port_unnoticed [of "[''http'', ''127.0.0.1'', ''8080'']" 1 idle_kernel 0] by simp

end
