(* ===== verification/ForkLock.thy ===== *)
theory ForkLock
  imports Main
begin

text \<open>
  \<^verbatim>\<open>examples/multitasking/multithread_fork.cc\<close>: a process with a mutex and a second thread forks. The child
  has a copy of the mutex as it was at that moment, and only the thread that called \<open>fork\<close>. The threads
  are interleaved freely: a \<open>sleep\<close> promises no order.
\<close>

section \<open>The system\<close>

text \<open>Where each thread is: the call it makes next.\<close>

datatype worker_pc = W_lock | W_unlock | W_returned

datatype main_pc = M_fork | M_wait | M_join int | M_returned int   \<comment> \<open>with the exit code\<close>

datatype child_pc = C_lock | C_unlock | C_join | C_returned

text \<open>
  The mutex of the parent, and the copies that the child has of the mutex and of the worker: in its
  memory the worker stays where it was.
\<close>

record locking =
  worker :: worker_pc
  main_at :: main_pc
  child :: "child_pc option"   \<comment> \<open>\<open>None\<close>: not forked\<close>
  locked :: bool
  child_locked :: bool
  child_worker :: worker_pc

definition locking_start :: locking where
  "locking_start = \<lparr>worker = W_lock, main_at = M_fork, child = None, locked = False, child_locked = False,
     child_worker = W_lock\<rparr>"

inductive locking_step :: "locking \<Rightarrow> locking \<Rightarrow> bool" where
  work_lock: "worker s = W_lock \<Longrightarrow> \<not> locked s \<Longrightarrow> locking_step s (s\<lparr>worker := W_unlock, locked := True\<rparr>)"
| work_unlock: "worker s = W_unlock \<Longrightarrow> locking_step s (s\<lparr>worker := W_returned, locked := False\<rparr>)"
| fork_fails: "main_at s = M_fork \<Longrightarrow> locking_step s (s\<lparr>main_at := M_join 1\<rparr>)"
| forks: "main_at s = M_fork \<Longrightarrow>
    locking_step s (s\<lparr>main_at := M_wait, child := Some C_lock, child_locked := locked s, child_worker := worker s\<rparr>)"
| waited: "main_at s = M_wait \<Longrightarrow> child s = Some C_returned \<Longrightarrow> locking_step s (s\<lparr>main_at := M_join 0\<rparr>)"
| joined: "main_at s = M_join code \<Longrightarrow> worker s = W_returned \<Longrightarrow> locking_step s (s\<lparr>main_at := M_returned code\<rparr>)"
| child_lock: "child s = Some C_lock \<Longrightarrow> \<not> child_locked s \<Longrightarrow>
    locking_step s (s\<lparr>child := Some C_unlock, child_locked := True\<rparr>)"
| child_unlock: "child s = Some C_unlock \<Longrightarrow> locking_step s (s\<lparr>child := Some C_join, child_locked := False\<rparr>)"
| child_join: "child s = Some C_join \<Longrightarrow> child_worker s = W_returned \<Longrightarrow>
    locking_step s (s\<lparr>child := Some C_returned\<rparr>)"

definition locking_steps :: "locking \<Rightarrow> locking \<Rightarrow> bool" where
  "locking_steps = locking_step\<^sup>*\<^sup>*"

lemma locking_steps_intros [intro]:
  "locking_steps s s" "locking_steps s t \<Longrightarrow> locking_step t u \<Longrightarrow> locking_steps s u"
  by (auto simp: locking_steps_def)

inductive_cases locking_stepE: "locking_step s t"

section \<open>Invariants\<close>

text \<open>
  The parent's mutex is held exactly while its worker is before the unlock. The child's copy is held
  for ever if it was copied held; the parent cannot be past its \<open>wait\<close> unless the child has returned.
\<close>

definition locking_inv :: "locking \<Rightarrow> bool" where
  "locking_inv s \<longleftrightarrow>
     (locked s \<longleftrightarrow> worker s = W_unlock) \<and>
     (child s = None \<longleftrightarrow> main_at s = M_fork \<or> main_at s = M_join 1 \<or> main_at s = M_returned 1) \<and>
     (main_at s = M_fork \<or> main_at s = M_wait \<or> main_at s \<in> {M_join 0, M_join 1, M_returned 0, M_returned 1}) \<and>
     (main_at s \<in> {M_join 0, M_returned 0} \<longrightarrow> child s = Some C_returned) \<and>
     (main_at s \<in> {M_returned 0, M_returned 1} \<longrightarrow> worker s = W_returned) \<and>
     (child s = Some C_unlock \<longrightarrow> child_locked s \<and> child_worker s \<noteq> W_unlock) \<and>
     (child s = Some C_lock \<longrightarrow> (child_locked s \<longleftrightarrow> child_worker s = W_unlock)) \<and>
     (child s = Some C_join \<longrightarrow> child_worker s \<noteq> W_unlock) \<and>
     (child s = Some C_returned \<longrightarrow> child_worker s = W_returned) \<and>
     (child s \<noteq> None \<and> child_worker s = W_returned \<longrightarrow> worker s = W_returned)"

lemma locking_inv_start: "locking_inv locking_start"
  by (simp add: locking_inv_def locking_start_def)

lemma locking_inv_step: "locking_step s t \<Longrightarrow> locking_inv s \<Longrightarrow> locking_inv t"
  by (induction rule: locking_step.induct) (auto simp: locking_inv_def)

lemma locking_inv_steps: "locking_steps s t \<Longrightarrow> locking_inv s \<Longrightarrow> locking_inv t"
  unfolding locking_steps_def
  by (induction rule: rtranclp_induct) (auto intro: locking_inv_step)

text \<open>After the fork, the child's copy of the worker does not move.\<close>

lemma child_worker_fixed:
  "locking_step s t \<Longrightarrow> locking_inv s \<Longrightarrow> child s \<noteq> None \<Longrightarrow> child t \<noteq> None \<and> child_worker t = child_worker s"
  by (induction rule: locking_step.induct) (auto simp: locking_inv_def)

lemma child_worker_stays:
  "locking_steps s t \<Longrightarrow> locking_inv s \<Longrightarrow> child s \<noteq> None \<Longrightarrow> child t \<noteq> None \<and> child_worker t = child_worker s"
  unfolding locking_steps_def
proof (induction rule: rtranclp_induct)
  case (step t u)
  then have "locking_inv t" using locking_inv_steps [of s t] by (simp add: locking_steps_def)
  with step child_worker_fixed [OF step.hyps(2)] show ?case by simp
qed simp

section \<open>Who ends\<close>

text \<open>
  If the program forks before its worker has returned, then neither process ever ends: the child waits
  for a lock that no one in it holds, or for a thread it does not have, and the parent waits for the child.
\<close>

theorem fork_too_early:
  assumes "locking_steps locking_start s" "main_at s = M_fork" "worker s \<noteq> W_returned"
    "locking_steps (s\<lparr>main_at := M_wait, child := Some C_lock, child_locked := locked s, child_worker := worker s\<rparr>) t"
  shows "main_at t = M_wait \<and> child t \<noteq> Some C_returned \<and> (worker s = W_unlock \<longrightarrow> child t = Some C_lock)"
proof -
  let ?f = "s\<lparr>main_at := M_wait, child := Some C_lock, child_locked := locked s, child_worker := worker s\<rparr>"
  have "locking_inv ?f"
    using locking_inv_step [OF forks [OF assms(2)]] locking_inv_steps [OF assms(1) locking_inv_start] by blast
  then have inv: "locking_inv t" and stays: "child t \<noteq> None" "child_worker t = worker s"
    using locking_inv_steps [OF assms(4)] child_worker_stays [OF assms(4)] by auto
  from inv stays assms(3) show ?thesis
    by (auto simp: locking_inv_def) (metis child_pc.exhaust not_Some_eq)+
qed

lemma fork_too_early_witness:
  "\<exists>s. locking_steps locking_start s \<and> worker s = W_unlock \<and> main_at s = M_fork \<and>
     (\<forall>t. locking_steps (s\<lparr>main_at := M_wait, child := Some C_lock, child_locked := locked s, child_worker := worker s\<rparr>) t \<longrightarrow>
        main_at t = M_wait \<and> child t = Some C_lock)"
proof -
  let ?s = "locking_start\<lparr>worker := W_unlock, locked := True\<rparr>"
  have s: "locking_steps locking_start ?s" "main_at ?s = M_fork" "worker ?s \<noteq> W_returned"
    using locking_steps_intros(2) [OF locking_steps_intros(1) work_lock [of locking_start]]
    by (simp_all add: locking_start_def)
  from fork_too_early [OF s] s show ?thesis by (intro exI [of _ ?s]) simp
qed

text \<open>Every run is finite: each step brings a thread forward.\<close>

primrec worker_left :: "worker_pc \<Rightarrow> nat" where
  "worker_left W_lock = 2" | "worker_left W_unlock = 1" | "worker_left W_returned = 0"

primrec main_left :: "main_pc \<Rightarrow> nat" where
  "main_left M_fork = 7" | "main_left M_wait = 2" | "main_left (M_join c) = 1" | "main_left (M_returned c) = 0"

primrec child_left :: "child_pc \<Rightarrow> nat" where
  "child_left C_lock = 3" | "child_left C_unlock = 2" | "child_left C_join = 1" | "child_left C_returned = 0"

definition steps_left :: "locking \<Rightarrow> nat" where
  "steps_left s = worker_left (worker s) + main_left (main_at s) +
     (case child s of None \<Rightarrow> 0 | Some c \<Rightarrow> child_left c)"

lemma locking_step_decreases: "locking_step s t \<Longrightarrow> locking_inv s \<Longrightarrow> steps_left t < steps_left s"
  by (induction rule: locking_step.induct) (auto simp: steps_left_def locking_inv_def)

definition stuck :: "locking \<Rightarrow> bool" where
  "stuck s \<longleftrightarrow> (\<nexists>t. locking_step s t)"

lemma stuck_reached: "locking_inv s \<Longrightarrow> \<exists>t. locking_steps s t \<and> stuck t"
proof (induction s rule: measure_induct_rule [where f = steps_left])
  case (less s)
  show ?case
  proof (cases "stuck s")
    case False
    then obtain t where t: "locking_step s t" by (auto simp: stuck_def)
    with less.IH [OF locking_step_decreases [OF t less.prems] locking_inv_step [OF t less.prems]]
    obtain u where "locking_steps t u" "stuck u" by blast
    with t show ?thesis by (auto simp: locking_steps_def intro: converse_rtranclp_into_rtranclp)
  qed auto
qed

definition ended :: "locking \<Rightarrow> bool" where
  "ended s \<longleftrightarrow> main_at s \<in> {M_returned 0, M_returned 1} \<and> worker s = W_returned \<and>
     (child s = None \<or> child s = Some C_returned)"

definition waits_for_ever :: "locking \<Rightarrow> bool" where
  "waits_for_ever s \<longleftrightarrow> main_at s = M_wait \<and>
     (child s = Some C_lock \<and> child_worker s = W_unlock \<or> child s = Some C_join \<and> child_worker s = W_lock)"

lemma stuckD: "stuck s \<Longrightarrow> locking_step s t \<Longrightarrow> False"
  by (auto simp: stuck_def)

lemma stuck_worker: "stuck s \<Longrightarrow> locking_inv s \<Longrightarrow> worker s = W_returned"
  using stuckD [OF _ work_lock [of s]] stuckD [OF _ work_unlock [of s]]
  by (cases "worker s") (simp_all add: locking_inv_def)

lemma stuck_main:
  assumes "stuck s" "locking_inv s"
  shows "main_at s = M_wait \<or> main_at s = M_returned 0 \<or> main_at s = M_returned 1"
proof -
  have "main_at s \<noteq> M_fork" using stuckD [OF assms(1) fork_fails] by blast
  moreover have "main_at s \<noteq> M_join c" for c
    using stuckD [OF assms(1) joined] stuck_worker [OF assms] by blast
  ultimately show ?thesis using assms(2) by (simp add: locking_inv_def)
qed

lemma stuck_child:
  assumes "stuck s" "main_at s = M_wait" "child s = Some c"
  shows "c = C_lock \<and> child_locked s \<or> c = C_join \<and> child_worker s \<noteq> W_returned"
proof (cases c)
  case C_lock
  with stuckD [OF assms(1) child_lock] assms(3) show ?thesis by blast
next
  case C_unlock
  with stuckD [OF assms(1) child_unlock] assms(3) show ?thesis by blast
next
  case C_join
  with stuckD [OF assms(1) child_join] assms(3) show ?thesis by blast
next
  case C_returned
  with stuckD [OF assms(1) waited] assms(2,3) show ?thesis by blast
qed

lemma stuck_ends:
  assumes "stuck s" "locking_inv s"
  shows "if child s = None \<or> child_worker s = W_returned then ended s else waits_for_ever s"
proof (cases "main_at s = M_wait")
  case True
  then obtain c where c: "child s = Some c" using assms(2) by (cases "child s") (simp_all add: locking_inv_def)
  from stuck_child [OF assms(1) True this] show ?thesis
  proof
    assume "c = C_lock \<and> child_locked s"
    with c True assms(2) show ?thesis by (simp add: waits_for_ever_def locking_inv_def)
  next
    assume "c = C_join \<and> child_worker s \<noteq> W_returned"
    with c True assms(2) show ?thesis
      by (cases "child_worker s") (simp_all add: waits_for_ever_def locking_inv_def)
  qed
next
  case False
  with stuck_main [OF assms] consider "main_at s = M_returned 0" | "main_at s = M_returned 1" by blast
  then show ?thesis
    by cases (use assms(2) stuck_worker [OF assms] in \<open>auto simp: ended_def locking_inv_def\<close>)
qed

lemma run_shortens:
  assumes "\<forall>i. locking_step (f i) (f (Suc i))" "locking_inv (f 0)"
  shows "locking_inv (f i) \<and> steps_left (f i) + i \<le> steps_left (f 0)"
proof (induction i)
  case (Suc i)
  with assms(1) locking_step_decreases [of "f i" "f (Suc i)"] locking_inv_step [of "f i" "f (Suc i)"]
  show ?case by simp
qed (simp add: assms(2))



end
