(* ===== verification/SignalThread.thy ===== *)
theory SignalThread
  imports Posix
begin

text \<open>
  \<^verbatim>\<open>examples/multitasking/signal_thread.cc\<close>: two threads that wait for the signals SIGCHLD and SIGUSR1, which
  are blocked in every thread. The kernel keeps a pending signal once, however often it is sent, and
  gives it to one of the threads that wait.
\<close>

abbreviation (input) SIGUSR1 :: int where "SIGUSR1 \<equiv> 10"

text \<open>How far \<open>main\<close> is: the threads it has created, or its exit code.\<close>

datatype creating = Created nat | Exited int

text \<open>History variables: the signals sent to the process, and those each thread has reported.\<close>

record sigwaiting =
  creating_at :: creating
  pending :: "int set"
  sent :: "int list"
  reported :: "(nat \<times> int) list"

definition sig_set :: "int set" where "sig_set = {SIGCHLD, SIGUSR1}"

definition sigwaiting_start :: sigwaiting where
  "sigwaiting_start = \<lparr>creating_at = Created 0, pending = {}, sent = [], reported = []\<rparr>"

inductive sigwaiting_step :: "sigwaiting \<Rightarrow> sigwaiting \<Rightarrow> bool" where
  creates: "creating_at s = Created n \<Longrightarrow> n < 2 \<Longrightarrow> sigwaiting_step s (s\<lparr>creating_at := Created (n + 1)\<rparr>)"
| create_fails: "creating_at s = Created n \<Longrightarrow> n < 2 \<Longrightarrow> sigwaiting_step s (s\<lparr>creating_at := Exited 1\<rparr>)"
| arrives: "creating_at s = Created n \<Longrightarrow> sig \<in> sig_set \<Longrightarrow>
    sigwaiting_step s (s\<lparr>pending := insert sig (pending s), sent := sent s @ [sig]\<rparr>)"
| waits: "creating_at s = Created n \<Longrightarrow> tid < n \<Longrightarrow> sig \<in> pending s \<Longrightarrow>
    sigwaiting_step s (s\<lparr>pending := pending s - {sig}, reported := reported s @ [(tid, sig)]\<rparr>)"

text \<open>What a thread prints for a signal it got: the same words whichever it was.\<close>

definition sig_report :: "nat \<times> int \<Rightarrow> string" where
  "sig_report r = ''Got SIGCHLD''"

section \<open>No signal is reported twice\<close>

definition sig_count :: "int \<Rightarrow> sigwaiting \<Rightarrow> nat" where
  "sig_count sig s = count_list (map snd (reported s)) sig + (if sig \<in> pending s then 1 else 0)"

definition sigwaiting_inv :: "sigwaiting \<Rightarrow> bool" where
  "sigwaiting_inv s \<longleftrightarrow> (\<forall>sig. sig_count sig s \<le> count_list (sent s) sig) \<and>
     (\<forall>r \<in> set (reported s). fst r < 2 \<and> snd r \<in> sig_set) \<and> pending s \<subseteq> sig_set \<and>
     (\<forall>n. creating_at s = Created n \<longrightarrow> n \<le> 2)"

lemma sigwaiting_inv_start: "sigwaiting_inv sigwaiting_start"
  by (simp add: sigwaiting_inv_def sigwaiting_start_def sig_count_def)

lemma sigwaiting_inv_step: "sigwaiting_step s t \<Longrightarrow> sigwaiting_inv s \<Longrightarrow> sigwaiting_inv t"
proof (induction rule: sigwaiting_step.induct)
  case (arrives s n sig)
  have "sig_count x (s\<lparr>pending := insert sig (pending s), sent := sent s @ [sig]\<rparr>) \<le>
      count_list (sent s @ [sig]) x" for x
  proof -
    have "sig_count x s \<le> count_list (sent s) x" using arrives(3) by (simp add: sigwaiting_inv_def)
    then show ?thesis by (cases "x = sig") (auto simp: sig_count_def split: if_splits)
  qed
  with arrives show ?case by (simp add: sigwaiting_inv_def)
next
  case (waits s n tid sig)
  have "sig_count x (s\<lparr>pending := pending s - {sig}, reported := reported s @ [(tid, sig)]\<rparr>) = sig_count x s" for x
    using waits(3) by (cases "x = sig") (simp_all add: sig_count_def)
  with waits show ?case by (auto simp: sigwaiting_inv_def)
qed (auto simp: sigwaiting_inv_def sig_count_def)

text \<open>
  In every reachable state a signal has been reported at most as often as it was sent, by one of the two
  threads each time, and nothing else has been reported. A signal sent again while it is pending is lost.
\<close>

theorem signals_reported_once:
  assumes "sigwaiting_step\<^sup>*\<^sup>* sigwaiting_start s"
  shows "count_list (map snd (reported s)) sig \<le> count_list (sent s) sig \<and>
    (\<forall>r \<in> set (reported s). fst r < 2 \<and> snd r \<in> sig_set)"
proof -
  have "sigwaiting_inv s"
    using assms by (induction rule: rtranclp_induct) (auto intro: sigwaiting_inv_start sigwaiting_inv_step)
  then have "sig_count sig s \<le> count_list (sent s) sig" "\<forall>r \<in> set (reported s). fst r < 2 \<and> snd r \<in> sig_set"
    by (simp_all add: sigwaiting_inv_def)
  then show ?thesis by (simp add: sig_count_def)
qed

text \<open>The program does not end: once both threads exist, \<open>main\<close> waits for threads that never return.\<close>

lemma waits_on: "sigwaiting_step s t \<Longrightarrow> creating_at s = Created 2 \<Longrightarrow> creating_at t = Created 2"
  by (induction rule: sigwaiting_step.induct) auto

theorem signal_threads_stay:
  "sigwaiting_step\<^sup>*\<^sup>* s t \<Longrightarrow> creating_at s = Created 2 \<Longrightarrow> creating_at t = Created 2"
  by (induction rule: rtranclp_induct) (auto intro: waits_on)

end
