(* ===== verification/ByteOrder.thy ===== *)
theory ByteOrder
  imports "HOL-Library.Word"
begin

text \<open>
  \<^verbatim>\<open>examples/network-programming-api-basic/endian_check.cc\<close>: which byte of a 16-bit number comes first in
  memory. The layout of the machine is a parameter: the two bytes of a number, in memory order.
\<close>

definition CheckByteOrder :: "(16 word \<Rightarrow> 8 word \<times> 8 word) \<Rightarrow> string" where
  "CheckByteOrder layout =
     (let num_char = layout 0x0201 in
      if fst num_char = 0x01 \<and> snd num_char = 0x02 then ''little endian''
      else if fst num_char = 0x02 \<and> snd num_char = 0x01 then ''big endian''
      else ''unknown endian ...'')"

definition low_first :: "16 word \<Rightarrow> 8 word \<times> 8 word" where
  "low_first w = (ucast w, ucast (drop_bit 8 w))"

definition high_first :: "16 word \<Rightarrow> 8 word \<times> 8 word" where
  "high_first w = (ucast (drop_bit 8 w), ucast w)"

text \<open>The two layouts get their names, and a layout that is named is, at this number, one of them.\<close>

lemma CheckByteOrder_correct:
  "CheckByteOrder low_first = ''little endian''" "CheckByteOrder high_first = ''big endian''"
  by (simp_all add: CheckByteOrder_def low_first_def high_first_def drop_bit_eq_div)

lemma CheckByteOrder_sound:
  "CheckByteOrder layout = ''little endian'' \<Longrightarrow> layout 0x0201 = low_first 0x0201"
  "CheckByteOrder layout = ''big endian'' \<Longrightarrow> layout 0x0201 = high_first 0x0201"
  by (auto simp: CheckByteOrder_def low_first_def high_first_def drop_bit_eq_div prod_eq_iff Let_def split: if_splits)

end
